(* ===== verification/Prelude.thy ===== *)
theory Prelude
  imports Main "HOL-Library.Word"
begin

unbundle bit_operations_syntax

text \<open>
  Shared vocabulary of the development: the machine types of the C sources (bytes, the
  \<^verbatim>\<open>size_t\<close> arithmetic of a 64-bit host with its wrap-around), the error codes of
  \<^verbatim>\<open>ssherr.h\<close>, the result type of fallible operations on a mutable object, and the
  list and word lemmas the components use.  Collections of facts declared here:
  \<^item> \<open>size_arith\<close>: when \<^verbatim>\<open>size_t\<close> arithmetic does not wrap;
  \<^item> \<open>byte_simps\<close>: masking and shifting out the bytes of a word.
\<close>

named_theorems size_arith
named_theorems byte_simps

section \<open>Machine types\<close>

type_synonym byte = "8 word"

text \<open>
  \<^verbatim>\<open>size_t\<close> values are natural numbers; the additions of the source that are not
  preceded by a check are written with \<open>size_add\<close>, which wraps modulo \<open>2 ^ 64\<close>.
  A subtraction of the source is written as subtraction on \<^typ>\<open>nat\<close> only where a check of
  the same function has established that it cannot wrap, and as \<open>size_sub\<close> otherwise.
\<close>

definition SIZE_MAX :: nat where
  "SIZE_MAX = 2 ^ 64 - 1"

definition size_add :: "nat \<Rightarrow> nat \<Rightarrow> nat" where
  "size_add a b = (a + b) mod 2 ^ 64"

definition size_sub :: "nat \<Rightarrow> nat \<Rightarrow> nat" where
  "size_sub a b = nat ((int a - int b) mod 2 ^ 64)"

lemma size_add_exact [size_arith]: "a + b \<le> SIZE_MAX \<Longrightarrow> size_add a b = a + b"
  by (simp add: size_add_def SIZE_MAX_def)

lemma size_sub_exact [size_arith]: "b \<le> a \<Longrightarrow> a \<le> SIZE_MAX \<Longrightarrow> size_sub a b = a - b"
  by (simp add: size_sub_def SIZE_MAX_def nat_diff_distrib flip: of_nat_diff)

lemma size_add_le [simp]: "size_add a b \<le> SIZE_MAX"
  by (simp add: size_add_def SIZE_MAX_def flip: less_Suc_eq_le)

text \<open>\<^verbatim>\<open>ROUNDUP(x, y)\<close> of \<^verbatim>\<open>misc.h\<close>.\<close>

definition ROUNDUP :: "nat \<Rightarrow> nat \<Rightarrow> nat" where
  "ROUNDUP x y = (size_add x (y - 1) div y) * y"

lemma ROUNDUP_ge:
  assumes "0 < y" and "x + y \<le> SIZE_MAX"
  shows "x \<le> ROUNDUP x y"
proof -
  have "x + (y - 1) < y + (x + (y - 1)) div y * y"
    by (rule dividend_less_div_times [OF assms(1)])
  then show ?thesis
    using assms by (simp add: ROUNDUP_def size_arith)
qed

section \<open>Error codes\<close>

datatype (plugins del: "quickcheck" transfer lifting) ssh_err =
    SSH_ERR_INTERNAL_ERROR | SSH_ERR_ALLOC_FAIL | SSH_ERR_MESSAGE_INCOMPLETE
  | SSH_ERR_INVALID_FORMAT | SSH_ERR_BIGNUM_IS_NEGATIVE | SSH_ERR_STRING_TOO_LARGE
  | SSH_ERR_BIGNUM_TOO_LARGE | SSH_ERR_ECPOINT_TOO_LARGE | SSH_ERR_NO_BUFFER_SPACE
  | SSH_ERR_INVALID_ARGUMENT | SSH_ERR_KEY_BITS_MISMATCH | SSH_ERR_EC_CURVE_INVALID
  | SSH_ERR_KEY_TYPE_MISMATCH | SSH_ERR_KEY_TYPE_UNKNOWN | SSH_ERR_EC_CURVE_MISMATCH
  | SSH_ERR_EXPECTED_CERT | SSH_ERR_KEY_LACKS_CERTBLOB | SSH_ERR_KEY_CERT_UNKNOWN_TYPE
  | SSH_ERR_KEY_CERT_INVALID_SIGN_KEY | SSH_ERR_KEY_INVALID_EC_VALUE
  | SSH_ERR_SIGNATURE_INVALID | SSH_ERR_LIBCRYPTO_ERROR | SSH_ERR_UNEXPECTED_TRAILING_DATA
  | SSH_ERR_SYSTEM_ERROR | SSH_ERR_KEY_CERT_INVALID | SSH_ERR_AGENT_COMMUNICATION
  | SSH_ERR_AGENT_FAILURE | SSH_ERR_DH_GEX_OUT_OF_RANGE | SSH_ERR_DISCONNECTED
  | SSH_ERR_MAC_INVALID | SSH_ERR_NO_CIPHER_ALG_MATCH | SSH_ERR_NO_MAC_ALG_MATCH
  | SSH_ERR_NO_COMPRESS_ALG_MATCH | SSH_ERR_NO_KEX_ALG_MATCH | SSH_ERR_NO_HOSTKEY_ALG_MATCH
  | SSH_ERR_NO_HOSTKEY_LOADED | SSH_ERR_PROTOCOL_MISMATCH | SSH_ERR_NO_PROTOCOL_VERSION
  | SSH_ERR_NEED_REKEY | SSH_ERR_PASSPHRASE_TOO_SHORT | SSH_ERR_FILE_CHANGED
  | SSH_ERR_KEY_UNKNOWN_CIPHER | SSH_ERR_KEY_WRONG_PASSPHRASE | SSH_ERR_KEY_BAD_PERMISSIONS
  | SSH_ERR_KEY_CERT_MISMATCH | SSH_ERR_KEY_NOT_FOUND | SSH_ERR_AGENT_NOT_PRESENT
  | SSH_ERR_AGENT_NO_IDENTITIES | SSH_ERR_BUFFER_READ_ONLY | SSH_ERR_KRL_BAD_MAGIC
  | SSH_ERR_KEY_REVOKED | SSH_ERR_CONN_CLOSED | SSH_ERR_CONN_TIMEOUT | SSH_ERR_CONN_CORRUPT
  | SSH_ERR_PROTOCOL_ERROR | SSH_ERR_KEY_LENGTH | SSH_ERR_NUMBER_TOO_LARGE
  | SSH_ERR_SIGN_ALG_UNSUPPORTED | SSH_ERR_FEATURE_UNSUPPORTED | SSH_ERR_DEVICE_NOT_FOUND
  | SSH_ERR_CRYPTO_ERROR | SSH_ERR_INTERNAL_CRYPTO_ERROR

text \<open>
  An operation on a mutable object returns its result, \<open>Inl e\<close> for a negative return
  code, together with the object as the operation left it; the object may have changed
  even when the operation fails.
\<close>

type_synonym ('s, 'a) outcome = "(ssh_err + 'a) \<times> 's"

section \<open>Lists\<close>

text \<open>Overwriting \<open>v\<close> at index \<open>i\<close>: \<^verbatim>\<open>memcpy(p + i, v, len)\<close>.\<close>

definition overwrite :: "nat \<Rightarrow> 'a list \<Rightarrow> 'a list \<Rightarrow> 'a list" where
  "overwrite i v xs = take i xs @ v @ drop (i + length v) xs"

lemma length_overwrite [simp]: "i + length v \<le> length xs \<Longrightarrow> length (overwrite i v xs) = length xs"
  by (simp add: overwrite_def)

lemma take_overwrite [simp]: "j \<le> i \<Longrightarrow> i \<le> length xs \<Longrightarrow> take j (overwrite i v xs) = take j xs"
  by (simp add: overwrite_def min_def)

lemma slice_overwrite:
  "i + length v \<le> length xs \<Longrightarrow> take (length v) (drop i (overwrite i v xs)) = v"
  by (simp add: overwrite_def)

lemma slice_extend:
  assumes "off \<le> n" and "n + length v \<le> length xs"
  shows "take (n + length v - off) (drop off (overwrite n v xs)) = take (n - off) (drop off xs) @ v"
proof -
  have "take (n + length v - off) (drop off (overwrite n v xs))
      = drop off (take (n + length v) (overwrite n v xs))"
    using assms by (simp add: drop_take)
  also have "\<dots> = drop off (take n xs @ v)"
    using assms by (cases v) (auto simp: overwrite_def min_def)
  finally show ?thesis
    using assms by (simp add: drop_take)
qed

section \<open>Bytes of a word\<close>

text \<open>The simplifier reduces the bits of the mask \<^verbatim>\<open>0xff\<close> to those of an integer.\<close>

lemma bit_255_int [byte_simps]: "bit (255 :: int) n \<longleftrightarrow> n < 8"
proof -
  have "bit (mask 8 :: int) n \<longleftrightarrow> n < 8"
    by (simp add: bit_mask_iff)
  then show ?thesis by (simp add: mask_eq_exp_minus_1)
qed

lemma ucast_byte_mask [byte_simps]: "ucast (x AND 0xff) = (ucast x :: byte)"
  by (rule bit_word_eqI) (auto simp: bit_simps bit_255_int dest: bit_imp_le_length)

section \<open>Machine words\<close>

lemma unat_less_32 [simp]: "unat (w :: 32 word) < 2 ^ 32"
  using unsigned_less [of w, where 'a = nat] by simp

lemma unat_of_nat_32: "n < 2 ^ 32 \<Longrightarrow> unat (of_nat n :: 32 word) = n"
  by (simp add: unsigned_of_nat take_bit_nat_eq_self)

lemma unat_sub_nat: "n \<le> unat (w :: 32 word) \<Longrightarrow> unat (w - of_nat n) = unat w - n"
proof -
  assume n: "n \<le> unat w"
  then have "unat (of_nat n :: 32 word) = n"
    using unat_less_32 [of w] by (intro unat_of_nat_32) linarith
  with n show ?thesis by (simp add: unat_sub word_le_nat_alt)
qed

lemma unat_add_nat: "unat (v :: 32 word) + n < 2 ^ 32 \<Longrightarrow> unat (v + of_nat n) = unat v + n"
  by (simp add: unat_plus_if' unat_of_nat_32)

lemma find_distinct_key:
  "distinct (map f xs) \<Longrightarrow> x \<in> set xs \<Longrightarrow> find (\<lambda>y. f y = f x) xs = Some x"
  by (induction xs) (auto intro: rev_image_eqI)

end
