(* ===== verification/Sshbuf.thy ===== *)
theory Sshbuf
  imports Prelude
begin

text \<open>
  The growable, reference-counted byte buffer of \<^verbatim>\<open>sshbuf.c\<close>: the structure, its
  sanity check, and the operations that reserve and consume space.  The record keeps every
  field of \<^verbatim>\<open>struct sshbuf\<close>; pointers are addresses (\<^const>\<open>None\<close> is the null pointer),
  \<open>buf_self\<close> is the address of the structure itself and \<open>buf_mem\<close> holds the bytes of the
  allocation at \<^verbatim>\<open>cd\<close>.  What the C allocator answers is an argument: \<open>None\<close> is a failed
  allocation, \<open>Some p\<close> an allocation at address \<open>p\<close>.

  The abstraction of a buffer is the byte list \<open>buf_data\<close> between its two offsets; the
  lemmas show that every operation acts on it as a bounded queue and keeps the buffer
  sane, so that the deliberate crash of the sanity check is not reached.
\<close>

section \<open>Constants and structure\<close>

definition SSHBUF_SIZE_MAX :: nat where "SSHBUF_SIZE_MAX = 0x8000000"
definition SSHBUF_REFS_MAX :: nat where "SSHBUF_REFS_MAX = 0x100000"
definition SSHBUF_MAX_BIGNUM :: nat where "SSHBUF_MAX_BIGNUM = 16384 div 8"
definition SSHBUF_SIZE_INIT :: nat where "SSHBUF_SIZE_INIT = 256"
definition SSHBUF_SIZE_INC :: nat where "SSHBUF_SIZE_INC = 256"
definition SSHBUF_PACK_MIN :: nat where "SSHBUF_PACK_MIN = 8192"

lemmas sshbuf_consts = SSHBUF_SIZE_MAX_def SSHBUF_REFS_MAX_def SSHBUF_SIZE_INIT_def
  SSHBUF_SIZE_INC_def SSHBUF_PACK_MIN_def

record sshbuf =
  buf_self :: nat
  buf_d :: "nat option"
  buf_cd :: "nat option"
  buf_mem :: "byte list"
  buf_off :: nat
  buf_size :: nat
  buf_max_size :: nat
  buf_alloc :: nat
  buf_readonly :: bool
  buf_refcount :: nat
  buf_parent :: "nat option"

section \<open>Operations\<close>

text \<open>
  On a corrupted buffer the code restores the default action of \<^verbatim>\<open>SIGSEGV\<close>, raises it and,
  should the signal be blocked, returns the error.
\<close>

definition sshbuf_check_sanity :: "sshbuf \<Rightarrow> ssh_err + unit" where
  "sshbuf_check_sanity b =
     (if (\<not> buf_readonly b \<and> buf_d b \<noteq> buf_cd b) \<or>
         buf_parent b = Some (buf_self b) \<or>
         buf_refcount b < 1 \<or> buf_refcount b > SSHBUF_REFS_MAX \<or>
         buf_cd b = None \<or>
         buf_max_size b > SSHBUF_SIZE_MAX \<or>
         buf_alloc b > buf_max_size b \<or>
         buf_size b > buf_alloc b \<or>
         buf_off b > buf_size b
      then Inl SSH_ERR_INTERNAL_ERROR else Inr ())"

definition sshbuf_maybe_pack :: "sshbuf \<Rightarrow> bool \<Rightarrow> sshbuf" where
  "sshbuf_maybe_pack b force =
     (if buf_off b = 0 \<or> buf_readonly b \<or> buf_refcount b > 1 then b
      else if force \<or> (buf_off b \<ge> SSHBUF_PACK_MIN \<and> buf_off b \<ge> buf_size b div 2)
      then b\<lparr>buf_mem := overwrite 0 (take (buf_size b - buf_off b) (drop (buf_off b) (buf_mem b)))
                         (buf_mem b),
             buf_size := buf_size b - buf_off b,
             buf_off := 0\<rparr>
      else b)"

text \<open>The two allocations of \<^verbatim>\<open>sshbuf_new\<close> are for the structure and for its data.\<close>

definition sshbuf_new :: "nat option \<Rightarrow> nat option \<Rightarrow> sshbuf option" where
  "sshbuf_new sp dp =
     (case sp of None \<Rightarrow> None
      | Some self \<Rightarrow> (case dp of None \<Rightarrow> None
        | Some p \<Rightarrow> Some \<lparr>buf_self = self, buf_d = Some p, buf_cd = Some p,
            buf_mem = replicate SSHBUF_SIZE_INIT 0, buf_off = 0, buf_size = 0,
            buf_max_size = SSHBUF_SIZE_MAX, buf_alloc = SSHBUF_SIZE_INIT,
            buf_readonly = False, buf_refcount = 1, buf_parent = None\<rparr>))"

text \<open>A pointer to data is an address together with the bytes that are found there.\<close>

definition sshbuf_from :: "nat option \<Rightarrow> (nat \<times> byte list) option \<Rightarrow> nat \<Rightarrow> sshbuf option" where
  "sshbuf_from sp blob len =
     (case blob of None \<Rightarrow> None
      | Some (p, bytes) \<Rightarrow>
        if len > SSHBUF_SIZE_MAX then None
        else (case sp of None \<Rightarrow> None
          | Some self \<Rightarrow> Some \<lparr>buf_self = self, buf_d = None, buf_cd = Some p,
              buf_mem = take len bytes, buf_off = 0, buf_size = len,
              buf_max_size = len, buf_alloc = len,
              buf_readonly = True, buf_refcount = 1, buf_parent = None\<rparr>))"

text \<open>
  \<^verbatim>\<open>recallocarray(ptr, old, new, 1)\<close>: on success the old contents are kept up to the new
  size and any new bytes are zero.
\<close>

definition recallocarray :: "nat option \<Rightarrow> byte list \<Rightarrow> nat \<Rightarrow> (nat \<times> byte list) option" where
  "recallocarray ra m n = map_option (\<lambda>p. (p, take n m @ replicate (n - length m) 0)) ra"

definition sshbuf_reset :: "nat option \<Rightarrow> sshbuf \<Rightarrow> sshbuf" where
  "sshbuf_reset ra b =
     (if buf_readonly b \<or> buf_refcount b > 1 then b\<lparr>buf_off := buf_size b\<rparr>
      else (case sshbuf_check_sanity b of Inl e \<Rightarrow> b
      | Inr _ \<Rightarrow>
        let b1 = b\<lparr>buf_off := 0, buf_size := 0\<rparr>;
            b2 = (if buf_alloc b1 \<noteq> SSHBUF_SIZE_INIT
                  then (case recallocarray ra (buf_mem b1) SSHBUF_SIZE_INIT of
                          None \<Rightarrow> b1
                        | Some (p, m) \<Rightarrow> b1\<lparr>buf_d := Some p, buf_cd := Some p, buf_mem := m,
                                            buf_alloc := SSHBUF_SIZE_INIT\<rparr>)
                  else b1)
        in b2\<lparr>buf_mem := overwrite 0 (replicate (buf_alloc b2) 0) (buf_mem b2)\<rparr>))"

text \<open>The reallocation inside \<^verbatim>\<open>sshbuf_set_max_size\<close>.\<close>

definition sshbuf_shrink :: "nat option \<Rightarrow> sshbuf \<Rightarrow> nat \<Rightarrow> ssh_err + sshbuf" where
  "sshbuf_shrink ra b max_size =
     (if max_size < buf_alloc b \<and> max_size > buf_size b
      then let rlen0 = (if buf_size b < SSHBUF_SIZE_INIT then SSHBUF_SIZE_INIT
                        else ROUNDUP (buf_size b) SSHBUF_SIZE_INC);
               rlen = (if rlen0 > max_size then max_size else rlen0)
           in (case recallocarray ra (buf_mem b) rlen of
                 None \<Rightarrow> Inl SSH_ERR_ALLOC_FAIL
               | Some (p, m) \<Rightarrow> Inr (b\<lparr>buf_alloc := rlen, buf_d := Some p, buf_cd := Some p,
                                       buf_mem := m\<rparr>))
      else Inr b)"

definition sshbuf_set_max_size ::
    "nat option \<Rightarrow> sshbuf \<Rightarrow> nat \<Rightarrow> (sshbuf, unit) outcome" where
  "sshbuf_set_max_size ra b max_size =
     (case sshbuf_check_sanity b of Inl e \<Rightarrow> (Inl e, b)
      | Inr _ \<Rightarrow>
        if max_size = buf_max_size b then (Inr (), b)
        else if buf_readonly b \<or> buf_refcount b > 1 then (Inl SSH_ERR_BUFFER_READ_ONLY, b)
        else if max_size > SSHBUF_SIZE_MAX then (Inl SSH_ERR_NO_BUFFER_SPACE, b)
        else
          let b1 = sshbuf_maybe_pack b (max_size < buf_size b)
          in (case sshbuf_shrink ra b1 max_size of Inl e \<Rightarrow> (Inl e, b1)
              | Inr b2 \<Rightarrow>
                if max_size < buf_alloc b2 then (Inl SSH_ERR_NO_BUFFER_SPACE, b2)
                else (Inr (), b2\<lparr>buf_max_size := max_size\<rparr>)))"

definition sshbuf_len :: "sshbuf \<Rightarrow> nat" where
  "sshbuf_len b =
     (case sshbuf_check_sanity b of Inl e \<Rightarrow> 0 | Inr _ \<Rightarrow> buf_size b - buf_off b)"

definition sshbuf_avail :: "sshbuf \<Rightarrow> nat" where
  "sshbuf_avail b =
     (if sshbuf_check_sanity b \<noteq> Inr () \<or> buf_readonly b \<or> buf_refcount b > 1 then 0
      else size_sub (buf_max_size b) (buf_size b - buf_off b))"

text \<open>
  The pointer that \<^verbatim>\<open>sshbuf_ptr\<close> returns: its address and the bytes from there to the end
  of the allocation.
\<close>

definition sshbuf_ptr :: "sshbuf \<Rightarrow> (nat \<times> byte list) option" where
  "sshbuf_ptr b =
     (case sshbuf_check_sanity b of Inl e \<Rightarrow> None
      | Inr _ \<Rightarrow> (case buf_cd b of None \<Rightarrow> None
        | Some p \<Rightarrow> Some (p + buf_off b, drop (buf_off b) (buf_mem b))))"

text \<open>A writable pointer is the index into the allocation at which it writes.\<close>

definition sshbuf_mutable_ptr :: "sshbuf \<Rightarrow> nat option" where
  "sshbuf_mutable_ptr b =
     (if sshbuf_check_sanity b \<noteq> Inr () \<or> buf_readonly b \<or> buf_refcount b > 1 then None
      else Some (buf_off b))"

definition sshbuf_check_reserve :: "sshbuf \<Rightarrow> nat \<Rightarrow> ssh_err + unit" where
  "sshbuf_check_reserve b len =
     (case sshbuf_check_sanity b of Inl e \<Rightarrow> Inl e
      | Inr _ \<Rightarrow>
        if buf_readonly b \<or> buf_refcount b > 1 then Inl SSH_ERR_BUFFER_READ_ONLY
        else if len > buf_max_size b \<or> buf_max_size b - len < buf_size b - buf_off b
        then Inl SSH_ERR_NO_BUFFER_SPACE
        else Inr ())"

text \<open>
  The second half of \<^verbatim>\<open>sshbuf_allocate\<close>: the length to reallocate to, preferably a
  multiple of \<^const>\<open>SSHBUF_SIZE_INC\<close>, and the reallocation.
\<close>

definition sshbuf_rlen :: "sshbuf \<Rightarrow> nat \<Rightarrow> nat" where
  "sshbuf_rlen b len =
     (let need = size_sub (size_add len (buf_size b)) (buf_alloc b);
          rlen = ROUNDUP (size_add (buf_alloc b) need) SSHBUF_SIZE_INC
      in if rlen > buf_max_size b then size_add (buf_alloc b) need else rlen)"

definition sshbuf_grow :: "nat option \<Rightarrow> sshbuf \<Rightarrow> nat \<Rightarrow> (sshbuf, unit) outcome" where
  "sshbuf_grow ra b len =
     (let rlen = sshbuf_rlen b len in
      case recallocarray ra (buf_mem b) rlen of
        None \<Rightarrow> (Inl SSH_ERR_ALLOC_FAIL, b)
      | Some (p, m) \<Rightarrow>
        let b1 = b\<lparr>buf_alloc := rlen, buf_d := Some p, buf_cd := Some p, buf_mem := m\<rparr>
        in (sshbuf_check_reserve b1 len, b1))"

definition sshbuf_allocate :: "nat option \<Rightarrow> sshbuf \<Rightarrow> nat \<Rightarrow> (sshbuf, unit) outcome" where
  "sshbuf_allocate ra b len =
     (case sshbuf_check_reserve b len of Inl e \<Rightarrow> (Inl e, b)
      | Inr _ \<Rightarrow>
        let b1 = sshbuf_maybe_pack b (size_add (buf_size b) len > buf_max_size b) in
        if size_add len (buf_size b1) \<le> buf_alloc b1 then (Inr (), b1)
        else sshbuf_grow ra b1 len)"

text \<open>The pointer \<^verbatim>\<open>*dpp\<close> of \<^verbatim>\<open>sshbuf_reserve\<close> is an index into the allocation.\<close>

definition sshbuf_reserve :: "nat option \<Rightarrow> sshbuf \<Rightarrow> nat \<Rightarrow> (sshbuf, nat) outcome" where
  "sshbuf_reserve ra b len =
     (case sshbuf_allocate ra b len of
        (Inl e, b1) \<Rightarrow> (Inl e, b1)
      | (Inr _, b1) \<Rightarrow> (Inr (buf_size b1), b1\<lparr>buf_size := size_add (buf_size b1) len\<rparr>))"

definition sshbuf_consume :: "sshbuf \<Rightarrow> nat \<Rightarrow> (sshbuf, unit) outcome" where
  "sshbuf_consume b len =
     (case sshbuf_check_sanity b of Inl e \<Rightarrow> (Inl e, b)
      | Inr _ \<Rightarrow>
        if len = 0 then (Inr (), b)
        else if len > sshbuf_len b then (Inl SSH_ERR_MESSAGE_INCOMPLETE, b)
        else
          let b1 = b\<lparr>buf_off := size_add (buf_off b) len\<rparr> in
          if buf_off b1 = buf_size b1 then (Inr (), b1\<lparr>buf_off := 0, buf_size := 0\<rparr>)
          else (Inr (), b1))"

definition sshbuf_consume_end :: "sshbuf \<Rightarrow> nat \<Rightarrow> (sshbuf, unit) outcome" where
  "sshbuf_consume_end b len =
     (case sshbuf_check_sanity b of Inl e \<Rightarrow> (Inl e, b)
      | Inr _ \<Rightarrow>
        if len = 0 then (Inr (), b)
        else if len > sshbuf_len b then (Inl SSH_ERR_MESSAGE_INCOMPLETE, b)
        else (Inr (), b\<lparr>buf_size := buf_size b - len\<rparr>))"

section \<open>Abstraction and invariant\<close>

definition buf_data :: "sshbuf \<Rightarrow> byte list" where
  "buf_data b = take (buf_size b - buf_off b) (drop (buf_off b) (buf_mem b))"

definition sshbuf_wf :: "sshbuf \<Rightarrow> bool" where
  "sshbuf_wf b \<longleftrightarrow> sshbuf_check_sanity b = Inr () \<and> length (buf_mem b) = buf_alloc b"

definition sshbuf_writable :: "sshbuf \<Rightarrow> bool" where
  "sshbuf_writable b \<longleftrightarrow> \<not> buf_readonly b \<and> buf_refcount b = 1"

text \<open>Two buffers that agree on what no data operation may change.\<close>

definition same_frame :: "sshbuf \<Rightarrow> sshbuf \<Rightarrow> bool" where
  "same_frame b b' \<longleftrightarrow> buf_self b' = buf_self b \<and> buf_max_size b' = buf_max_size b \<and>
     buf_readonly b' = buf_readonly b \<and> buf_refcount b' = buf_refcount b \<and>
     buf_parent b' = buf_parent b"

lemma size_max_large: "4 * SSHBUF_SIZE_MAX \<le> SIZE_MAX"
  by (simp add: sshbuf_consts SIZE_MAX_def)

lemma same_frame_refl [simp]: "same_frame b b"
  by (simp add: same_frame_def)

lemma same_frame_trans: "same_frame a b \<Longrightarrow> same_frame b c \<Longrightarrow> same_frame a c"
  by (simp add: same_frame_def)

lemma same_frame_writable: "same_frame b b' \<Longrightarrow> sshbuf_writable b' \<longleftrightarrow> sshbuf_writable b"
  by (simp add: same_frame_def sshbuf_writable_def)

lemma wf_sane [simp]: "sshbuf_wf b \<Longrightarrow> sshbuf_check_sanity b = Inr ()"
  by (simp add: sshbuf_wf_def)

lemma wf_bounds:
  assumes "sshbuf_wf b"
  shows "buf_off b \<le> buf_size b" "buf_size b \<le> buf_alloc b" "buf_alloc b \<le> buf_max_size b"
    "buf_max_size b \<le> SSHBUF_SIZE_MAX" "length (buf_mem b) = buf_alloc b"
    "1 \<le> buf_refcount b"
  using assms by (auto simp: sshbuf_wf_def sshbuf_check_sanity_def split: if_splits)

lemma wf_not_writable:
  "sshbuf_wf b \<Longrightarrow> buf_readonly b \<or> buf_refcount b > 1 \<longleftrightarrow> \<not> sshbuf_writable b"
  using wf_bounds(6)[of b] by (auto simp: sshbuf_writable_def)

lemma length_buf_data: "sshbuf_wf b \<Longrightarrow> length (buf_data b) = buf_size b - buf_off b"
  using wf_bounds [of b] by (simp add: buf_data_def)

lemma length_buf_data_le:
  "sshbuf_wf b \<Longrightarrow> length (buf_data b) \<le> buf_max_size b"
  using wf_bounds [of b] by (simp add: length_buf_data)

text \<open>Rebuilding the invariant of a buffer whose frame is unchanged.\<close>

lemma wfI:
  assumes "sshbuf_wf b" "same_frame b b'" "buf_off b' \<le> buf_size b'" "buf_size b' \<le> buf_alloc b'"
    "buf_alloc b' \<le> buf_max_size b'" "length (buf_mem b') = buf_alloc b'"
    "buf_cd b' \<noteq> None" "\<not> buf_readonly b' \<longrightarrow> buf_d b' = buf_cd b'"
  shows "sshbuf_wf b'"
  using assms
  by (auto simp: sshbuf_wf_def sshbuf_check_sanity_def same_frame_def split: if_splits)

lemma wf_pointers:
  assumes "sshbuf_wf b"
  shows "buf_cd b \<noteq> None" "\<not> buf_readonly b \<longrightarrow> buf_d b = buf_cd b"
  using assms by (auto simp: sshbuf_wf_def sshbuf_check_sanity_def split: if_splits)

section \<open>Creation\<close>

lemma sshbuf_new_Some:
  "sshbuf_new sp dp = Some b \<Longrightarrow> sshbuf_wf b \<and> sshbuf_writable b \<and> buf_data b = [] \<and>
     buf_max_size b = SSHBUF_SIZE_MAX"
  by (auto simp: sshbuf_new_def sshbuf_wf_def sshbuf_check_sanity_def sshbuf_writable_def
      buf_data_def sshbuf_consts split: option.splits)

lemma sshbuf_from_Some:
  "sshbuf_from sp (Some (p, bytes)) len = Some b \<Longrightarrow> len \<le> length bytes \<Longrightarrow>
     sshbuf_wf b \<and> \<not> sshbuf_writable b \<and> buf_data b = take len bytes"
  by (auto simp: sshbuf_from_def sshbuf_wf_def sshbuf_check_sanity_def sshbuf_writable_def
      buf_data_def sshbuf_consts split: option.splits if_splits)

section \<open>Packing and allocation\<close>

lemma maybe_pack_frame: "same_frame b (sshbuf_maybe_pack b f)"
  by (simp add: sshbuf_maybe_pack_def same_frame_def)

lemma maybe_pack_alloc [simp]: "buf_alloc (sshbuf_maybe_pack b f) = buf_alloc b"
  by (simp add: sshbuf_maybe_pack_def)

lemma maybe_pack_data [simp]:
  "sshbuf_wf b \<Longrightarrow> buf_data (sshbuf_maybe_pack b f) = buf_data b"
  using wf_bounds [of b]
  by (auto simp: sshbuf_maybe_pack_def buf_data_def overwrite_def min_def)

lemma maybe_pack_wf: "sshbuf_wf b \<Longrightarrow> sshbuf_wf (sshbuf_maybe_pack b f)"
  using wf_bounds [of b] wf_pointers [of b]
  by (rule_tac wfI [OF _ maybe_pack_frame]) (auto simp: sshbuf_maybe_pack_def)

lemma maybe_pack_size_le: "buf_size (sshbuf_maybe_pack b f) \<le> buf_size b"
  by (simp add: sshbuf_maybe_pack_def)

lemma maybe_pack_forced:
  "sshbuf_writable b \<Longrightarrow> buf_size (sshbuf_maybe_pack b True) = buf_size b - buf_off b"
  by (simp add: sshbuf_maybe_pack_def sshbuf_writable_def)

lemma maybe_pack_fits:
  assumes "sshbuf_wf b" and "sshbuf_writable b" and "length (buf_data b) + len \<le> mx"
  shows "buf_size (sshbuf_maybe_pack b (buf_size b + len > mx)) + len \<le> mx"
proof (cases "buf_size b + len > mx")
  case True
  with assms show ?thesis
    by (simp add: maybe_pack_forced length_buf_data)
next
  case False
  with maybe_pack_size_le [of b False] show ?thesis by simp
qed

lemma check_reserve_wf:
  assumes "sshbuf_wf b"
  shows "sshbuf_check_reserve b len =
     (if \<not> sshbuf_writable b then Inl SSH_ERR_BUFFER_READ_ONLY
      else if length (buf_data b) + len > buf_max_size b then Inl SSH_ERR_NO_BUFFER_SPACE
      else Inr ())"
  using assms wf_not_writable [OF assms] wf_bounds [OF assms]
  by (auto simp: sshbuf_check_reserve_def length_buf_data)


text \<open>Moving a writable buffer to an allocation that still holds its used part.\<close>

lemma realloc_wf:
  assumes "sshbuf_wf b" and "sshbuf_writable b" and "buf_size b \<le> n" and "n \<le> buf_max_size b"
    and "recallocarray ra (buf_mem b) n = Some (p, m)"
  defines "b' \<equiv> b\<lparr>buf_alloc := n, buf_d := Some p, buf_cd := Some p, buf_mem := m\<rparr>"
  shows "sshbuf_wf b' \<and> buf_data b' = buf_data b \<and> same_frame b b'"
proof (intro conjI)
  have m: "m = take n (buf_mem b) @ replicate (n - length (buf_mem b)) 0"
    using assms(5) by (auto simp: recallocarray_def)
  show frame: "same_frame b b'"
    by (simp add: b'_def same_frame_def)
  show "sshbuf_wf b'"
    using wf_bounds [OF assms(1)] assms(3,4) by (intro wfI [OF assms(1) frame]) (auto simp: b'_def m)
  show "buf_data b' = buf_data b"
    using wf_bounds [OF assms(1)] assms(3) by (auto simp: b'_def m buf_data_def drop_take min_def)
qed

text \<open>The size that \<^verbatim>\<open>sshbuf_allocate\<close> asks for is enough and within the maximum.\<close>

lemma rlen_bounds:
  assumes "buf_alloc b < len + buf_size b" "len + buf_size b \<le> buf_max_size b"
    "buf_max_size b \<le> SSHBUF_SIZE_MAX"
  shows "len + buf_size b \<le> sshbuf_rlen b len" "sshbuf_rlen b len \<le> buf_max_size b"
proof -
  have bound: "len + buf_size b + SSHBUF_SIZE_INC \<le> SIZE_MAX"
    using assms(2,3) by (simp add: sshbuf_consts SIZE_MAX_def)
  then have total: "size_add (buf_alloc b) (size_sub (size_add len (buf_size b)) (buf_alloc b))
      = len + buf_size b"
    using assms(1) by (simp add: size_arith)
  moreover have "len + buf_size b \<le> ROUNDUP (len + buf_size b) SSHBUF_SIZE_INC"
    by (rule ROUNDUP_ge) (use bound in \<open>auto simp: sshbuf_consts\<close>)
  ultimately show "len + buf_size b \<le> sshbuf_rlen b len" "sshbuf_rlen b len \<le> buf_max_size b"
    using assms(2) by (auto simp: sshbuf_rlen_def Let_def)
qed

lemma grow_ok:
  assumes wf: "sshbuf_wf b" and wr: "sshbuf_writable b"
    and fits: "len + buf_size b \<le> buf_max_size b" and short: "buf_alloc b < len + buf_size b"
    and res: "sshbuf_grow ra b len = (r, b')"
  shows "sshbuf_wf b' \<and> buf_data b' = buf_data b \<and> same_frame b b' \<and>
    (r = Inr () \<and> buf_size b' + len \<le> buf_alloc b' \<or> r = Inl SSH_ERR_ALLOC_FAIL \<and> ra = None)"
proof (cases "recallocarray ra (buf_mem b) (sshbuf_rlen b len)")
  case None
  then show ?thesis
    using res wf by (auto simp: sshbuf_grow_def recallocarray_def)
next
  case (Some pm)
  obtain p m where pm: "pm = (p, m)" by (cases pm)
  let ?b1 = "b\<lparr>buf_alloc := sshbuf_rlen b len, buf_d := Some p, buf_cd := Some p, buf_mem := m\<rparr>"
  note rlen = rlen_bounds [OF short fits wf_bounds(4) [OF wf]]
  have b1: "sshbuf_wf ?b1 \<and> buf_data ?b1 = buf_data b \<and> same_frame b ?b1"
    using rlen Some pm by (intro realloc_wf [OF wf wr]) auto
  have "length (buf_data b) + len \<le> buf_max_size b"
    using fits by (simp add: length_buf_data [OF wf])
  then have "sshbuf_check_reserve ?b1 len = Inr ()"
    using b1 wr same_frame_writable [of b ?b1] check_reserve_wf [of ?b1 len]
    by (simp add: same_frame_def)
  then show ?thesis
    using res Some pm b1 rlen by (auto simp: sshbuf_grow_def Let_def)
qed

text \<open>
  \<^verbatim>\<open>sshbuf_allocate\<close> on a well-formed buffer: whatever it returns, the contents are kept;
  success leaves room for the bytes asked for.
\<close>

lemma allocate_ok:
  assumes wf: "sshbuf_wf b" and ok: "sshbuf_check_reserve b len = Inr ()"
    and res: "sshbuf_allocate ra b len = (r, b')"
  shows "sshbuf_wf b' \<and> buf_data b' = buf_data b \<and> same_frame b b' \<and>
    (r = Inr () \<and> buf_size b' + len \<le> buf_alloc b' \<or> r = Inl SSH_ERR_ALLOC_FAIL \<and> ra = None)"
proof -
  have wr: "sshbuf_writable b" and fits: "length (buf_data b) + len \<le> buf_max_size b"
    using ok by (auto simp: check_reserve_wf [OF wf] split: if_splits)
  have bounds: "buf_size b + len \<le> SIZE_MAX" "buf_max_size b \<le> SIZE_MAX"
    using wf_bounds [OF wf] fits size_max_large by linarith+
  define b1 where "b1 = sshbuf_maybe_pack b (buf_size b + len > buf_max_size b)"
  have wf1: "sshbuf_wf b1" and frame1: "same_frame b b1" and data1: "buf_data b1 = buf_data b"
    using wf by (simp_all add: b1_def maybe_pack_wf maybe_pack_frame)
  have mx1: "buf_max_size b1 = buf_max_size b" and wr1: "sshbuf_writable b1"
    using frame1 wr same_frame_writable [OF frame1] by (simp_all add: same_frame_def)
  have fit1: "buf_size b1 + len \<le> buf_max_size b"
    unfolding b1_def by (rule maybe_pack_fits [OF wf wr fits])
  have "sshbuf_allocate ra b len =
      (if size_add len (buf_size b1) \<le> buf_alloc b1 then (Inr (), b1) else sshbuf_grow ra b1 len)"
    using ok by (simp add: sshbuf_allocate_def b1_def size_add_exact [OF bounds(1)])
  also have "size_add len (buf_size b1) = len + buf_size b1"
    using fit1 bounds by (intro size_add_exact) simp
  finally have alloc: "(r, b') =
      (if len + buf_size b1 \<le> buf_alloc b1 then (Inr (), b1) else sshbuf_grow ra b1 len)"
    using res by simp
  show ?thesis
  proof (cases "len + buf_size b1 \<le> buf_alloc b1")
    case True
    with alloc wf1 frame1 data1 show ?thesis by simp
  next
    case False
    then have "sshbuf_grow ra b1 len = (r, b')" using alloc by simp
    from grow_ok [OF wf1 wr1 _ _ this] False fit1 mx1 show ?thesis
      using data1 same_frame_trans [OF frame1] by simp
  qed
qed

lemma allocate_spec:
  assumes wf: "sshbuf_wf b" and res: "sshbuf_allocate ra b len = (r, b')"
  shows "sshbuf_wf b' \<and> buf_data b' = buf_data b \<and> same_frame b b' \<and>
    r = (if \<not> sshbuf_writable b then Inl SSH_ERR_BUFFER_READ_ONLY
         else if length (buf_data b) + len > buf_max_size b then Inl SSH_ERR_NO_BUFFER_SPACE
         else if r = Inl SSH_ERR_ALLOC_FAIL \<and> ra = None then Inl SSH_ERR_ALLOC_FAIL
         else Inr ()) \<and>
    (r = Inr () \<longrightarrow> buf_size b' + len \<le> buf_alloc b')"
  using allocate_ok [OF wf _ res] wf res
  by (auto simp: sshbuf_allocate_def check_reserve_wf split: if_splits)

lemma allocate_error:
  "sshbuf_check_reserve b len = Inl e \<Longrightarrow> sshbuf_allocate ra b len = (Inl e, b)"
  by (simp add: sshbuf_allocate_def)


section \<open>Reserving, writing and consuming\<close>

text \<open>\<^verbatim>\<open>memcpy\<close> into the allocation, at an index obtained from a writable pointer.\<close>

definition buf_write :: "nat \<Rightarrow> byte list \<Rightarrow> sshbuf \<Rightarrow> sshbuf" where
  "buf_write i v b = b\<lparr>buf_mem := overwrite i v (buf_mem b)\<rparr>"

lemma reserve_spec:
  assumes wf: "sshbuf_wf b" and res: "sshbuf_reserve ra b len = (r, b')"
  shows "case r of
      Inl e \<Rightarrow> sshbuf_wf b' \<and> buf_data b' = buf_data b \<and> same_frame b b' \<and>
        e = (if \<not> sshbuf_writable b then SSH_ERR_BUFFER_READ_ONLY
             else if length (buf_data b) + len > buf_max_size b then SSH_ERR_NO_BUFFER_SPACE
             else SSH_ERR_ALLOC_FAIL) \<and>
        (ra \<noteq> None \<longrightarrow> \<not> (sshbuf_writable b \<and> length (buf_data b) + len \<le> buf_max_size b))
    | Inr i \<Rightarrow> sshbuf_writable b \<and> length (buf_data b) + len \<le> buf_max_size b \<and>
        (\<forall>v. length v = len \<longrightarrow> sshbuf_wf (buf_write i v b') \<and>
           buf_data (buf_write i v b') = buf_data b @ v \<and> same_frame b (buf_write i v b'))"
proof -
  obtain r1 b1 where alloc: "sshbuf_allocate ra b len = (r1, b1)" by fastforce
  note spec = allocate_spec [OF wf alloc]
  show ?thesis
  proof (cases r1)
    case (Inl e)
    then show ?thesis
      using res alloc spec by (auto simp: sshbuf_reserve_def split: if_splits)
  next
    case (Inr u)
    have wf1: "sshbuf_wf b1" and data1: "buf_data b1 = buf_data b" and frame1: "same_frame b b1"
      and room: "buf_size b1 + len \<le> buf_alloc b1"
      using spec Inr by auto
    have nowrap: "size_add (buf_size b1) len = buf_size b1 + len"
      using room wf_bounds [OF wf1] size_max_large by (intro size_add_exact) linarith
    have "sshbuf_wf (buf_write (buf_size b1) v b') \<and>
        buf_data (buf_write (buf_size b1) v b') = buf_data b @ v \<and>
        same_frame b (buf_write (buf_size b1) v b')" if v: "length v = len" for v
    proof (intro conjI)
      have b': "b' = b1\<lparr>buf_size := buf_size b1 + len\<rparr>"
        using res alloc Inr nowrap by (simp add: sshbuf_reserve_def)
      show frame': "same_frame b (buf_write (buf_size b1) v b')"
        using frame1 by (simp add: b' buf_write_def same_frame_def)
      show "sshbuf_wf (buf_write (buf_size b1) v b')"
        using wf_bounds [OF wf1] wf_pointers [OF wf1] room v
        by (intro wfI [OF wf frame']) (auto simp: b' buf_write_def)
      show "buf_data (buf_write (buf_size b1) v b') = buf_data b @ v"
        using slice_extend [of "buf_off b1" "buf_size b1" v "buf_mem b1"]
          wf_bounds [OF wf1] room v data1
        by (simp add: b' buf_write_def buf_data_def)
    qed
    then show ?thesis
      using res alloc Inr spec by (auto simp: sshbuf_reserve_def split: if_splits)
  qed
qed

lemma sshbuf_len_wf [simp]: "sshbuf_wf b \<Longrightarrow> sshbuf_len b = length (buf_data b)"
  by (simp add: sshbuf_len_def length_buf_data)

lemma sshbuf_ptr_wf:
  assumes "sshbuf_wf b"
  obtains p where "sshbuf_ptr b = Some (p, drop (buf_off b) (buf_mem b))"
  using assms wf_pointers [OF assms] by (auto simp: sshbuf_ptr_def)

text \<open>Reading at the data pointer, within the length, reads the contents.\<close>

lemma ptr_take:
  "n \<le> length (buf_data b) \<Longrightarrow> take n (drop (buf_off b) (buf_mem b)) = take n (buf_data b)"
  by (auto simp: buf_data_def min_def split: if_splits)

lemma ptr_nth:
  "n < length (buf_data b) \<Longrightarrow> drop (buf_off b) (buf_mem b) ! n = buf_data b ! n"
  by (simp add: buf_data_def)

lemma consume_spec:
  assumes wf: "sshbuf_wf b" and res: "sshbuf_consume b len = (r, b')"
  shows "sshbuf_wf b' \<and> same_frame b b' \<and>
    (if len \<le> length (buf_data b) then r = Inr () \<and> buf_data b' = drop len (buf_data b)
     else r = Inl SSH_ERR_MESSAGE_INCOMPLETE \<and> b' = b)"
proof (cases "len = 0 \<or> len > length (buf_data b)")
  case True
  then show ?thesis
    using wf res by (auto simp: sshbuf_consume_def)
next
  case False
  let ?b1 = "b\<lparr>buf_off := buf_off b + len\<rparr>"
  have le: "buf_off b + len \<le> buf_size b"
    using False wf_bounds [OF wf] by (auto simp: length_buf_data [OF wf])
  then have "size_add (buf_off b) len = buf_off b + len"
    using wf_bounds [OF wf] size_max_large by (intro size_add_exact) linarith
  then have b': "r = Inr () \<and> b' = (if buf_off b + len = buf_size b
      then b\<lparr>buf_off := 0, buf_size := 0\<rparr> else ?b1)"
    using False wf res by (auto simp: sshbuf_consume_def split: if_splits)
  then have frame: "same_frame b b'"
    by (auto simp: same_frame_def)
  have "sshbuf_wf b'"
    using wf_bounds [OF wf] wf_pointers [OF wf] b' le by (intro wfI [OF wf frame]) auto
  moreover have "buf_data b' = drop len (buf_data b)"
    using b' le by (auto simp: buf_data_def drop_take add.commute)
  ultimately show ?thesis
    using b' frame False by simp
qed

lemma consume_end_spec:
  assumes wf: "sshbuf_wf b" and res: "sshbuf_consume_end b len = (r, b')"
  shows "sshbuf_wf b' \<and> same_frame b b' \<and>
    (if len \<le> length (buf_data b)
     then r = Inr () \<and> buf_data b' = take (length (buf_data b) - len) (buf_data b)
     else r = Inl SSH_ERR_MESSAGE_INCOMPLETE \<and> b' = b)"
proof (cases "len = 0 \<or> len > length (buf_data b)")
  case True
  then show ?thesis
    using wf res by (auto simp: sshbuf_consume_end_def)
next
  case False
  have b': "r = Inr () \<and> b' = b\<lparr>buf_size := buf_size b - len\<rparr>"
    using False wf res by (auto simp: sshbuf_consume_end_def)
  then have frame: "same_frame b b'"
    by (simp add: same_frame_def)
  have le: "buf_off b + len \<le> buf_size b"
    using False wf_bounds [OF wf] by (auto simp: length_buf_data [OF wf])
  have "sshbuf_wf b'"
    using wf_bounds [OF wf] wf_pointers [OF wf] b' le by (intro wfI [OF wf frame]) auto
  moreover have "buf_data b' = take (length (buf_data b) - len) (buf_data b)"
    using b' by (simp add: length_buf_data [OF wf]) (simp add: buf_data_def min_def add.commute)
  ultimately show ?thesis
    using b' frame False by simp
qed


section \<open>Resetting and the maximum size\<close>

text \<open>
  \<^verbatim>\<open>sshbuf_reset\<close> empties the buffer.  A writable buffer goes back to an allocation of
  \<^const>\<open>SSHBUF_SIZE_INIT\<close> bytes, so the buffer stays sane only when its maximum size allows
  that (or when the reallocation fails).
\<close>

lemma reset_data:
  assumes "sshbuf_wf b"
  shows "buf_data (sshbuf_reset ra b) = []"
  using assms by (auto simp: sshbuf_reset_def buf_data_def Let_def split: option.splits)

lemma reset_frame: "same_frame b (sshbuf_reset ra b)"
  by (auto simp: sshbuf_reset_def same_frame_def Let_def split: option.splits sum.splits)

lemma reset_wf:
  assumes wf: "sshbuf_wf b"
    and ok: "\<not> (sshbuf_writable b \<and> ra \<noteq> None \<and> buf_max_size b < SSHBUF_SIZE_INIT)"
  shows "sshbuf_wf (sshbuf_reset ra b)"
  using wf_bounds [OF wf] wf_pointers [OF wf] wf ok wf_not_writable [OF wf]
  by (intro wfI [OF wf reset_frame])
    (auto simp: sshbuf_reset_def Let_def recallocarray_def split: option.splits)

lemma reset_insane:
  assumes wf: "sshbuf_wf b" and wr: "sshbuf_writable b"
    and mx: "buf_max_size b < SSHBUF_SIZE_INIT" and ra: "ra \<noteq> None"
  shows "sshbuf_check_sanity (sshbuf_reset ra b) = Inl SSH_ERR_INTERNAL_ERROR"
  using wf_bounds [OF wf] wf mx ra wr
  by (auto simp: sshbuf_reset_def Let_def recallocarray_def sshbuf_check_sanity_def
      sshbuf_writable_def split: option.splits)

lemma shrink_spec:
  assumes wf: "sshbuf_wf b" and wr: "sshbuf_writable b" and res: "sshbuf_shrink ra b mx = Inr b'"
  shows "sshbuf_wf b' \<and> buf_data b' = buf_data b \<and> same_frame b b'"
proof (cases "mx < buf_alloc b \<and> mx > buf_size b")
  case True
  define n where "n = (let rlen0 = (if buf_size b < SSHBUF_SIZE_INIT then SSHBUF_SIZE_INIT
      else ROUNDUP (buf_size b) SSHBUF_SIZE_INC) in if rlen0 > mx then mx else rlen0)"
  have "buf_size b \<le> n \<and> n \<le> mx"
  proof (cases "buf_size b < SSHBUF_SIZE_INIT")
    case False
    have "buf_size b \<le> ROUNDUP (buf_size b) SSHBUF_SIZE_INC"
      using wf_bounds [OF wf] size_max_large
      by (intro ROUNDUP_ge) (simp_all add: sshbuf_consts)
    with True False show ?thesis by (auto simp: n_def Let_def)
  qed (use True in \<open>auto simp: n_def Let_def\<close>)
  moreover obtain p m where "recallocarray ra (buf_mem b) n = Some (p, m)"
    "b' = b\<lparr>buf_alloc := n, buf_d := Some p, buf_cd := Some p, buf_mem := m\<rparr>"
    using res True by (auto simp: sshbuf_shrink_def n_def Let_def split: option.splits prod.splits)
  ultimately show ?thesis
    using realloc_wf [OF wf wr, of n ra p m] wf_bounds [OF wf] True by simp
qed (use wf res in \<open>auto simp: sshbuf_shrink_def\<close>)

lemma set_max_size_spec:
  assumes wf: "sshbuf_wf b" and res: "sshbuf_set_max_size ra b mx = (r, b')"
  shows "sshbuf_wf b' \<and> buf_data b' = buf_data b \<and>
    buf_max_size b' = (if r = Inr () then mx else buf_max_size b)"
proof (cases "mx = buf_max_size b \<or> \<not> sshbuf_writable b \<or> mx > SSHBUF_SIZE_MAX")
  case True
  then show ?thesis
    using wf res wf_not_writable [OF wf]
    by (auto simp: sshbuf_set_max_size_def split: if_splits)
next
  case False
  define b1 where "b1 = sshbuf_maybe_pack b (mx < buf_size b)"
  have wf1: "sshbuf_wf b1" and frame1: "same_frame b b1" and data1: "buf_data b1 = buf_data b"
    using wf by (simp_all add: b1_def maybe_pack_wf maybe_pack_frame)
  have wr1: "sshbuf_writable b1"
    using same_frame_writable [OF frame1] False by simp
  have eq: "(r, b') = (case sshbuf_shrink ra b1 mx of Inl e \<Rightarrow> (Inl e, b1)
      | Inr b2 \<Rightarrow> if mx < buf_alloc b2 then (Inl SSH_ERR_NO_BUFFER_SPACE, b2)
                  else (Inr (), b2\<lparr>buf_max_size := mx\<rparr>))"
    using res wf False wf_not_writable [OF wf] by (simp add: sshbuf_set_max_size_def Let_def flip: b1_def)
  show ?thesis
  proof (cases "sshbuf_shrink ra b1 mx")
    case (Inl e)
    then show ?thesis using eq wf1 frame1 data1 by (simp add: same_frame_def)
  next
    case (Inr b2)
    note b2 = shrink_spec [OF wf1 wr1 Inr]
    have "sshbuf_wf (b2\<lparr>buf_max_size := mx\<rparr>)" if "\<not> mx < buf_alloc b2"
      using b2 that False
      by (auto simp: sshbuf_wf_def sshbuf_check_sanity_def split: if_splits)
    then show ?thesis
      using eq Inr b2 frame1 data1
      by (auto simp: same_frame_def buf_data_def split: if_splits)
  qed
qed

section \<open>Properties\<close>

text \<open>A small buffer on which the properties are exercised.\<close>

definition small_buf :: sshbuf where
  "small_buf = \<lparr>buf_self = 1, buf_d = Some 2, buf_cd = Some 2, buf_mem = [0, 0, 0, 0, 0, 0, 0, 0],
     buf_off = 0, buf_size = 0, buf_max_size = 16, buf_alloc = 8, buf_readonly = False,
     buf_refcount = 1, buf_parent = None\<rparr>"

lemma small_buf_wf: "sshbuf_wf small_buf" "sshbuf_writable small_buf" "buf_data small_buf = []"
  by (simp_all add: small_buf_def sshbuf_wf_def sshbuf_check_sanity_def sshbuf_consts
      sshbuf_writable_def buf_data_def)

text \<open>
  (C28) Resetting a well-formed buffer empties it, and the buffer passes the sanity check
  afterwards unless it is writable, its maximum size has been lowered below
  \<^const>\<open>SSHBUF_SIZE_INIT\<close> and the reallocation succeeds: then the allocation exceeds the
  maximum size and the next operation on the buffer raises \<^verbatim>\<open>SIGSEGV\<close>.
\<close>

theorem sshbuf_reset_sane:
  assumes "sshbuf_wf b"
  shows "buf_data (sshbuf_reset ra b) = [] \<and>
    (sshbuf_check_sanity (sshbuf_reset ra b) = Inr () \<longleftrightarrow>
      \<not> (sshbuf_writable b \<and> ra \<noteq> None \<and> buf_max_size b < SSHBUF_SIZE_INIT))"
proof (cases "sshbuf_writable b \<and> ra \<noteq> None \<and> buf_max_size b < SSHBUF_SIZE_INIT")
  case True
  then show ?thesis using reset_insane [OF assms, of ra] reset_data [OF assms] by simp
next
  case False
  then show ?thesis using reset_wf [OF assms, of ra] reset_data [OF assms] by auto
qed

theorem sshbuf_reset_sane_witness:
  "sshbuf_check_sanity small_buf = Inr () \<and>
   sshbuf_check_sanity (sshbuf_reset (Some 9) small_buf) \<noteq> Inr ()"
  using sshbuf_reset_sane [OF small_buf_wf(1), of "Some 9"] small_buf_wf
  by (simp add: SSHBUF_SIZE_INIT_def) (simp add: small_buf_def)

text \<open>
  Changing the maximum size of a well-formed buffer never loses data and never leaves the
  buffer holding more than its maximum: on success the new maximum is in force, on failure
  the old one is.
\<close>

lemma sshbuf_set_max_size_keeps:
  assumes "sshbuf_wf b" and "sshbuf_set_max_size ra b mx = (r, b')"
  shows "sshbuf_wf b' \<and> buf_data b' = buf_data b \<and>
    buf_max_size b' = (if r = Inr () then mx else buf_max_size b) \<and>
    length (buf_data b) \<le> buf_max_size b'"
  using set_max_size_spec [OF assms] length_buf_data_le [of b'] by auto

end
