(* ===== verification/Sshbuf_GetPut.thy ===== *)
theory Sshbuf_GetPut
  imports Sshbuf
begin

text \<open>
  The typed accessors of \<^verbatim>\<open>sshbuf-getput-basic.c\<close>: big-endian integers, strings with a
  32-bit length, C strings, multiple-precision integers and nul-terminated strings, read
  from the front of a buffer, appended at its end, or read and written in place.

  An out-parameter of the source (\<^verbatim>\<open>valp\<close>, \<^verbatim>\<open>lenp\<close>) that may be null is a component of the
  result; a caller that passes null ignores it.  The \<^verbatim>\<open>malloc\<close> of the functions that return
  a copy is an argument (\<open>False\<close> is a failed allocation).
\<close>

section \<open>Byte order\<close>

definition PEEK_U64 :: "byte list \<Rightarrow> 64 word" where
  "PEEK_U64 p = push_bit 56 (ucast (p ! 0)) OR push_bit 48 (ucast (p ! 1)) OR
     push_bit 40 (ucast (p ! 2)) OR push_bit 32 (ucast (p ! 3)) OR
     push_bit 24 (ucast (p ! 4)) OR push_bit 16 (ucast (p ! 5)) OR
     push_bit 8 (ucast (p ! 6)) OR ucast (p ! 7)"

definition PEEK_U32 :: "byte list \<Rightarrow> 32 word" where
  "PEEK_U32 p = push_bit 24 (ucast (p ! 0)) OR push_bit 16 (ucast (p ! 1)) OR
     push_bit 8 (ucast (p ! 2)) OR ucast (p ! 3)"

definition PEEK_U16 :: "byte list \<Rightarrow> 16 word" where
  "PEEK_U16 p = push_bit 8 (ucast (p ! 0)) OR ucast (p ! 1)"

definition POKE_U64 :: "64 word \<Rightarrow> byte list" where
  "POKE_U64 v = [ucast (drop_bit 56 v AND 0xff), ucast (drop_bit 48 v AND 0xff),
     ucast (drop_bit 40 v AND 0xff), ucast (drop_bit 32 v AND 0xff),
     ucast (drop_bit 24 v AND 0xff), ucast (drop_bit 16 v AND 0xff),
     ucast (drop_bit 8 v AND 0xff), ucast (v AND 0xff)]"

definition POKE_U32 :: "32 word \<Rightarrow> byte list" where
  "POKE_U32 v = [ucast (drop_bit 24 v AND 0xff), ucast (drop_bit 16 v AND 0xff),
     ucast (drop_bit 8 v AND 0xff), ucast (v AND 0xff)]"

definition POKE_U16 :: "16 word \<Rightarrow> byte list" where
  "POKE_U16 v = [ucast (drop_bit 8 v AND 0xff), ucast (v AND 0xff)]"

section \<open>Reading from the front\<close>

definition sshbuf_get :: "sshbuf \<Rightarrow> nat \<Rightarrow> (sshbuf, byte list) outcome" where
  "sshbuf_get b len =
     (let p = sshbuf_ptr b in
      case sshbuf_consume b len of
        (Inl e, b1) \<Rightarrow> (Inl e, b1)
      | (Inr _, b1) \<Rightarrow>
        (case p of None \<Rightarrow> (Inl SSH_ERR_INTERNAL_ERROR, b1)
         | Some (_, bytes) \<Rightarrow> (Inr (take len bytes), b1)))"

definition sshbuf_get_u64 :: "sshbuf \<Rightarrow> (sshbuf, 64 word) outcome" where
  "sshbuf_get_u64 b =
     (let p = sshbuf_ptr b in
      case sshbuf_consume b 8 of
        (Inl e, b1) \<Rightarrow> (Inl e, b1)
      | (Inr _, b1) \<Rightarrow>
        (case p of None \<Rightarrow> (Inl SSH_ERR_INTERNAL_ERROR, b1)
         | Some (_, bytes) \<Rightarrow> (Inr (PEEK_U64 bytes), b1)))"

definition sshbuf_get_u32 :: "sshbuf \<Rightarrow> (sshbuf, 32 word) outcome" where
  "sshbuf_get_u32 b =
     (let p = sshbuf_ptr b in
      case sshbuf_consume b 4 of
        (Inl e, b1) \<Rightarrow> (Inl e, b1)
      | (Inr _, b1) \<Rightarrow>
        (case p of None \<Rightarrow> (Inl SSH_ERR_INTERNAL_ERROR, b1)
         | Some (_, bytes) \<Rightarrow> (Inr (PEEK_U32 bytes), b1)))"

definition sshbuf_get_u16 :: "sshbuf \<Rightarrow> (sshbuf, 16 word) outcome" where
  "sshbuf_get_u16 b =
     (let p = sshbuf_ptr b in
      case sshbuf_consume b 2 of
        (Inl e, b1) \<Rightarrow> (Inl e, b1)
      | (Inr _, b1) \<Rightarrow>
        (case p of None \<Rightarrow> (Inl SSH_ERR_INTERNAL_ERROR, b1)
         | Some (_, bytes) \<Rightarrow> (Inr (PEEK_U16 bytes), b1)))"

definition sshbuf_get_u8 :: "sshbuf \<Rightarrow> (sshbuf, byte) outcome" where
  "sshbuf_get_u8 b =
     (let p = sshbuf_ptr b in
      case sshbuf_consume b 1 of
        (Inl e, b1) \<Rightarrow> (Inl e, b1)
      | (Inr _, b1) \<Rightarrow>
        (case p of None \<Rightarrow> (Inl SSH_ERR_INTERNAL_ERROR, b1)
         | Some (_, bytes) \<Rightarrow> (Inr (bytes ! 0), b1)))"

section \<open>Reading in place\<close>

definition check_offset :: "sshbuf \<Rightarrow> bool \<Rightarrow> nat \<Rightarrow> nat \<Rightarrow> ssh_err + unit" where
  "check_offset b wr offset len =
     (if sshbuf_ptr b = None then Inl SSH_ERR_INTERNAL_ERROR
      else if offset \<ge> size_sub SIZE_MAX len then Inl SSH_ERR_INVALID_ARGUMENT
      else if size_add offset len > sshbuf_len b
      then Inl (if wr then SSH_ERR_NO_BUFFER_SPACE else SSH_ERR_MESSAGE_INCOMPLETE)
      else Inr ())"

definition check_roffset :: "sshbuf \<Rightarrow> nat \<Rightarrow> nat \<Rightarrow> ssh_err + byte list" where
  "check_roffset b offset len =
     (case check_offset b False offset len of Inl e \<Rightarrow> Inl e
      | Inr _ \<Rightarrow> (case sshbuf_ptr b of None \<Rightarrow> Inl SSH_ERR_INTERNAL_ERROR
        | Some (_, bytes) \<Rightarrow> Inr (drop offset bytes)))"

definition sshbuf_peek_u64 :: "sshbuf \<Rightarrow> nat \<Rightarrow> ssh_err + 64 word" where
  "sshbuf_peek_u64 b offset = map_sum id PEEK_U64 (check_roffset b offset 8)"

definition sshbuf_peek_u32 :: "sshbuf \<Rightarrow> nat \<Rightarrow> ssh_err + 32 word" where
  "sshbuf_peek_u32 b offset = map_sum id PEEK_U32 (check_roffset b offset 4)"

definition sshbuf_peek_u16 :: "sshbuf \<Rightarrow> nat \<Rightarrow> ssh_err + 16 word" where
  "sshbuf_peek_u16 b offset = map_sum id PEEK_U16 (check_roffset b offset 2)"

definition sshbuf_peek_u8 :: "sshbuf \<Rightarrow> nat \<Rightarrow> ssh_err + byte" where
  "sshbuf_peek_u8 b offset = map_sum id (\<lambda>p. p ! 0) (check_roffset b offset 1)"

section \<open>Strings\<close>

text \<open>The string in place: the pointer to its first byte and its length.\<close>

definition sshbuf_peek_string_direct :: "sshbuf \<Rightarrow> ssh_err + (nat \<times> byte list) \<times> nat" where
  "sshbuf_peek_string_direct b =
     (if sshbuf_len b < 4 then Inl SSH_ERR_MESSAGE_INCOMPLETE
      else (case sshbuf_ptr b of None \<Rightarrow> Inl SSH_ERR_INTERNAL_ERROR
        | Some (p, bytes) \<Rightarrow>
          let len = unat (PEEK_U32 bytes) in
          if len > SSHBUF_SIZE_MAX - 4 then Inl SSH_ERR_STRING_TOO_LARGE
          else if sshbuf_len b - 4 < len then Inl SSH_ERR_MESSAGE_INCOMPLETE
          else Inr ((p + 4, drop 4 bytes), len)))"

definition sshbuf_get_string_direct :: "sshbuf \<Rightarrow> (sshbuf, (nat \<times> byte list) \<times> nat) outcome" where
  "sshbuf_get_string_direct b =
     (case sshbuf_peek_string_direct b of Inl e \<Rightarrow> (Inl e, b)
      | Inr (p, len) \<Rightarrow>
        (case sshbuf_consume b (size_add len 4) of
           (Inl _, b1) \<Rightarrow> (Inl SSH_ERR_INTERNAL_ERROR, b1)
         | (Inr _, b1) \<Rightarrow> (Inr (p, len), b1)))"

definition sshbuf_get_string :: "bool \<Rightarrow> sshbuf \<Rightarrow> (sshbuf, byte list) outcome" where
  "sshbuf_get_string malloc b =
     (case sshbuf_get_string_direct b of
        (Inl e, b1) \<Rightarrow> (Inl e, b1)
      | (Inr ((_, bytes), len), b1) \<Rightarrow>
        if \<not> malloc then (Inl SSH_ERR_ALLOC_FAIL, b1) else (Inr (take len bytes), b1))"

text \<open>\<^verbatim>\<open>sshbuf_skip_string\<close> of \<^verbatim>\<open>sshbuf.h\<close> is the direct read with its results ignored.\<close>

definition sshbuf_skip_string :: "sshbuf \<Rightarrow> (sshbuf, unit) outcome" where
  "sshbuf_skip_string b =
     (case sshbuf_get_string_direct b of (Inl e, b1) \<Rightarrow> (Inl e, b1) | (Inr _, b1) \<Rightarrow> (Inr (), b1))"

text \<open>The index of the first occurrence of a byte (\<^verbatim>\<open>memchr\<close>).\<close>

fun memchr :: "byte \<Rightarrow> byte list \<Rightarrow> nat option" where
  "memchr c [] = None"
| "memchr c (x # xs) = (if x = c then Some 0 else map_option Suc (memchr c xs))"

definition sshbuf_get_cstring :: "bool \<Rightarrow> sshbuf \<Rightarrow> (sshbuf, byte list) outcome" where
  "sshbuf_get_cstring malloc b =
     (case sshbuf_peek_string_direct b of Inl e \<Rightarrow> (Inl e, b)
      | Inr ((_, bytes), len) \<Rightarrow>
        if len > 0 \<and> (case memchr 0 (take len bytes) of None \<Rightarrow> False | Some z \<Rightarrow> z < len - 1)
        then (Inl SSH_ERR_INVALID_FORMAT, b)
        else (case sshbuf_skip_string b of
                (Inl _, b1) \<Rightarrow> (Inl SSH_ERR_INTERNAL_ERROR, b1)
              | (Inr _, b1) \<Rightarrow>
                if \<not> malloc then (Inl SSH_ERR_ALLOC_FAIL, b1) else (Inr (take len bytes), b1)))"

definition sshbuf_get_stringb ::
    "nat option \<Rightarrow> sshbuf \<Rightarrow> sshbuf \<Rightarrow> (sshbuf \<times> sshbuf, unit) outcome" where
  "sshbuf_get_stringb ra b v =
     (case sshbuf_peek_string_direct b of Inl e \<Rightarrow> (Inl e, b, v)
      | Inr _ \<Rightarrow>
        (case sshbuf_get_u32 b of
           (Inl e, b1) \<Rightarrow> (Inl e, b1, v)
         | (Inr len, b1) \<Rightarrow>
           (case sshbuf_reserve ra v (unat len) of
              (Inl e, v1) \<Rightarrow> (Inl e, b1, v1)
            | (Inr p, v1) \<Rightarrow>
              (case sshbuf_get b1 (unat len) of
                 (Inl e, b2) \<Rightarrow> (Inl e, b2, v1)
               | (Inr bytes, b2) \<Rightarrow> (Inr (), b2, buf_write p bytes v1)))))"

section \<open>Appending\<close>

definition sshbuf_put :: "nat option \<Rightarrow> sshbuf \<Rightarrow> byte list \<Rightarrow> (sshbuf, unit) outcome" where
  "sshbuf_put ra b v =
     (case sshbuf_reserve ra b (length v) of
        (Inl e, b1) \<Rightarrow> (Inl e, b1)
      | (Inr p, b1) \<Rightarrow> (Inr (), buf_write p v b1))"

text \<open>The bytes a \<^verbatim>\<open>sshbuf_ptr\<close>/\<^verbatim>\<open>sshbuf_len\<close> pair refers to.\<close>

definition buf_bytes :: "sshbuf \<Rightarrow> byte list" where
  "buf_bytes v = (case sshbuf_ptr v of None \<Rightarrow> [] | Some (_, bytes) \<Rightarrow> take (sshbuf_len v) bytes)"

definition sshbuf_putb :: "nat option \<Rightarrow> sshbuf \<Rightarrow> sshbuf option \<Rightarrow> (sshbuf, unit) outcome" where
  "sshbuf_putb ra b v =
     (case v of None \<Rightarrow> (Inr (), b) | Some v \<Rightarrow> sshbuf_put ra b (buf_bytes v))"

text \<open>
  Formatted output: \<open>out1\<close> and \<open>out2\<close> are what the two calls of \<^verbatim>\<open>vsnprintf\<close> print for the
  format and arguments, \<^const>\<open>None\<close> when the call returns a negative value.  The second call
  writes at most \<^verbatim>\<open>len\<close> characters and a nul byte.
\<close>

definition sshbuf_putfv ::
    "nat option \<Rightarrow> sshbuf \<Rightarrow> byte list option \<Rightarrow> byte list option \<Rightarrow> (sshbuf, unit) outcome" where
  "sshbuf_putfv ra b out1 out2 =
     (case out1 of None \<Rightarrow> (Inl SSH_ERR_INVALID_ARGUMENT, b)
      | Some s1 \<Rightarrow>
        let len = length s1 in
        if len = 0 then (Inr (), b)
        else (case sshbuf_reserve ra b (size_add len 1) of
                (Inl e, b1) \<Rightarrow> (Inl e, b1)
              | (Inr p, b1) \<Rightarrow>
                (case out2 of None \<Rightarrow> (Inl SSH_ERR_INTERNAL_ERROR, b1)
                 | Some s2 \<Rightarrow>
                   let b2 = buf_write p (take len s2 @ [0]) b1 in
                   if length s2 \<noteq> len then (Inl SSH_ERR_INTERNAL_ERROR, b2)
                   else sshbuf_consume_end b2 1)))"

definition sshbuf_put_u64 :: "nat option \<Rightarrow> sshbuf \<Rightarrow> 64 word \<Rightarrow> (sshbuf, unit) outcome" where
  "sshbuf_put_u64 ra b val =
     (case sshbuf_reserve ra b 8 of
        (Inl e, b1) \<Rightarrow> (Inl e, b1)
      | (Inr p, b1) \<Rightarrow> (Inr (), buf_write p (POKE_U64 val) b1))"

definition sshbuf_put_u32 :: "nat option \<Rightarrow> sshbuf \<Rightarrow> 32 word \<Rightarrow> (sshbuf, unit) outcome" where
  "sshbuf_put_u32 ra b val =
     (case sshbuf_reserve ra b 4 of
        (Inl e, b1) \<Rightarrow> (Inl e, b1)
      | (Inr p, b1) \<Rightarrow> (Inr (), buf_write p (POKE_U32 val) b1))"

definition sshbuf_put_u16 :: "nat option \<Rightarrow> sshbuf \<Rightarrow> 16 word \<Rightarrow> (sshbuf, unit) outcome" where
  "sshbuf_put_u16 ra b val =
     (case sshbuf_reserve ra b 2 of
        (Inl e, b1) \<Rightarrow> (Inl e, b1)
      | (Inr p, b1) \<Rightarrow> (Inr (), buf_write p (POKE_U16 val) b1))"

definition sshbuf_put_u8 :: "nat option \<Rightarrow> sshbuf \<Rightarrow> byte \<Rightarrow> (sshbuf, unit) outcome" where
  "sshbuf_put_u8 ra b val =
     (case sshbuf_reserve ra b 1 of
        (Inl e, b1) \<Rightarrow> (Inl e, b1)
      | (Inr p, b1) \<Rightarrow> (Inr (), buf_write p [val] b1))"

definition sshbuf_put_string :: "nat option \<Rightarrow> sshbuf \<Rightarrow> byte list \<Rightarrow> (sshbuf, unit) outcome" where
  "sshbuf_put_string ra b v =
     (let len = length v in
      if len > SSHBUF_SIZE_MAX - 4 then (Inl SSH_ERR_NO_BUFFER_SPACE, b)
      else (case sshbuf_reserve ra b (size_add len 4) of
              (Inl e, b1) \<Rightarrow> (Inl e, b1)
            | (Inr d, b1) \<Rightarrow>
              let b2 = buf_write d (POKE_U32 (word_of_nat len)) b1
              in (Inr (), if len \<noteq> 0 then buf_write (d + 4) v b2 else b2)))"

text \<open>A C string is the bytes before the first nul; a null pointer is put as an empty string.\<close>

definition sshbuf_put_cstring ::
    "nat option \<Rightarrow> sshbuf \<Rightarrow> byte list option \<Rightarrow> (sshbuf, unit) outcome" where
  "sshbuf_put_cstring ra b v =
     sshbuf_put_string ra b (case v of None \<Rightarrow> [] | Some s \<Rightarrow> takeWhile (\<lambda>c. c \<noteq> 0) s)"

definition sshbuf_put_stringb ::
    "nat option \<Rightarrow> sshbuf \<Rightarrow> sshbuf option \<Rightarrow> (sshbuf, unit) outcome" where
  "sshbuf_put_stringb ra b v =
     (case v of None \<Rightarrow> sshbuf_put_string ra b [] | Some v \<Rightarrow> sshbuf_put_string ra b (buf_bytes v))"

section \<open>Writing in place\<close>

definition check_woffset :: "sshbuf \<Rightarrow> nat \<Rightarrow> nat \<Rightarrow> ssh_err + nat" where
  "check_woffset b offset len =
     (case check_offset b True offset len of Inl e \<Rightarrow> Inl e
      | Inr _ \<Rightarrow> (case sshbuf_mutable_ptr b of None \<Rightarrow> Inl SSH_ERR_BUFFER_READ_ONLY
        | Some p \<Rightarrow> Inr (p + offset)))"

definition sshbuf_poke :: "sshbuf \<Rightarrow> nat \<Rightarrow> byte list \<Rightarrow> (sshbuf, unit) outcome" where
  "sshbuf_poke b offset v =
     (case check_woffset b offset (length v) of Inl e \<Rightarrow> (Inl e, b)
      | Inr p \<Rightarrow> (Inr (), buf_write p v b))"

definition sshbuf_poke_u64 :: "sshbuf \<Rightarrow> nat \<Rightarrow> 64 word \<Rightarrow> (sshbuf, unit) outcome" where
  "sshbuf_poke_u64 b offset val =
     (case check_woffset b offset 8 of Inl e \<Rightarrow> (Inl e, b)
      | Inr p \<Rightarrow> (Inr (), buf_write p (POKE_U64 val) b))"

definition sshbuf_poke_u32 :: "sshbuf \<Rightarrow> nat \<Rightarrow> 32 word \<Rightarrow> (sshbuf, unit) outcome" where
  "sshbuf_poke_u32 b offset val =
     (case check_woffset b offset 4 of Inl e \<Rightarrow> (Inl e, b)
      | Inr p \<Rightarrow> (Inr (), buf_write p (POKE_U32 val) b))"

definition sshbuf_poke_u16 :: "sshbuf \<Rightarrow> nat \<Rightarrow> 16 word \<Rightarrow> (sshbuf, unit) outcome" where
  "sshbuf_poke_u16 b offset val =
     (case check_woffset b offset 2 of Inl e \<Rightarrow> (Inl e, b)
      | Inr p \<Rightarrow> (Inr (), buf_write p (POKE_U16 val) b))"

definition sshbuf_poke_u8 :: "sshbuf \<Rightarrow> nat \<Rightarrow> byte \<Rightarrow> (sshbuf, unit) outcome" where
  "sshbuf_poke_u8 b offset val =
     (case check_woffset b offset 1 of Inl e \<Rightarrow> (Inl e, b)
      | Inr p \<Rightarrow> (Inr (), buf_write p [val] b))"

section \<open>Multiple-precision integers\<close>

definition sshbuf_put_bignum2_bytes ::
    "nat option \<Rightarrow> sshbuf \<Rightarrow> byte list \<Rightarrow> (sshbuf, unit) outcome" where
  "sshbuf_put_bignum2_bytes ra b v =
     (if length v > SSHBUF_SIZE_MAX - 5 then (Inl SSH_ERR_NO_BUFFER_SPACE, b)
      else
        let s = dropWhile (\<lambda>x. x = 0) v;
            len = length s;
            prepend = (if len > 0 \<and> s ! 0 AND 0x80 \<noteq> 0 then 1 else 0)
        in (case sshbuf_reserve ra b (size_add (size_add len 4) prepend) of
              (Inl e, b1) \<Rightarrow> (Inl e, b1)
            | (Inr d, b1) \<Rightarrow>
              let b2 = buf_write d (POKE_U32 (word_of_nat (size_add len prepend))) b1;
                  b3 = (if prepend = 1 then buf_write (d + 4) [0] b2 else b2)
              in (Inr (), if len \<noteq> 0 then buf_write (d + 4 + prepend) s b3 else b3)))"

definition sshbuf_get_bignum2_bytes_direct :: "sshbuf \<Rightarrow> (sshbuf, byte list) outcome" where
  "sshbuf_get_bignum2_bytes_direct b =
     (case sshbuf_peek_string_direct b of Inl e \<Rightarrow> (Inl e, b)
      | Inr ((_, d), olen) \<Rightarrow>
        if olen \<noteq> 0 \<and> d ! 0 AND 0x80 \<noteq> 0 then (Inl SSH_ERR_BIGNUM_IS_NEGATIVE, b)
        else if olen > SSHBUF_MAX_BIGNUM + 1 \<or> (olen = SSHBUF_MAX_BIGNUM + 1 \<and> d ! 0 \<noteq> 0)
        then (Inl SSH_ERR_BIGNUM_TOO_LARGE, b)
        else
          let val = dropWhile (\<lambda>x. x = 0) (take olen d)
          in (case sshbuf_consume b (size_add olen 4) of
                (Inl _, b1) \<Rightarrow> (Inl SSH_ERR_INTERNAL_ERROR, b1)
              | (Inr _, b1) \<Rightarrow> (Inr val, b1)))"

section \<open>Byte order round trips\<close>

lemma length_POKE [simp]:
  "length (POKE_U64 v) = 8" "length (POKE_U32 w) = 4" "length (POKE_U16 x) = 2"
  by (simp_all add: POKE_U64_def POKE_U32_def POKE_U16_def)

lemma PEEK_POKE_U16 [simp]: "PEEK_U16 (POKE_U16 v @ rest) = v"
  by (rule bit_word_eqI) (auto simp: PEEK_U16_def POKE_U16_def bit_simps byte_simps)

lemma PEEK_POKE_U32 [simp]: "PEEK_U32 (POKE_U32 v @ rest) = v"
proof (rule bit_word_eqI)
  fix n assume n: "n < LENGTH(32)"
  have "n < 8 \<or> 8 \<le> n \<and> n < 16 \<or> 16 \<le> n \<and> n < 24 \<or> 24 \<le> n \<and> n < 32"
    using n by auto
  then show "bit (PEEK_U32 (POKE_U32 v @ rest)) n = bit v n"
    by (elim disjE conjE)
      (simp_all add: PEEK_U32_def POKE_U32_def bit_simps byte_simps less_diff_conv2)
qed

lemma PEEK_POKE_U64 [simp]: "PEEK_U64 (POKE_U64 v @ rest) = v"
proof (rule bit_word_eqI)
  fix n assume n: "n < LENGTH(64)"
  have "n < 8 \<or> 8 \<le> n \<and> n < 16 \<or> 16 \<le> n \<and> n < 24 \<or> 24 \<le> n \<and> n < 32 \<or>
     32 \<le> n \<and> n < 40 \<or> 40 \<le> n \<and> n < 48 \<or> 48 \<le> n \<and> n < 56 \<or> 56 \<le> n \<and> n < 64"
    using n by auto
  then show "bit (PEEK_U64 (POKE_U64 v @ rest)) n = bit v n"
    by (elim disjE conjE)
      (simp_all add: PEEK_U64_def POKE_U64_def bit_simps byte_simps less_diff_conv2)
qed

lemma PEEK_take [simp]:
  "PEEK_U64 (take 8 p) = PEEK_U64 p" "PEEK_U32 (take 4 p) = PEEK_U32 p"
  "PEEK_U16 (take 2 p) = PEEK_U16 p"
  by (simp_all add: PEEK_U64_def PEEK_U32_def PEEK_U16_def)

section \<open>The accessors on well-formed buffers\<close>

lemma put_spec:
  assumes wf: "sshbuf_wf b" and res: "sshbuf_put ra b v = (r, b')"
  shows "sshbuf_wf b' \<and> same_frame b b' \<and>
    buf_data b' = (if r = Inr () then buf_data b @ v else buf_data b)"
proof -
  obtain r1 b1 where rs: "sshbuf_reserve ra b (length v) = (r1, b1)" by fastforce
  then show ?thesis
    using reserve_spec [OF wf rs] res by (cases r1) (auto simp: sshbuf_put_def)
qed

lemma put_result:
  assumes wf: "sshbuf_wf b" and ra: "ra \<noteq> None"
  shows "fst (sshbuf_put ra b v) =
     (if \<not> sshbuf_writable b then Inl SSH_ERR_BUFFER_READ_ONLY
      else if length (buf_data b) + length v > buf_max_size b then Inl SSH_ERR_NO_BUFFER_SPACE
      else Inr ())"
proof -
  obtain r1 b1 where rs: "sshbuf_reserve ra b (length v) = (r1, b1)" by fastforce
  then show ?thesis
    using reserve_spec [OF wf rs] ra by (cases r1) (auto simp: sshbuf_put_def)
qed

lemma get_spec:
  assumes wf: "sshbuf_wf b" and res: "sshbuf_get b len = (r, b')"
  shows "sshbuf_wf b' \<and> same_frame b b' \<and>
    (if len \<le> length (buf_data b)
     then r = Inr (take len (buf_data b)) \<and> buf_data b' = drop len (buf_data b)
     else r = Inl SSH_ERR_MESSAGE_INCOMPLETE \<and> b' = b)"
proof -
  obtain r1 b1 where cs: "sshbuf_consume b len = (r1, b1)" by fastforce
  obtain p where ptr: "sshbuf_ptr b = Some (p, drop (buf_off b) (buf_mem b))"
    by (rule sshbuf_ptr_wf [OF wf])
  show ?thesis
    using consume_spec [OF wf cs] res ptr_take [of len b]
    by (auto simp: sshbuf_get_def cs ptr split: if_splits)
qed

text \<open>The integer accessors are the byte accessors with a change of byte order.\<close>

lemma put_ints:
  "sshbuf_put_u64 ra b x64 = sshbuf_put ra b (POKE_U64 x64)"
  "sshbuf_put_u32 ra b x32 = sshbuf_put ra b (POKE_U32 x32)"
  "sshbuf_put_u16 ra b x16 = sshbuf_put ra b (POKE_U16 x16)"
  "sshbuf_put_u8 ra b x8 = sshbuf_put ra b [x8]"
  by (simp_all add: sshbuf_put_u64_def sshbuf_put_u32_def sshbuf_put_u16_def sshbuf_put_u8_def
      sshbuf_put_def)

lemma get_ints:
  "sshbuf_get_u64 b = map_prod (map_sum id PEEK_U64) id (sshbuf_get b 8)"
  "sshbuf_get_u32 b = map_prod (map_sum id PEEK_U32) id (sshbuf_get b 4)"
  "sshbuf_get_u16 b = map_prod (map_sum id PEEK_U16) id (sshbuf_get b 2)"
  "sshbuf_get_u8 b = map_prod (map_sum id (\<lambda>p. p ! 0)) id (sshbuf_get b 1)"
  by (auto simp: sshbuf_get_u64_def sshbuf_get_u32_def sshbuf_get_u16_def sshbuf_get_u8_def
      sshbuf_get_def Let_def split: prod.splits sum.splits option.splits)

text \<open>Two adjacent writes are one.\<close>

lemma buf_write_append:
  assumes "i + length u + length v \<le> length (buf_mem b)"
  shows "buf_write (i + length u) v (buf_write i u b) = buf_write i (u @ v) b"
  using assms by (simp add: buf_write_def overwrite_def ac_simps)

lemma reserve_room:
  assumes "sshbuf_wf b" and "sshbuf_reserve ra b len = (Inr i, b')"
  shows "i + len \<le> length (buf_mem b')"
proof -
  obtain r1 b1 where alloc: "sshbuf_allocate ra b len = (r1, b1)" by fastforce
  note spec = allocate_spec [OF assms(1) alloc]
  show ?thesis
    using spec assms(2) wf_bounds [of b1]
    by (cases r1) (auto simp: sshbuf_reserve_def alloc)
qed

text \<open>A string is its length as a 32-bit integer followed by its bytes.\<close>

definition enc_string :: "byte list \<Rightarrow> byte list" where
  "enc_string v = POKE_U32 (word_of_nat (length v)) @ v"

lemma length_enc_string [simp]: "length (enc_string v) = 4 + length v"
  by (simp add: enc_string_def)

lemma put_string_eq:
  assumes wf: "sshbuf_wf b"
  shows "sshbuf_put_string ra b v =
    (if length v > SSHBUF_SIZE_MAX - 4 then (Inl SSH_ERR_NO_BUFFER_SPACE, b)
     else sshbuf_put ra b (enc_string v))"
proof (cases "length v > SSHBUF_SIZE_MAX - 4")
  case True
  then show ?thesis by (simp add: sshbuf_put_string_def)
next
  case False
  then have len: "size_add (length v) 4 = 4 + length v"
    using size_max_large by (subst size_add_exact) (auto simp: sshbuf_consts)
  obtain r1 b1 where rs: "sshbuf_reserve ra b (4 + length v) = (r1, b1)" by fastforce
  show ?thesis
  proof (cases r1)
    case (Inl e)
    then show ?thesis
      using False by (simp add: sshbuf_put_string_def sshbuf_put_def len rs)
  next
    case (Inr i)
    have "i + (4 + length v) \<le> length (buf_mem b1)"
      using reserve_room [OF wf] rs Inr by blast
    then have "buf_write (i + 4) v (buf_write i (POKE_U32 (word_of_nat (length v))) b1)
        = buf_write i (enc_string v) b1"
      using buf_write_append [of i "POKE_U32 (word_of_nat (length v))" v b1]
      by (simp add: enc_string_def)
    then show ?thesis
      using False Inr
      by (auto simp: sshbuf_put_string_def sshbuf_put_def len rs Let_def enc_string_def)
  qed
qed

lemma peek_string_wf:
  assumes wf: "sshbuf_wf b" and data: "buf_data b = enc_string v @ rest"
    and len: "length v \<le> SSHBUF_SIZE_MAX - 4"
  obtains p bytes where "sshbuf_peek_string_direct b = Inr ((p, bytes), length v)"
    and "take (length v) bytes = v" and "\<And>i. i < length v \<Longrightarrow> bytes ! i = v ! i"
proof -
  obtain p where ptr: "sshbuf_ptr b = Some (p, drop (buf_off b) (buf_mem b))"
    by (rule sshbuf_ptr_wf [OF wf])
  let ?m = "drop (buf_off b) (buf_mem b)"
  have four: "take 4 ?m = POKE_U32 (word_of_nat (length v))"
    using ptr_take [of 4 b] data by (simp add: enc_string_def)
  have "PEEK_U32 ?m = PEEK_U32 (take 4 ?m)" by simp
  also have "\<dots> = word_of_nat (length v)"
    using PEEK_POKE_U32 [of _ "[]"] by (simp add: four)
  finally have "unat (PEEK_U32 ?m) = length v"
    using len by (simp add: sshbuf_consts unat_of_nat)
  then have "sshbuf_peek_string_direct b = Inr ((p + 4, drop 4 ?m), length v)"
    using wf len data by (simp add: sshbuf_peek_string_direct_def ptr Let_def)
  moreover have "take (length v) (drop 4 ?m) = v"
  proof -
    have "take (4 + length v) ?m = POKE_U32 (word_of_nat (length v)) @ v"
      using ptr_take [of "4 + length v" b] data by (simp add: enc_string_def)
    then have "drop 4 (take (4 + length v) ?m) = v" by simp
    then show ?thesis by (simp add: drop_take)
  qed
  moreover from this have "drop 4 ?m ! i = v ! i" if "i < length v" for i
    using that by (metis nth_take)
  ultimately show ?thesis using that by blast
qed


lemma get_string_direct_wf:
  assumes wf: "sshbuf_wf b" and data: "buf_data b = enc_string v @ rest"
    and len: "length v \<le> SSHBUF_SIZE_MAX - 4"
  obtains p bytes b' where "sshbuf_get_string_direct b = (Inr ((p, bytes), length v), b')"
    and "take (length v) bytes = v"
    and "sshbuf_wf b'" and "same_frame b b'" and "buf_data b' = rest"
proof -
  obtain p bytes where peek: "sshbuf_peek_string_direct b = Inr ((p, bytes), length v)"
    and bytes: "take (length v) bytes = v"
    using peek_string_wf [OF assms] by metis
  have "size_add (length v) 4 = length v + 4"
    using len size_max_large by (intro size_add_exact) (simp add: sshbuf_consts)
  then obtain r1 b1 where cs: "sshbuf_consume b (size_add (length v) 4) = (r1, b1)"
    and le: "size_add (length v) 4 = length v + 4"
    by fastforce
  have "r1 = Inr () \<and> sshbuf_wf b1 \<and> same_frame b b1 \<and> buf_data b1 = rest"
    using consume_spec [OF wf cs] data by (simp add: le add.commute)
  then show ?thesis
    using that [of p bytes b1] by (simp add: sshbuf_get_string_direct_def peek cs bytes)
qed

lemma get_string_wf:
  assumes "sshbuf_wf b" "buf_data b = enc_string v @ rest" "length v \<le> SSHBUF_SIZE_MAX - 4"
  shows "\<exists>b'. sshbuf_get_string True b = (Inr v, b') \<and> sshbuf_wf b' \<and> same_frame b b' \<and>
    buf_data b' = rest"
  by (rule get_string_direct_wf [OF assms]) (auto simp: sshbuf_get_string_def)

lemma memchr_None: "memchr c xs = None \<longleftrightarrow> c \<notin> set xs"
  by (induction xs) auto

lemma memchr_Some: "memchr c xs = Some i \<Longrightarrow> i < length xs \<and> xs ! i = c \<and> (\<forall>j<i. xs ! j \<noteq> c)"
proof (induction xs arbitrary: i)
  case (Cons x xs)
  then show ?case by (fastforce simp: less_Suc_eq_0_disj split: if_splits)
qed simp

text \<open>A C string carries no nul except possibly as its last byte.\<close>

definition valid_cstring :: "byte list \<Rightarrow> bool" where
  "valid_cstring v \<longleftrightarrow> 0 \<notin> set (butlast v)"

lemma cstring_check:
  "v \<noteq> [] \<and> (case memchr 0 v of None \<Rightarrow> False | Some z \<Rightarrow> z < length v - 1) \<longleftrightarrow>
     \<not> valid_cstring v"
proof -
  have eq: "valid_cstring v \<longleftrightarrow> (\<forall>i < length v - 1. v ! i \<noteq> 0)"
    by (metis in_set_conv_nth length_butlast nth_butlast valid_cstring_def)
  show ?thesis
  proof (cases "memchr 0 v")
    case None
    then have "0 \<notin> set v" by (simp add: memchr_None)
    with None show ?thesis by (auto simp: eq in_set_conv_nth)
  next
    case (Some z)
    from memchr_Some [OF this] Some show ?thesis
      by (auto simp: eq) (metis linorder_neqE_nat less_trans)
  qed
qed

lemma get_cstring_wf:
  assumes "sshbuf_wf b" "buf_data b = enc_string v @ rest" "length v \<le> SSHBUF_SIZE_MAX - 4"
  shows "if valid_cstring v
    then \<exists>b'. sshbuf_get_cstring True b = (Inr v, b') \<and> sshbuf_wf b' \<and> same_frame b b' \<and>
      buf_data b' = rest
    else sshbuf_get_cstring True b = (Inl SSH_ERR_INVALID_FORMAT, b)"
proof -
  obtain p bytes where peek: "sshbuf_peek_string_direct b = Inr ((p, bytes), length v)"
    and bytes: "take (length v) bytes = v"
    using peek_string_wf [OF assms] by metis
  have skip: "\<exists>b'. sshbuf_skip_string b = (Inr (), b') \<and> sshbuf_wf b' \<and> same_frame b b' \<and>
      buf_data b' = rest"
    by (rule get_string_direct_wf [OF assms]) (auto simp: sshbuf_skip_string_def)
  show ?thesis
    using skip by (auto simp: sshbuf_get_cstring_def peek bytes cstring_check)
qed

section \<open>Wire codecs\<close>

text \<open>
  The contract that the clients of a typed pair of accessors rely on: a put appends the
  encoding of its value or, failing, leaves the contents alone; it succeeds where there is
  room; a get at the front of an encoding returns the value and consumes exactly it.
\<close>

locale wire_encoder =
  fixes valid :: "'a \<Rightarrow> bool"
    and enc :: "'a \<Rightarrow> byte list"
    and put :: "nat option \<Rightarrow> sshbuf \<Rightarrow> 'a \<Rightarrow> (sshbuf, unit) outcome"
  assumes codec_put: "sshbuf_wf b \<Longrightarrow> valid x \<Longrightarrow> put ra b x = (r, b') \<Longrightarrow>
      sshbuf_wf b' \<and> same_frame b b' \<and>
      buf_data b' = (if r = Inr () then buf_data b @ enc x else buf_data b)"
    and codec_room: "sshbuf_wf b \<Longrightarrow> valid x \<Longrightarrow> sshbuf_writable b \<Longrightarrow> ra \<noteq> None \<Longrightarrow>
      length (buf_data b) + length (enc x) \<le> buf_max_size b \<Longrightarrow> fst (put ra b x) = Inr ()"

locale wire_codec = wire_encoder valid enc put
  for valid :: "'a \<Rightarrow> bool"
    and enc :: "'a \<Rightarrow> byte list"
    and put :: "nat option \<Rightarrow> sshbuf \<Rightarrow> 'a \<Rightarrow> (sshbuf, unit) outcome" +
  fixes get :: "sshbuf \<Rightarrow> (sshbuf, 'a) outcome"
  assumes codec_get: "sshbuf_wf b \<Longrightarrow> valid x \<Longrightarrow> buf_data b = enc x @ rest \<Longrightarrow>
      \<exists>b'. get b = (Inr x, b') \<and> sshbuf_wf b' \<and> same_frame b b' \<and> buf_data b' = rest"

text \<open>A message of several fields of one kind, put one by one and read back one by one.\<close>

fun put_all :: "('s \<Rightarrow> 'a \<Rightarrow> ('s, unit) outcome) \<Rightarrow> 's \<Rightarrow> 'a list \<Rightarrow> ('s, unit) outcome" where
  "put_all put b [] = (Inr (), b)"
| "put_all put b (x # xs) =
     (case put b x of (Inl e, b1) \<Rightarrow> (Inl e, b1) | (Inr _, b1) \<Rightarrow> put_all put b1 xs)"

fun get_all :: "('s \<Rightarrow> ('s, 'a) outcome) \<Rightarrow> nat \<Rightarrow> 's \<Rightarrow> ('s, 'a list) outcome" where
  "get_all get 0 b = (Inr [], b)"
| "get_all get (Suc n) b =
     (case get b of (Inl e, b1) \<Rightarrow> (Inl e, b1)
      | (Inr x, b1) \<Rightarrow>
        (case get_all get n b1 of (Inl e, b2) \<Rightarrow> (Inl e, b2)
         | (Inr xs, b2) \<Rightarrow> (Inr (x # xs), b2)))"

context wire_encoder
begin

lemma put_all_data:
  assumes "sshbuf_wf b" and "list_all valid xs" and "put_all (put ra) b xs = (Inr (), b')"
  shows "sshbuf_wf b' \<and> same_frame b b' \<and> buf_data b' = buf_data b @ concat (map enc xs)"
  using assms
proof (induction xs arbitrary: b)
  case (Cons x xs)
  obtain r b1 where px: "put ra b x = (r, b1)" by fastforce
  with Cons.prems(3) have "r = Inr ()" and rest: "put_all (put ra) b1 xs = (Inr (), b')"
    by (auto split: sum.splits)
  with codec_put [OF Cons.prems(1) _ px] Cons.prems(2)
  have "sshbuf_wf b1" "same_frame b b1" "buf_data b1 = buf_data b @ enc x" by auto
  with Cons.IH [OF this(1) _ rest] Cons.prems(2) show ?case
    using same_frame_trans by auto
qed simp

lemma put_all_room:
  assumes "sshbuf_wf b" and "list_all valid xs" and "sshbuf_writable b" and "ra \<noteq> None"
    and "length (buf_data b) + length (concat (map enc xs)) \<le> buf_max_size b"
  shows "fst (put_all (put ra) b xs) = Inr ()"
  using assms
proof (induction xs arbitrary: b)
  case (Cons x xs)
  obtain r b1 where px: "put ra b x = (r, b1)" by fastforce
  have "r = Inr ()"
    using codec_room [of b x ra] Cons.prems px by simp
  moreover have "sshbuf_wf b1" "same_frame b b1" "buf_data b1 = buf_data b @ enc x"
    using codec_put [OF Cons.prems(1) _ px] Cons.prems(2) \<open>r = Inr ()\<close> by auto
  ultimately show ?case
    using Cons.IH [of b1] Cons.prems same_frame_writable [of b b1] px
    by (simp add: same_frame_def)
qed simp

end

context wire_codec
begin

lemma get_all_data:
  assumes "sshbuf_wf b" and "list_all valid xs" and "buf_data b = concat (map enc xs) @ rest"
  shows "\<exists>b'. get_all get (length xs) b = (Inr xs, b') \<and> sshbuf_wf b' \<and> same_frame b b' \<and>
    buf_data b' = rest"
  using assms
proof (induction xs arbitrary: b)
  case (Cons x xs)
  obtain b1 where "get b = (Inr x, b1)" "sshbuf_wf b1" "same_frame b b1"
    "buf_data b1 = concat (map enc xs) @ rest"
    using codec_get [of b x "concat (map enc xs) @ rest"] Cons.prems by auto
  moreover from this Cons.IH [of b1] Cons.prems
  obtain b2 where "get_all get (length xs) b1 = (Inr xs, b2)" "sshbuf_wf b2" "same_frame b1 b2"
    "buf_data b2 = rest" by auto
  ultimately show ?case using same_frame_trans by auto
qed simp

text \<open>What is put is read back, in order, and nothing else is left behind.\<close>

lemma roundtrip:
  assumes "sshbuf_wf b" and "buf_data b = []" and "list_all valid xs"
    and "put_all (put ra) b xs = (Inr (), b')"
  shows "\<exists>b''. get_all get (length xs) b' = (Inr xs, b'') \<and> sshbuf_wf b'' \<and> buf_data b'' = []"
  using put_all_data [OF assms(1,3,4)] get_all_data [of b' xs "[]"] assms(2,3) by auto

end

text \<open>An encoder that is \<^const>\<open>sshbuf_put\<close> of an encoding, and a decoder of it.\<close>

lemma wire_encoderI:
  assumes put: "\<And>ra b x. sshbuf_wf b \<Longrightarrow> valid x \<Longrightarrow> put ra b x = sshbuf_put ra b (enc x)"
  shows "wire_encoder valid enc put"
proof
  show "sshbuf_wf b' \<and> same_frame b b' \<and>
      buf_data b' = (if r = Inr () then buf_data b @ enc x else buf_data b)"
    if "sshbuf_wf b" "valid x" "put ra b x = (r, b')" for b x ra r b'
    using put_spec [of b ra "enc x" r b'] put [of b x ra] that by simp
  show "fst (put ra b x) = Inr ()"
    if "sshbuf_wf b" "valid x" "sshbuf_writable b" "ra \<noteq> None"
      "length (buf_data b) + length (enc x) \<le> buf_max_size b" for b x ra
    using put_result [of b ra "enc x"] put [of b x ra] that by simp
qed

lemma wire_codecI:
  assumes put: "\<And>ra b x. sshbuf_wf b \<Longrightarrow> valid x \<Longrightarrow> put ra b x = sshbuf_put ra b (enc x)"
    and get: "\<And>b x rest. sshbuf_wf b \<Longrightarrow> valid x \<Longrightarrow> buf_data b = enc x @ rest \<Longrightarrow>
      \<exists>b'. get b = (Inr x, b') \<and> sshbuf_wf b' \<and> same_frame b b' \<and> buf_data b' = rest"
  shows "wire_codec valid enc put get"
proof (intro wire_codec.intro wire_codec_axioms.intro)
  show "wire_encoder valid enc put"
    by (rule wire_encoderI) (rule put)
qed (rule get)

lemma get_fixed:
  assumes "sshbuf_wf b" and "buf_data b = v @ rest"
  shows "\<exists>b'. sshbuf_get b (length v) = (Inr v, b') \<and> sshbuf_wf b' \<and> same_frame b b' \<and>
    buf_data b' = rest"
proof -
  obtain r b' where "sshbuf_get b (length v) = (r, b')" by fastforce
  with get_spec [OF assms(1) this] assms(2) show ?thesis by auto
qed

interpretation u64: wire_codec "\<lambda>_. True" POKE_U64 sshbuf_put_u64 sshbuf_get_u64
proof (rule wire_codecI)
  fix b x rest assume "sshbuf_wf b" "buf_data b = POKE_U64 x @ rest"
  from get_fixed [OF this] PEEK_POKE_U64 [of x "[]"]
  show "\<exists>b'. sshbuf_get_u64 b = (Inr x, b') \<and> sshbuf_wf b' \<and> same_frame b b' \<and> buf_data b' = rest"
    by (auto simp: get_ints)
qed (simp add: put_ints)

interpretation u32: wire_codec "\<lambda>_. True" POKE_U32 sshbuf_put_u32 sshbuf_get_u32
proof (rule wire_codecI)
  fix b x rest assume "sshbuf_wf b" "buf_data b = POKE_U32 x @ rest"
  from get_fixed [OF this] PEEK_POKE_U32 [of x "[]"]
  show "\<exists>b'. sshbuf_get_u32 b = (Inr x, b') \<and> sshbuf_wf b' \<and> same_frame b b' \<and> buf_data b' = rest"
    by (auto simp: get_ints)
qed (simp add: put_ints)

interpretation u16: wire_codec "\<lambda>_. True" POKE_U16 sshbuf_put_u16 sshbuf_get_u16
proof (rule wire_codecI)
  fix b x rest assume "sshbuf_wf b" "buf_data b = POKE_U16 x @ rest"
  from get_fixed [OF this] PEEK_POKE_U16 [of x "[]"]
  show "\<exists>b'. sshbuf_get_u16 b = (Inr x, b') \<and> sshbuf_wf b' \<and> same_frame b b' \<and> buf_data b' = rest"
    by (auto simp: get_ints)
qed (simp add: put_ints)

interpretation u8: wire_codec "\<lambda>_. True" "\<lambda>x. [x]" sshbuf_put_u8 sshbuf_get_u8
proof (rule wire_codecI)
  fix b x rest assume "sshbuf_wf b" "buf_data b = [x] @ rest"
  from get_fixed [OF this]
  show "\<exists>b'. sshbuf_get_u8 b = (Inr x, b') \<and> sshbuf_wf b' \<and> same_frame b b' \<and> buf_data b' = rest"
    by (auto simp: get_ints)
qed (simp add: put_ints)

interpretation str: wire_codec "\<lambda>v. length v \<le> SSHBUF_SIZE_MAX - 4" enc_string
  sshbuf_put_string "sshbuf_get_string True"
  by (rule wire_codecI) (simp add: put_string_eq, rule get_string_wf)

lemma put_cstring_eq:
  assumes "sshbuf_wf b" and "length v \<le> SSHBUF_SIZE_MAX - 4" and "0 \<notin> set v"
  shows "sshbuf_put_cstring ra b (Some v) = sshbuf_put ra b (enc_string v)"
proof -
  have tw: "takeWhile (\<lambda>c. c \<noteq> 0) v = v"
    using assms(3) by (intro takeWhile_eq_all_conv [THEN iffD2]) auto
  show ?thesis
    using assms(1,2) by (simp add: sshbuf_put_cstring_def put_string_eq tw)
qed

interpretation cstr: wire_codec "\<lambda>v. length v \<le> SSHBUF_SIZE_MAX - 4 \<and> 0 \<notin> set v" enc_string
  "\<lambda>ra b v. sshbuf_put_cstring ra b (Some v)" "sshbuf_get_cstring True"
proof (rule wire_codecI)
  show "sshbuf_put_cstring ra b (Some v) = sshbuf_put ra b (enc_string v)"
    if "sshbuf_wf b" "length v \<le> SSHBUF_SIZE_MAX - 4 \<and> 0 \<notin> set v" for ra b v
    using that by (simp add: put_cstring_eq)
next
  fix b v rest
  assume wf: "sshbuf_wf b" and v: "length v \<le> SSHBUF_SIZE_MAX - 4 \<and> (0::byte) \<notin> set v"
    and data: "buf_data b = enc_string v @ rest"
  have "valid_cstring v"
    using v by (auto simp: valid_cstring_def dest: in_set_butlastD)
  with get_cstring_wf [OF wf data] v
  show "\<exists>b'. sshbuf_get_cstring True b = (Inr v, b') \<and> sshbuf_wf b' \<and> same_frame b b' \<and>
      buf_data b' = rest" by auto
qed


subsection \<open>Multiple-precision integers\<close>

text \<open>
  The bytes of a non-negative integer are sent without leading zeros, but for one zero
  byte where the top bit of the first byte would make the number negative.
\<close>

abbreviation strip_zeros :: "byte list \<Rightarrow> byte list" where
  "strip_zeros \<equiv> dropWhile (\<lambda>x. x = 0)"

definition mpint_body :: "byte list \<Rightarrow> byte list" where
  "mpint_body v =
     (let s = strip_zeros v in if s \<noteq> [] \<and> s ! 0 AND 0x80 \<noteq> 0 then 0 # s else s)"

definition be_nat :: "byte list \<Rightarrow> nat" where
  "be_nat v = foldl (\<lambda>a x. 256 * a + unat x) 0 v"

lemma be_nat_strip_zeros: "be_nat (strip_zeros v) = be_nat v"
  by (induction v) (auto simp: be_nat_def)

lemma strip_mpint_body: "strip_zeros (mpint_body v) = strip_zeros v"
proof -
  have "strip_zeros (strip_zeros v) = strip_zeros v"
    by (rule dropWhile_idem)
  then show ?thesis by (simp add: mpint_body_def Let_def)
qed

lemma mpint_body_sign: "mpint_body v \<noteq> [] \<Longrightarrow> mpint_body v ! 0 AND 0x80 = 0"
  by (auto simp: mpint_body_def Let_def split: if_splits)

lemma length_mpint_body: "length (mpint_body v) \<le> Suc (length (strip_zeros v))"
  by (simp add: mpint_body_def Let_def)

lemma mpint_body_long:
  "length (mpint_body v) = Suc n \<Longrightarrow> length (strip_zeros v) \<le> n \<Longrightarrow> mpint_body v ! 0 = 0"
  by (auto simp: mpint_body_def Let_def split: if_splits)

lemma put_bignum2_eq:
  assumes wf: "sshbuf_wf b"
  shows "sshbuf_put_bignum2_bytes ra b v =
    (if length v > SSHBUF_SIZE_MAX - 5 then (Inl SSH_ERR_NO_BUFFER_SPACE, b)
     else sshbuf_put ra b (enc_string (mpint_body v)))"
proof (cases "length v > SSHBUF_SIZE_MAX - 5")
  case True
  then show ?thesis by (simp add: sshbuf_put_bignum2_bytes_def)
next
  case False
  define s where "s = strip_zeros v"
  define pre :: "byte list" where "pre = (if s \<noteq> [] \<and> s ! 0 AND 0x80 \<noteq> 0 then [0] else [])"
  have body: "mpint_body v = pre @ s"
    by (simp add: mpint_body_def s_def pre_def Let_def)
  have "length s \<le> length v"
    by (simp add: s_def length_dropWhile_le)
  then have small: "length s + 5 \<le> SSHBUF_SIZE_MAX" "length pre \<le> 1"
    using False by (auto simp: sshbuf_consts pre_def)
  then have len: "size_add (length s) 4 = length s + 4"
    "size_add (length s + 4) (length pre) = length s + 4 + length pre"
    "size_add (length s) (length pre) = length pre + length s"
    using size_max_large by (auto simp: size_arith)
  let ?w = "POKE_U32 (word_of_nat (length pre + length s)) :: byte list"
  have nil: "buf_write j [] b' = b'" for j b'
    by (simp add: buf_write_def overwrite_def)
  have unf: "sshbuf_put_bignum2_bytes ra b v =
      (case sshbuf_reserve ra b (length s + 4 + length pre) of
         (Inl e, b1) \<Rightarrow> (Inl e, b1)
       | (Inr d, b1) \<Rightarrow> (Inr (), buf_write (d + 4 + length pre) s
           (buf_write (d + 4) pre (buf_write d ?w b1))))"
  proof -
    consider "s = []" | "s \<noteq> []" "s ! 0 AND 0x80 = 0" | "s \<noteq> []" "s ! 0 AND 0x80 \<noteq> 0"
      by blast
    then show ?thesis
      using False len
      by cases (simp_all add: sshbuf_put_bignum2_bytes_def s_def [symmetric] pre_def nil Let_def
          split: prod.split sum.split)
  qed
  obtain r1 b1 where rs: "sshbuf_reserve ra b (length s + 4 + length pre) = (r1, b1)" by fastforce
  have rs': "sshbuf_reserve ra b (length (enc_string (mpint_body v))) = (r1, b1)"
    using rs by (simp add: body add.commute add.left_commute)
  show ?thesis
  proof (cases r1)
    case (Inl e)
    then show ?thesis using False rs rs' by (simp add: unf sshbuf_put_def)
  next
    case (Inr i)
    have room: "i + (length s + 4 + length pre) \<le> length (buf_mem b1)"
      using reserve_room [OF wf] rs Inr by blast
    have "buf_write (i + 4 + length pre) s (buf_write (i + 4) pre (buf_write i ?w b1))
        = buf_write i (?w @ pre @ s) b1"
      using room buf_write_append [of i ?w pre b1] buf_write_append [of i "?w @ pre" s b1]
      by (simp add: add.assoc)
    then show ?thesis
      using False rs rs' Inr by (simp add: unf sshbuf_put_def enc_string_def body)
  qed
qed

lemma get_bignum2_wf:
  assumes wf: "sshbuf_wf b" and data: "buf_data b = enc_string (mpint_body v) @ rest"
    and len: "length (strip_zeros v) \<le> SSHBUF_MAX_BIGNUM"
  shows "\<exists>b'. sshbuf_get_bignum2_bytes_direct b = (Inr (strip_zeros v), b') \<and> sshbuf_wf b' \<and>
    same_frame b b' \<and> buf_data b' = rest"
proof -
  let ?w = "mpint_body v"
  have wlen: "length ?w \<le> SSHBUF_MAX_BIGNUM + 1" "length ?w \<le> SSHBUF_SIZE_MAX - 4"
    using length_mpint_body [of v] len
    by (auto simp: SSHBUF_MAX_BIGNUM_def SSHBUF_SIZE_MAX_def)
  obtain p bytes where peek: "sshbuf_peek_string_direct b = Inr ((p, bytes), length ?w)"
    and bytes: "take (length ?w) bytes = ?w" and nth: "\<And>i. i < length ?w \<Longrightarrow> bytes ! i = ?w ! i"
    using peek_string_wf [OF wf data wlen(2)] by metis
  have sign: "\<not> (length ?w \<noteq> 0 \<and> bytes ! 0 AND 0x80 \<noteq> 0)"
    using mpint_body_sign [of v] nth [of 0] by (cases "?w = []") auto
  have size: "\<not> (length ?w > SSHBUF_MAX_BIGNUM + 1 \<or>
      length ?w = SSHBUF_MAX_BIGNUM + 1 \<and> bytes ! 0 \<noteq> 0)"
    using wlen mpint_body_long [of v SSHBUF_MAX_BIGNUM] len nth [of 0]
    by (cases "?w = []") auto
  have "size_add (length ?w) 4 = length ?w + 4"
    using wlen size_max_large by (intro size_add_exact) (auto simp: SSHBUF_SIZE_MAX_def)
  moreover obtain r1 b1 where cs: "sshbuf_consume b (length ?w + 4) = (r1, b1)" by fastforce
  moreover have "r1 = Inr () \<and> sshbuf_wf b1 \<and> same_frame b b1 \<and> buf_data b1 = rest"
    using consume_spec [OF wf cs] data by (simp add: add.commute)
  ultimately show ?thesis
    using sign size
    by (auto simp: sshbuf_get_bignum2_bytes_direct_def peek bytes strip_mpint_body)
qed

interpretation mpint: wire_codec "\<lambda>v. strip_zeros v = v \<and> length v \<le> SSHBUF_MAX_BIGNUM"
  "\<lambda>v. enc_string (mpint_body v)" sshbuf_put_bignum2_bytes sshbuf_get_bignum2_bytes_direct
proof (rule wire_codecI)
  show "sshbuf_put_bignum2_bytes ra b v = sshbuf_put ra b (enc_string (mpint_body v))"
    if "sshbuf_wf b" "strip_zeros v = v \<and> length v \<le> SSHBUF_MAX_BIGNUM" for ra b v
    using that by (simp add: put_bignum2_eq SSHBUF_MAX_BIGNUM_def SSHBUF_SIZE_MAX_def)
qed (use get_bignum2_wf in force)


section \<open>Reading and writing in place\<close>

lemma check_offset_wf:
  assumes wf: "sshbuf_wf b" and "len \<le> SIZE_MAX"
  shows "check_offset b wr offset len =
    (if offset + len \<ge> SIZE_MAX then Inl SSH_ERR_INVALID_ARGUMENT
     else if offset + len > length (buf_data b)
     then Inl (if wr then SSH_ERR_NO_BUFFER_SPACE else SSH_ERR_MESSAGE_INCOMPLETE)
     else Inr ())"
proof -
  obtain p where ptr: "sshbuf_ptr b = Some (p, drop (buf_off b) (buf_mem b))"
    by (rule sshbuf_ptr_wf [OF wf])
  have "size_sub SIZE_MAX len = SIZE_MAX - len"
    using assms(2) by (simp add: size_arith)
  then show ?thesis
    using wf ptr assms(2) by (auto simp: check_offset_def size_arith)
qed

lemma small_offset:
  "sshbuf_wf b \<Longrightarrow> n \<le> length (buf_data b) \<Longrightarrow> n < SIZE_MAX"
  using length_buf_data_le [of b] wf_bounds(4) [of b] size_max_large
  by (auto simp: SSHBUF_SIZE_MAX_def)

lemma check_roffset_ok:
  assumes wf: "sshbuf_wf b" and le: "offset + len \<le> length (buf_data b)"
  obtains q where "check_roffset b offset len = Inr q"
    and "take len q = take len (drop offset (buf_data b))"
proof -
  obtain p where ptr: "sshbuf_ptr b = Some (p, drop (buf_off b) (buf_mem b))"
    by (rule sshbuf_ptr_wf [OF wf])
  let ?m = "drop (buf_off b) (buf_mem b)"
  have "check_offset b False offset len = Inr ()"
    using small_offset [OF wf le] le by (subst check_offset_wf [OF wf]) auto
  then have "check_roffset b offset len = Inr (drop offset ?m)"
    by (simp add: check_roffset_def ptr)
  moreover have "take len (drop offset ?m) = take len (drop offset (buf_data b))"
  proof -
    have "drop offset (take (offset + len) ?m) = drop offset (take (offset + len) (buf_data b))"
      by (simp only: ptr_take [OF le])
    then show ?thesis by (simp add: drop_take)
  qed
  ultimately show ?thesis using that by blast
qed

lemma take_overwrite_inside:
  assumes "i + length v \<le> k" and "k \<le> length xs"
  shows "take k (overwrite i v xs) = overwrite i v (take k xs)"
proof -
  obtain m where k: "k = i + length v + m"
    using assms(1) le_Suc_ex by blast
  show ?thesis
    using assms(2) by (cases v) (auto simp: k overwrite_def drop_take min_def add.commute take_add)
qed

lemma drop_overwrite_inside:
  "off + i + length v \<le> length xs \<Longrightarrow> drop off (overwrite (off + i) v xs) = overwrite i v (drop off xs)"
  by (simp add: overwrite_def drop_take add.commute add.left_commute)

lemma poke_spec:
  assumes wf: "sshbuf_wf b" and v: "length v \<le> SIZE_MAX" and res: "sshbuf_poke b offset v = (r, b')"
  shows "sshbuf_wf b' \<and> same_frame b b' \<and>
    (if offset + length v \<ge> SIZE_MAX then r = Inl SSH_ERR_INVALID_ARGUMENT \<and> b' = b
     else if offset + length v > length (buf_data b) then r = Inl SSH_ERR_NO_BUFFER_SPACE \<and> b' = b
     else if \<not> sshbuf_writable b then r = Inl SSH_ERR_BUFFER_READ_ONLY \<and> b' = b
     else r = Inr () \<and> buf_data b' = overwrite offset v (buf_data b))"
proof (cases "offset + length v < SIZE_MAX \<and> offset + length v \<le> length (buf_data b) \<and>
    sshbuf_writable b")
  case True
  then have "check_woffset b offset (length v) = Inr (buf_off b + offset)"
    using wf v wf_not_writable [OF wf]
    by (auto simp: check_woffset_def check_offset_wf sshbuf_mutable_ptr_def)
  then have b': "r = Inr ()" "b' = buf_write (buf_off b + offset) v b"
    using res by (auto simp: sshbuf_poke_def)
  have room: "buf_off b + offset + length v \<le> buf_size b"
    using True wf_bounds [OF wf] by (auto simp: length_buf_data [OF wf])
  have frame: "same_frame b b'" by (simp add: b' buf_write_def same_frame_def)
  have "sshbuf_wf b'"
    using wf_bounds [OF wf] wf_pointers [OF wf] room
    by (intro wfI [OF wf frame]) (auto simp: b' buf_write_def)
  moreover have "buf_data b' = overwrite offset v (buf_data b)"
    using room wf_bounds [OF wf]
    by (simp add: b' buf_write_def buf_data_def drop_overwrite_inside take_overwrite_inside)
  ultimately show ?thesis using True b' frame by auto
next
  case False
  then show ?thesis
    using wf v res wf_not_writable [OF wf]
    by (auto simp: sshbuf_poke_def check_woffset_def check_offset_wf sshbuf_mutable_ptr_def
        split: if_splits)
qed

lemma poke_ints:
  "sshbuf_poke_u64 b offset x64 = sshbuf_poke b offset (POKE_U64 x64)"
  "sshbuf_poke_u32 b offset x32 = sshbuf_poke b offset (POKE_U32 x32)"
  "sshbuf_poke_u16 b offset x16 = sshbuf_poke b offset (POKE_U16 x16)"
  "sshbuf_poke_u8 b offset x8 = sshbuf_poke b offset [x8]"
  by (simp_all add: sshbuf_poke_u64_def sshbuf_poke_u32_def sshbuf_poke_u16_def sshbuf_poke_u8_def
      sshbuf_poke_def)


section \<open>The buffer as a bounded queue of bytes\<close>

text \<open>
  What the channel and packet layers rely on: a put that succeeds appends, one that fails
  changes nothing, a get returns and removes the front.  A run of such operations records
  the bytes accepted and the bytes delivered.
\<close>

datatype fifo_op = Append "byte list" | Take nat

fun fifo_run :: "('s \<Rightarrow> byte list \<Rightarrow> ('s, unit) outcome) \<Rightarrow> ('s \<Rightarrow> nat \<Rightarrow> ('s, byte list) outcome) \<Rightarrow>
    's \<Rightarrow> fifo_op list \<Rightarrow> byte list \<times> byte list \<times> 's" where
  "fifo_run put get s [] = ([], [], s)"
| "fifo_run put get s (Append v # ops) =
     (case put s v of
        (Inl _, s1) \<Rightarrow> fifo_run put get s1 ops
      | (Inr _, s1) \<Rightarrow> (case fifo_run put get s1 ops of (w, r, s2) \<Rightarrow> (v @ w, r, s2)))"
| "fifo_run put get s (Take n # ops) =
     (case get s n of
        (Inl _, s1) \<Rightarrow> fifo_run put get s1 ops
      | (Inr x, s1) \<Rightarrow> (case fifo_run put get s1 ops of (w, r, s2) \<Rightarrow> (w, x @ r, s2)))"

locale byte_fifo =
  fixes invar :: "'s \<Rightarrow> bool"
    and contents :: "'s \<Rightarrow> byte list"
    and bound :: "'s \<Rightarrow> nat"
    and put :: "'s \<Rightarrow> byte list \<Rightarrow> ('s, unit) outcome"
    and get :: "'s \<Rightarrow> nat \<Rightarrow> ('s, byte list) outcome"
  assumes fifo_put: "invar s \<Longrightarrow> put s v = (r, s') \<Longrightarrow> invar s' \<and> bound s' = bound s \<and>
      contents s' = (if r = Inr () then contents s @ v else contents s)"
    and fifo_get: "invar s \<Longrightarrow> get s n = (q, s') \<Longrightarrow> invar s' \<and> bound s' = bound s \<and>
      (case q of Inl _ \<Rightarrow> contents s' = contents s
       | Inr x \<Rightarrow> x = take n (contents s) \<and> contents s' = drop n (contents s))"
    and fifo_bound: "invar s \<Longrightarrow> length (contents s) \<le> bound s"
begin

lemma conservation:
  assumes "invar s" and "fifo_run put get s ops = (w, r, s')"
  shows "invar s' \<and> bound s' = bound s \<and> contents s @ w = r @ contents s'"
  using assms
proof (induction ops arbitrary: s w r s')
  case (Cons op ops)
  show ?case
  proof (cases op)
    case (Append v)
    obtain q s1 where p: "put s v = (q, s1)" by fastforce
    obtain w1 r1 s2 where rec: "fifo_run put get s1 ops = (w1, r1, s2)" by (metis prod_cases3)
    from fifo_put [OF Cons.prems(1) p] Cons.IH [OF _ rec] Cons.prems(2) rec p Append
    show ?thesis by (auto split: sum.splits)
  next
    case (Take n)
    obtain q s1 where g: "get s n = (q, s1)" by fastforce
    obtain w1 r1 s2 where rec: "fifo_run put get s1 ops = (w1, r1, s2)" by (metis prod_cases3)
    from fifo_get [OF Cons.prems(1) g] Cons.IH [OF _ rec] Cons.prems(2) rec g Take
    show ?thesis
      by (auto split: sum.splits) (metis append_assoc append_take_drop_id)
  qed
qed simp

end

interpretation sshbuf_fifo: byte_fifo sshbuf_wf buf_data buf_max_size "sshbuf_put ra" sshbuf_get for ra
proof
  show "sshbuf_wf s' \<and> buf_max_size s' = buf_max_size s \<and>
      buf_data s' = (if r = Inr () then buf_data s @ v else buf_data s)"
    if "sshbuf_wf s" "sshbuf_put ra s v = (r, s')" for s v r s'
    using put_spec [OF that] by (simp add: same_frame_def)
  show "sshbuf_wf s' \<and> buf_max_size s' = buf_max_size s \<and>
      (case q of Inl _ \<Rightarrow> buf_data s' = buf_data s
       | Inr x \<Rightarrow> x = take n (buf_data s) \<and> buf_data s' = drop n (buf_data s))"
    if "sshbuf_wf s" "sshbuf_get s n = (q, s')" for s n q s'
    using get_spec [OF that] by (auto simp: same_frame_def split: if_splits)
qed (rule length_buf_data_le)

section \<open>Messages of several fields\<close>

text \<open>
  An SSH message is a sequence of typed fields; the reader knows the types it expects.
\<close>

datatype wire_field = FU8 byte | FU16 "16 word" | FU32 "32 word" | FU64 "64 word"
  | FString "byte list" | FCString "byte list" | FMpint "byte list"

datatype wire_kind = KU8 | KU16 | KU32 | KU64 | KString | KCString | KMpint

fun field_kind :: "wire_field \<Rightarrow> wire_kind" where
  "field_kind (FU8 _) = KU8"
| "field_kind (FU16 _) = KU16"
| "field_kind (FU32 _) = KU32"
| "field_kind (FU64 _) = KU64"
| "field_kind (FString _) = KString"
| "field_kind (FCString _) = KCString"
| "field_kind (FMpint _) = KMpint"

fun field_valid :: "wire_field \<Rightarrow> bool" where
  "field_valid (FString v) = (length v \<le> SSHBUF_SIZE_MAX - 4)"
| "field_valid (FCString v) = (length v \<le> SSHBUF_SIZE_MAX - 4 \<and> 0 \<notin> set v)"
| "field_valid (FMpint v) = (strip_zeros v = v \<and> length v \<le> SSHBUF_MAX_BIGNUM)"
| "field_valid _ = True"

fun field_enc :: "wire_field \<Rightarrow> byte list" where
  "field_enc (FU8 x) = [x]"
| "field_enc (FU16 x) = POKE_U16 x"
| "field_enc (FU32 x) = POKE_U32 x"
| "field_enc (FU64 x) = POKE_U64 x"
| "field_enc (FString v) = enc_string v"
| "field_enc (FCString v) = enc_string v"
| "field_enc (FMpint v) = enc_string (mpint_body v)"

fun put_field :: "nat option \<Rightarrow> sshbuf \<Rightarrow> wire_field \<Rightarrow> (sshbuf, unit) outcome" where
  "put_field ra b (FU8 x) = sshbuf_put_u8 ra b x"
| "put_field ra b (FU16 x) = sshbuf_put_u16 ra b x"
| "put_field ra b (FU32 x) = sshbuf_put_u32 ra b x"
| "put_field ra b (FU64 x) = sshbuf_put_u64 ra b x"
| "put_field ra b (FString v) = sshbuf_put_string ra b v"
| "put_field ra b (FCString v) = sshbuf_put_cstring ra b (Some v)"
| "put_field ra b (FMpint v) = sshbuf_put_bignum2_bytes ra b v"

fun get_field :: "wire_kind \<Rightarrow> sshbuf \<Rightarrow> (sshbuf, wire_field) outcome" where
  "get_field KU8 b = map_prod (map_sum id FU8) id (sshbuf_get_u8 b)"
| "get_field KU16 b = map_prod (map_sum id FU16) id (sshbuf_get_u16 b)"
| "get_field KU32 b = map_prod (map_sum id FU32) id (sshbuf_get_u32 b)"
| "get_field KU64 b = map_prod (map_sum id FU64) id (sshbuf_get_u64 b)"
| "get_field KString b = map_prod (map_sum id FString) id (sshbuf_get_string True b)"
| "get_field KCString b = map_prod (map_sum id FCString) id (sshbuf_get_cstring True b)"
| "get_field KMpint b = map_prod (map_sum id FMpint) id (sshbuf_get_bignum2_bytes_direct b)"

fun get_fields :: "wire_kind list \<Rightarrow> sshbuf \<Rightarrow> (sshbuf, wire_field list) outcome" where
  "get_fields [] b = (Inr [], b)"
| "get_fields (k # ks) b =
     (case get_field k b of (Inl e, b1) \<Rightarrow> (Inl e, b1)
      | (Inr x, b1) \<Rightarrow>
        (case get_fields ks b1 of (Inl e, b2) \<Rightarrow> (Inl e, b2)
         | (Inr xs, b2) \<Rightarrow> (Inr (x # xs), b2)))"

lemma field_codec_get:
  assumes "sshbuf_wf b" "field_valid x" "buf_data b = field_enc x @ rest"
  shows "\<exists>b'. get_field (field_kind x) b = (Inr x, b') \<and> sshbuf_wf b' \<and> same_frame b b' \<and>
    buf_data b' = rest"
  using assms u8.codec_get [of b] u16.codec_get [of b] u32.codec_get [of b] u64.codec_get [of b]
    str.codec_get [of b] cstr.codec_get [of b] mpint.codec_get [of b]
  by (cases x) fastforce+

lemma get_fields_data:
  assumes "sshbuf_wf b" and "list_all field_valid xs"
    and "buf_data b = concat (map field_enc xs) @ rest"
  shows "\<exists>b'. get_fields (map field_kind xs) b = (Inr xs, b') \<and> sshbuf_wf b' \<and> buf_data b' = rest"
  using assms
proof (induction xs arbitrary: b)
  case (Cons x xs)
  obtain b1 where "get_field (field_kind x) b = (Inr x, b1)" "sshbuf_wf b1"
    "buf_data b1 = concat (map field_enc xs) @ rest"
    using field_codec_get [of b x "concat (map field_enc xs) @ rest"] Cons.prems by auto
  with Cons.IH [of b1] Cons.prems show ?case by auto
qed simp

lemma put_field_eq:
  assumes "sshbuf_wf b" and "field_valid x"
  shows "put_field ra b x = sshbuf_put ra b (field_enc x)"
proof (cases x)
  case (FMpint v)
  with assms show ?thesis
    by (simp add: put_bignum2_eq SSHBUF_MAX_BIGNUM_def SSHBUF_SIZE_MAX_def)
qed (use assms in \<open>simp_all add: put_ints put_string_eq put_cstring_eq\<close>)

interpretation field: wire_encoder field_valid field_enc put_field
  by (rule wire_encoderI) (rule put_field_eq)

section \<open>Properties\<close>

text \<open>The equations that run the model on a small buffer.\<close>

lemmas sshbuf_eval = small_buf_def sshbuf_put_def sshbuf_get_def sshbuf_reserve_def
  sshbuf_allocate_def sshbuf_check_reserve_def sshbuf_check_sanity_def sshbuf_consts
  sshbuf_maybe_pack_def size_add_def buf_write_def overwrite_def buf_data_def sshbuf_ptr_def
  sshbuf_consume_def sshbuf_len_def

text \<open>
  (C13) For every sequence of appends and reads on a well-formed buffer, whatever the
  allocator answers: the bytes delivered followed by the bytes still buffered are the
  bytes that were buffered followed by the bytes accepted, the buffer is well-formed
  again (the sanity check is never tripped) and never holds more than its maximum size.
\<close>

theorem sshbuf_run_fifo:
  assumes "sshbuf_wf b" and "fifo_run (sshbuf_put ra) sshbuf_get b ops = (written, delivered, b')"
  shows "buf_data b @ written = delivered @ buf_data b' \<and> sshbuf_wf b' \<and>
    length (buf_data b') \<le> buf_max_size b"
  using sshbuf_fifo.conservation [OF assms] sshbuf_fifo.fifo_bound [of b'] by auto

theorem sshbuf_run_fifo_witness:
  "\<exists>b'. fifo_run (sshbuf_put (Some 7)) sshbuf_get small_buf [Append [1, 2, 3], Take 2, Append [4]]
     = ([1, 2, 3, 4], [1, 2], b') \<and> [1, 2, 3, 4] = [1, 2] @ buf_data b' \<and> sshbuf_wf b'"
proof -
  obtain b' where run: "fifo_run (sshbuf_put (Some 7)) sshbuf_get small_buf
      [Append [1, 2, 3], Take 2, Append [4]] = ([1, 2, 3, 4], [1, 2], b')"
    by (simp add: sshbuf_eval)
  from sshbuf_run_fifo [OF small_buf_wf(1) run] small_buf_wf(3) run show ?thesis by auto
qed

text \<open>
  (C24) Appending to a well-formed buffer when allocation does not fail succeeds exactly when
  the buffer is writable (not read-only, not shared) and the new length is within the
  maximum size; otherwise it returns the error that names the reason, and the contents are
  unchanged.
\<close>

theorem sshbuf_put_functional:
  assumes "sshbuf_wf b" and "sshbuf_put (Some p) b v = (r, b')"
  shows "r = (if \<not> sshbuf_writable b then Inl SSH_ERR_BUFFER_READ_ONLY
      else if length (buf_data b) + length v > buf_max_size b then Inl SSH_ERR_NO_BUFFER_SPACE
      else Inr ())
    \<and> buf_data b' = (if r = Inr () then buf_data b @ v else buf_data b) \<and> sshbuf_wf b'"
  using put_result [OF assms(1), of "Some p" v] put_spec [OF assms] assms(2) by simp

theorem sshbuf_put_functional_witness:
  "\<exists>b'. sshbuf_put (Some 7) small_buf (replicate 17 1) = (Inl SSH_ERR_NO_BUFFER_SPACE, b') \<and>
     buf_data b' = []"
proof -
  obtain r b' where "sshbuf_put (Some 7) small_buf (replicate 17 1) = (r, b')" by fastforce
  from sshbuf_put_functional [OF small_buf_wf(1) this] this show ?thesis
    using small_buf_wf by (simp add: small_buf_def)
qed

text \<open>
  (C18) A message of integers, strings, C strings and multiple-precision integers, put field by
  field into an empty well-formed buffer, is read back field by field exactly as it was put,
  and reading it leaves the buffer empty.
\<close>

theorem sshbuf_message_roundtrip:
  assumes "sshbuf_wf b" and "buf_data b = []" and "list_all field_valid msg"
    and "put_all (put_field ra) b msg = (Inr (), b')"
  shows "\<exists>b''. get_fields (map field_kind msg) b' = (Inr msg, b'') \<and> sshbuf_wf b'' \<and>
    buf_data b'' = []"
  using field.put_all_data [OF assms(1,3,4)] get_fields_data [of b' msg "[]"] assms(2,3) by auto

theorem sshbuf_message_roundtrip_witness:
  "\<exists>b' b''. put_all (put_field (Some 7)) small_buf [FU8 80, FMpint [200], FString [1, 2]] = (Inr (), b') \<and>
     get_fields [KU8, KMpint, KString] b' = (Inr [FU8 80, FMpint [200], FString [1, 2]], b'')"
proof -
  let ?msg = "[FU8 80, FMpint [200], FString [1, 2]]"
  have valid: "list_all field_valid ?msg"
    by (simp add: SSHBUF_MAX_BIGNUM_def SSHBUF_SIZE_MAX_def)
  have "fst (put_all (put_field (Some 7)) small_buf ?msg) = Inr ()"
    by (rule field.put_all_room [OF small_buf_wf(1) valid small_buf_wf(2)])
      (simp_all add: small_buf_wf(3) mpint_body_def, simp add: small_buf_def)
  then obtain b' where put: "put_all (put_field (Some 7)) small_buf ?msg = (Inr (), b')"
    by (metis prod.collapse)
  from sshbuf_message_roundtrip [OF small_buf_wf(1,3) valid put] put show ?thesis by auto
qed

text \<open>
  (C26) A non-negative integer given by big-endian bytes, with or without leading zeros, is put
  and read back as the same number in its shortest form.
\<close>

theorem sshbuf_bignum2_value:
  assumes "sshbuf_wf b" and "buf_data b = []" and "length (strip_zeros v) \<le> SSHBUF_MAX_BIGNUM"
    and "sshbuf_put_bignum2_bytes ra b v = (Inr (), b')"
  shows "\<exists>n b''. sshbuf_get_bignum2_bytes_direct b' = (Inr n, b'') \<and> be_nat n = be_nat v \<and>
    strip_zeros n = n \<and> buf_data b'' = []"
proof -
  have "length v \<le> SSHBUF_SIZE_MAX - 5" and put: "sshbuf_put ra b (enc_string (mpint_body v)) = (Inr (), b')"
    using assms(4) by (auto simp: put_bignum2_eq [OF assms(1)] split: if_splits)
  from put_spec [OF assms(1) put] assms(2)
  have "sshbuf_wf b'" "buf_data b' = enc_string (mpint_body v) @ []" by auto
  from get_bignum2_wf [OF this assms(3)] show ?thesis
    using be_nat_strip_zeros [of v] dropWhile_idem [of "\<lambda>x. x = 0" v] by auto
qed

theorem sshbuf_bignum2_value_witness:
  "\<exists>b' n b''. sshbuf_put_bignum2_bytes (Some 7) small_buf [0, 0, 200, 1] = (Inr (), b') \<and>
     sshbuf_get_bignum2_bytes_direct b' = (Inr n, b'') \<and> be_nat n = 51201"
proof -
  have put: "fst (sshbuf_put_bignum2_bytes (Some 7) small_buf [0, 0, 200, 1]) = Inr ()"
    using put_result [OF small_buf_wf(1), of "Some 7" "enc_string (mpint_body [0, 0, 200, 1])"]
    by (simp add: put_bignum2_eq small_buf_wf mpint_body_def SSHBUF_SIZE_MAX_def)
      (simp add: small_buf_def)
  then obtain b' where b': "sshbuf_put_bignum2_bytes (Some 7) small_buf [0, 0, 200, 1] = (Inr (), b')"
    by (metis prod.collapse)
  have "length (strip_zeros [0, 0, 200, 1]) \<le> SSHBUF_MAX_BIGNUM"
    by (simp add: SSHBUF_MAX_BIGNUM_def)
  from sshbuf_bignum2_value [OF small_buf_wf(1,3) this b'] b' show ?thesis
    by (auto simp: be_nat_def)
qed

text \<open>
  (C25) The zero-copy string read never points outside the data: whatever bytes a well-formed
  buffer holds, an accepted string lies within its contents, directly after its length
  field; a length field that claims more than is there is an error and nothing is consumed.
\<close>

theorem sshbuf_peek_string_in_bounds:
  assumes "sshbuf_wf b"
  shows "case sshbuf_peek_string_direct b of
      Inl e \<Rightarrow> e \<in> {SSH_ERR_MESSAGE_INCOMPLETE, SSH_ERR_STRING_TOO_LARGE} \<and>
        fst (sshbuf_get_string_direct b) = Inl e \<and> snd (sshbuf_get_string_direct b) = b
    | Inr ((p, bytes), len) \<Rightarrow> 4 + len \<le> length (buf_data b) \<and>
        take len bytes = take len (drop 4 (buf_data b)) \<and> len = unat (PEEK_U32 (buf_data b))"
proof -
  obtain p where ptr: "sshbuf_ptr b = Some (p, drop (buf_off b) (buf_mem b))"
    by (rule sshbuf_ptr_wf [OF assms])
  let ?m = "drop (buf_off b) (buf_mem b)"
  have peek: "PEEK_U32 ?m = PEEK_U32 (buf_data b)" if "4 \<le> length (buf_data b)"
    using PEEK_take(2) [of ?m] PEEK_take(2) [of "buf_data b"] ptr_take [OF that] by simp
  have body: "take len (drop 4 ?m) = take len (drop 4 (buf_data b))"
    if "4 + len \<le> length (buf_data b)" for len
  proof -
    have "drop 4 (take (4 + len) ?m) = drop 4 (take (4 + len) (buf_data b))"
      by (simp only: ptr_take [OF that])
    then show ?thesis by (simp add: drop_take)
  qed
  show ?thesis
    using assms ptr peek body
    by (auto simp: sshbuf_peek_string_direct_def sshbuf_get_string_direct_def Let_def)
qed

theorem sshbuf_peek_string_in_bounds_witness:
  "sshbuf_peek_string_direct small_buf = Inl SSH_ERR_MESSAGE_INCOMPLETE \<and>
   fst (sshbuf_get_string_direct small_buf) = Inl SSH_ERR_MESSAGE_INCOMPLETE"
proof -
  have "sshbuf_peek_string_direct small_buf = Inl SSH_ERR_MESSAGE_INCOMPLETE"
    by (simp add: sshbuf_peek_string_direct_def sshbuf_eval)
  then show ?thesis
    using sshbuf_peek_string_in_bounds [OF small_buf_wf(1)] by simp
qed

text \<open>
  (C27) A C string is accepted exactly when it has no nul byte before its last byte; one with
  an embedded nul is rejected and left in the buffer.
\<close>

theorem sshbuf_cstring_no_embedded_nul:
  assumes "sshbuf_wf b" and "buf_data b = enc_string v @ rest" and "length v \<le> SSHBUF_SIZE_MAX - 4"
  shows "if 0 \<in> set (butlast v)
    then sshbuf_get_cstring True b = (Inl SSH_ERR_INVALID_FORMAT, b)
    else \<exists>b'. sshbuf_get_cstring True b = (Inr v, b') \<and> sshbuf_wf b' \<and> buf_data b' = rest"
  using get_cstring_wf [OF assms] by (auto simp: valid_cstring_def)

theorem sshbuf_cstring_no_embedded_nul_witness:
  "\<exists>b. sshbuf_wf b \<and> buf_data b = enc_string [97, 0, 98] \<and>
     sshbuf_get_cstring True b = (Inl SSH_ERR_INVALID_FORMAT, b)"
proof -
  obtain r b where put: "sshbuf_put (Some 7) small_buf (enc_string [97, 0, 98]) = (r, b)" by fastforce
  have "r = Inr ()"
    using put_result [OF small_buf_wf(1), of "Some 7" "enc_string [97, 0, 98]"] put small_buf_wf
    by (simp add: small_buf_def)
  with put_spec [OF small_buf_wf(1) put] small_buf_wf(3)
  have "sshbuf_wf b" "buf_data b = enc_string [97, 0, 98] @ []" by auto
  with sshbuf_cstring_no_embedded_nul [OF this] show ?thesis
    by (auto simp: SSHBUF_SIZE_MAX_def)
qed

text \<open>
  Overwriting in place touches exactly the bytes asked for: on a well-formed buffer a
  \<^verbatim>\<open>poke\<close> whose range lies in the contents replaces that range (and peeking there reads it
  back); a range that ends outside, an offset that would wrap around, or a buffer that is
  not writable is an error and changes nothing.
\<close>

lemma sshbuf_poke_u32_functional:
  assumes "sshbuf_wf b" and "sshbuf_poke_u32 b offset val = (r, b')"
  shows "sshbuf_wf b' \<and>
    (if offset + 4 \<ge> SIZE_MAX then r = Inl SSH_ERR_INVALID_ARGUMENT \<and> b' = b
     else if offset + 4 > length (buf_data b) then r = Inl SSH_ERR_NO_BUFFER_SPACE \<and> b' = b
     else if \<not> sshbuf_writable b then r = Inl SSH_ERR_BUFFER_READ_ONLY \<and> b' = b
     else r = Inr () \<and> buf_data b' = overwrite offset (POKE_U32 val) (buf_data b) \<and>
       sshbuf_peek_u32 b' offset = Inr val)"
proof -
  have "sshbuf_poke b offset (POKE_U32 val) = (r, b')"
    using assms(2) by (simp add: poke_ints)
  moreover have "(4::nat) \<le> SIZE_MAX" by (simp add: SIZE_MAX_def)
  ultimately have spec: "sshbuf_wf b' \<and> same_frame b b' \<and>
    (if offset + 4 \<ge> SIZE_MAX then r = Inl SSH_ERR_INVALID_ARGUMENT \<and> b' = b
     else if offset + 4 > length (buf_data b) then r = Inl SSH_ERR_NO_BUFFER_SPACE \<and> b' = b
     else if \<not> sshbuf_writable b then r = Inl SSH_ERR_BUFFER_READ_ONLY \<and> b' = b
     else r = Inr () \<and> buf_data b' = overwrite offset (POKE_U32 val) (buf_data b))"
    using poke_spec [OF assms(1), of "POKE_U32 val" offset r b'] by simp
  moreover have "sshbuf_peek_u32 b' offset = Inr val"
    if data: "buf_data b' = overwrite offset (POKE_U32 val) (buf_data b)"
      and le: "offset + 4 \<le> length (buf_data b)"
  proof -
    have "offset + 4 \<le> length (buf_data b')"
      using data le by simp
    then obtain q where q: "check_roffset b' offset 4 = Inr q"
      and "take 4 q = take 4 (drop offset (buf_data b'))"
      using check_roffset_ok [of b' offset 4] spec by metis
    then have "take 4 q = POKE_U32 val"
      using slice_overwrite [of offset "POKE_U32 val" "buf_data b"] data le by simp
    then have "PEEK_U32 q = val"
      using PEEK_take(2) [of q] PEEK_POKE_U32 [of val "[]"] by simp
    with q show ?thesis by (simp add: sshbuf_peek_u32_def)
  qed
  ultimately show ?thesis by (auto split: if_splits)
qed

end
