(* ===== verification/Sshbuf_Ref.thy ===== *)
theory Sshbuf_Ref
  imports Sshbuf_GetPut
begin

text \<open>
  Buffers that share memory, from \<^verbatim>\<open>sshbuf.c\<close> and \<^verbatim>\<open>sshbuf-getput-basic.c\<close>: a child refers to the bytes of its parent, and the
  reference count of a buffer keeps it alive until its children are gone.  The buffers are in a store, by the address of their structure; an access to
  a structure that is not there, such as one that has been freed, has no result.
\<close>

type_synonym store = "nat \<rightharpoonup> sshbuf"

section \<open>Operations\<close>

definition sshbuf_set_parent :: "nat \<Rightarrow> nat \<Rightarrow> store \<Rightarrow> ((ssh_err + unit) \<times> store) option" where
  "sshbuf_set_parent child parent h =
     (case h child of None \<Rightarrow> None
      | Some c \<Rightarrow>
        (case sshbuf_check_sanity c of Inl e \<Rightarrow> Some (Inl e, h)
         | Inr _ \<Rightarrow>
           (case h parent of None \<Rightarrow> None
            | Some p \<Rightarrow>
              (case sshbuf_check_sanity p of Inl e \<Rightarrow> Some (Inl e, h)
               | Inr _ \<Rightarrow>
                 if (buf_parent c \<noteq> None \<and> buf_parent c \<noteq> Some parent) \<or> child = parent
                 then Some (Inl SSH_ERR_INTERNAL_ERROR, h)
                 else Some (Inr (), h(child \<mapsto> c\<lparr>buf_parent := Some parent\<rparr>,
                                      parent \<mapsto> p\<lparr>buf_refcount := buf_refcount p + 1\<rparr>))))))"

text \<open>The recursion follows the parents; it has no result if an access fails or the parents form a cycle that it does not leave.\<close>

partial_function (option) sshbuf_free :: "nat option \<Rightarrow> store \<Rightarrow> store option" where
  "sshbuf_free buf h =
     (case buf of None \<Rightarrow> Some h
      | Some a \<Rightarrow>
        (case h a of None \<Rightarrow> None
         | Some b \<Rightarrow>
           if sshbuf_check_sanity b \<noteq> Inr () then Some h
           else let b1 = b\<lparr>buf_refcount := buf_refcount b - 1\<rparr>; h1 = h(a \<mapsto> b1) in
             if buf_refcount b1 > 0 then Some h1
             else Option.bind (sshbuf_free (buf_parent b1) h1) (\<lambda>h2. Some (h2(a := None)))))"

definition sshbuf_fromb :: "nat option \<Rightarrow> nat \<Rightarrow> store \<Rightarrow> (nat option \<times> store) option" where
  "sshbuf_fromb sp buf h =
     (case h buf of None \<Rightarrow> None
      | Some b \<Rightarrow>
        if sshbuf_check_sanity b \<noteq> Inr () then Some (None, h)
        else case sshbuf_from sp (sshbuf_ptr b) (sshbuf_len b) of None \<Rightarrow> Some (None, h)
        | Some ret \<Rightarrow>
            (case sshbuf_set_parent (buf_self ret) buf (h(buf_self ret \<mapsto> ret)) of None \<Rightarrow> None
             | Some (Inr _, h) \<Rightarrow> Some (Some (buf_self ret), h)
             | Some (Inl _, h) \<Rightarrow> map_option (\<lambda>h. (None, h)) (sshbuf_free (Some (buf_self ret)) h)))"

definition sshbuf_froms :: "nat option \<Rightarrow> nat \<Rightarrow> store \<Rightarrow> ((ssh_err + nat) \<times> store) option" where
  "sshbuf_froms sp buf h =
     (case h buf of None \<Rightarrow> None
      | Some b \<Rightarrow>
        (case sshbuf_peek_string_direct b of Inl e \<Rightarrow> Some (Inl e, h)
         | Inr (p, len) \<Rightarrow>
           (case sshbuf_from sp (Some p) len of None \<Rightarrow> Some (Inl SSH_ERR_ALLOC_FAIL, h)
            | Some ret \<Rightarrow>
              let (r, b1) = sshbuf_consume b (size_add len 4); h1 = h(buf \<mapsto> b1, buf_self ret \<mapsto> ret) in
              (case r of Inl e \<Rightarrow> map_option (\<lambda>h. (Inl e, h)) (sshbuf_free (Some (buf_self ret)) h1)
               | Inr _ \<Rightarrow>
                 (case sshbuf_set_parent (buf_self ret) buf h1 of None \<Rightarrow> None
                  | Some (Inr _, h) \<Rightarrow> Some (Inr (buf_self ret), h)
                  | Some (Inl e, h) \<Rightarrow> map_option (\<lambda>h. (Inl e, h)) (sshbuf_free (Some (buf_self ret)) h))))))"

definition sshbuf_consume_upto_child :: "nat \<Rightarrow> nat \<Rightarrow> store \<Rightarrow> ((ssh_err + unit) \<times> store) option" where
  "sshbuf_consume_upto_child buf child h =
     (case h buf of None \<Rightarrow> None
      | Some b \<Rightarrow>
        (case sshbuf_check_sanity b of Inl e \<Rightarrow> Some (Inl e, h)
         | Inr _ \<Rightarrow>
           (case h child of None \<Rightarrow> None
            | Some c \<Rightarrow>
              (case sshbuf_check_sanity c of Inl e \<Rightarrow> Some (Inl e, h)
               | Inr _ \<Rightarrow>
                 if buf_parent c \<noteq> Some buf then Some (Inl SSH_ERR_INVALID_ARGUMENT, h)
                 else if sshbuf_len c > sshbuf_len b then Some (Inl SSH_ERR_INVALID_ARGUMENT, h)
                 else if the (buf_cd c) < the (buf_cd b) then Some (Inl SSH_ERR_INTERNAL_ERROR, h)
                 else let (r, b1) = sshbuf_consume b (sshbuf_len b - sshbuf_len c) in Some (r, h(buf \<mapsto> b1))))))"

section \<open>Reference counts\<close>

definition children :: "store \<Rightarrow> nat \<Rightarrow> nat set" where
  "children h a = {c. \<exists>b. h c = Some b \<and> buf_parent b = Some a}"

text \<open>
  The invariant; \<open>own\<close> is the number of references to a buffer that its users hold.
\<close>

definition buf_ok :: "store \<Rightarrow> (nat \<Rightarrow> nat) \<Rightarrow> nat \<Rightarrow> sshbuf \<Rightarrow> bool" where
  "buf_ok h own a b \<longleftrightarrow> buf_self b = a \<and> sshbuf_check_sanity b = Inr () \<and> buf_refcount b = own a + card (children h a) \<and>
     (\<forall>p. buf_parent b = Some p \<longrightarrow> p \<in> dom h)"

definition refs_ok :: "store \<Rightarrow> (nat \<Rightarrow> nat) \<Rightarrow> bool" where
  "refs_ok h own \<longleftrightarrow> finite (dom h) \<and> (\<forall>a. 0 < own a \<longrightarrow> a \<in> dom h) \<and> acyclic {(c, p). c \<in> children h p} \<and>
     (\<forall>a b. h a = Some b \<longrightarrow> buf_ok h own a b)"

lemma sane_refcount:
  "sshbuf_check_sanity b = Inr () \<Longrightarrow> 0 < n \<Longrightarrow> n \<le> SSHBUF_REFS_MAX \<Longrightarrow> sshbuf_check_sanity (b\<lparr>buf_refcount := n\<rparr>) = Inr ()"
  "sshbuf_check_sanity b = Inr () \<Longrightarrow> 0 < buf_refcount b \<and> buf_refcount b \<le> SSHBUF_REFS_MAX \<and> buf_parent b \<noteq> Some (buf_self b)"
  by (auto simp: sshbuf_check_sanity_def split: if_splits)

lemma children_finite: "finite (dom h) \<Longrightarrow> finite (children h a)"
  by (rule finite_subset [of _ "dom h"]) (auto simp: children_def)

lemma children_upd:
  "buf_parent b' = buf_parent b \<Longrightarrow> h a = Some b \<Longrightarrow> children (h(a \<mapsto> b')) = children h"
  by (intro ext) (auto simp: children_def)

lemma children_del: "children (h(a := None)) p = children h p - {a}"
  by (auto simp: children_def)

lemma children_new: "h a = None \<Longrightarrow> children (h(a \<mapsto> b)) p = (if buf_parent b = Some p then insert a (children h p) else children h p)"
  by (auto simp: children_def)

text \<open>A buffer that \<^verbatim>\<open>sshbuf_free\<close> does not reach makes no difference to it.\<close>

lemma free_frame:
  assumes "sshbuf_free p h = Some h'"
  shows "\<forall>a x. h a = None \<longrightarrow> sshbuf_free p (h(a \<mapsto> x)) = Some (h'(a \<mapsto> x)) \<and> h' a = None"
proof (rule sshbuf_free.raw_induct [OF _ assms], intro allI impI)
  fix f :: "nat option \<Rightarrow> store \<Rightarrow> store option" and p h h' a x
  assume IH: "\<And>p h h'. f p h = Some h' \<Longrightarrow> \<forall>a x. h a = None \<longrightarrow> sshbuf_free p (h(a \<mapsto> x)) = Some (h'(a \<mapsto> x)) \<and> h' a = None"
    and r: "(case p of None \<Rightarrow> Some h
      | Some a \<Rightarrow>
        (case h a of None \<Rightarrow> None
         | Some b \<Rightarrow>
           if sshbuf_check_sanity b \<noteq> Inr () then Some h
           else let b1 = b\<lparr>buf_refcount := buf_refcount b - 1\<rparr>; h1 = h(a \<mapsto> b1) in
             if buf_refcount b1 > 0 then Some h1
             else Option.bind (f (buf_parent b1) h1) (\<lambda>h2. Some (h2(a := None))))) = Some h'"
    and a: "h a = None"
  show "sshbuf_free p (h(a \<mapsto> x)) = Some (h'(a \<mapsto> x)) \<and> h' a = None"
  proof (cases p)
    case None
    with r a show ?thesis by (subst sshbuf_free.simps) simp
  next
    case (Some c)
    with r obtain b where "h c = Some b" by (cases "h c") auto
    then have b: "h c = Some b" "c \<noteq> a" using a by auto
    let ?b = "b\<lparr>buf_refcount := buf_refcount b - 1\<rparr>"
    show ?thesis
    proof (cases "sshbuf_check_sanity b \<noteq> Inr () \<or> buf_refcount b - 1 > 0")
      case True
      with r a Some b show ?thesis by (subst sshbuf_free.simps) (auto simp: Let_def fun_upd_twist)
    next
      case False
      with r Some b obtain h2 where h2: "f (buf_parent b) (h(c \<mapsto> ?b)) = Some h2" "h' = h2(c := None)"
        by (auto simp: Let_def bind_eq_Some_conv)
      from IH [OF h2(1)] a b have "sshbuf_free (buf_parent b) (h(c \<mapsto> ?b, a \<mapsto> x)) = Some (h2(a \<mapsto> x)) \<and> h2 a = None" by simp
      then show ?thesis
        using False Some b h2(2) by (subst sshbuf_free.simps) (simp add: Let_def fun_upd_twist [of c a])
    qed
  qed
qed

text \<open>Dropping a reference that somebody holds always succeeds.\<close>

lemma free_ok:
  assumes "refs_ok h own" "0 < own a"
  shows "\<exists>h'. sshbuf_free (Some a) h = Some h' \<and> refs_ok h' (own(a := own a - 1))"
  using assms
proof (induction "card (dom h)" arbitrary: h own a rule: less_induct)
  case less
  note inv = less.prems(1) [unfolded refs_ok_def]
  obtain b where b: "h a = Some b" using inv less.prems(2) by blast
  have ok: "buf_self b = a" "sshbuf_check_sanity b = Inr ()" "buf_refcount b = own a + card (children h a)"
    "\<And>p. buf_parent b = Some p \<Longrightarrow> p \<in> dom h" using inv b by (auto simp: buf_ok_def)
  let ?b = "b\<lparr>buf_refcount := buf_refcount b - 1\<rparr>"
  have "finite (dom h)" using inv by blast
  show ?case
  proof (cases "buf_refcount b - 1 > 0")
    case True
    have "children (h(a \<mapsto> ?b)) = children h" using b by (intro children_upd) simp_all
    moreover have "sshbuf_check_sanity ?b = Inr ()" using True sane_refcount ok(2) by (intro sane_refcount) (auto dest: sane_refcount(2))
    ultimately have "refs_ok (h(a \<mapsto> ?b)) (own(a := own a - 1))"
      using inv b ok less.prems(2) by (auto simp: refs_ok_def buf_ok_def split: if_splits)
    then show ?thesis using b ok(2) True by (subst sshbuf_free.simps) (simp add: Let_def)
  next
    case False
    then have "own a = 1 \<and> card (children h a) = 0" using ok(3) less.prems(2) by arith
    then have own: "own a = 1" "children h a = {}" using children_finite [OF \<open>finite (dom h)\<close>, of a] by simp_all
    let ?h = "h(a := None)"
    have fin: "card (dom ?h) < card (dom h)" using b \<open>finite (dom h)\<close> by (intro psubset_card_mono) auto
    have acyc: "acyclic {(c, p). c \<in> children ?h p}" using inv by (rule_tac acyclic_subset [of "{(c, p). c \<in> children h p}"]) (auto simp: children_del)
    have alive: "p \<in> dom ?h" if "h c = Some d" "buf_parent d = Some p" "c \<noteq> a" for c d p
      using that inv own(2) by (auto simp: buf_ok_def children_def)
    show ?thesis
    proof (cases "buf_parent b")
      case None
      have "a \<notin> children h p" for p using None b by (auto simp: children_def)
      then have "refs_ok ?h (own(a := own a - 1))"
        using inv own acyc alive by (auto simp: refs_ok_def buf_ok_def children_del)
      moreover have "sshbuf_free None g = Some g" for g by (subst sshbuf_free.simps) simp
      ultimately show ?thesis using b ok(2) False None by (subst sshbuf_free.simps) (simp add: Let_def)
    next
      case (Some p)
      have p: "p \<noteq> a" "p \<in> dom h" using ok Some sane_refcount(2) by auto
      have mem: "a \<in> children h q \<longleftrightarrow> q = p" for q using Some b by (auto simp: children_def)
      have "card (children h p) = card (children ?h p) + 1"
        unfolding children_del using card.remove [OF children_finite [OF \<open>finite (dom h)\<close>], of a p] mem [of p] by linarith
      then have "refs_ok ?h ((own(a := 0))(p := own p + 1))"
        using inv own acyc alive mem p by (auto simp: refs_ok_def buf_ok_def children_del)
      from less.hyps [OF fin this, of p] p obtain h' where h': "sshbuf_free (Some p) ?h = Some h'"
        "refs_ok h' (((own(a := 0))(p := own p + 1))(p := own p))" by auto
      have "((own(a := 0))(p := own p + 1))(p := own p) = own(a := own a - 1)" using own p by (auto simp: fun_eq_iff)
      moreover have "sshbuf_free (Some p) (h(a \<mapsto> ?b)) = Some (h'(a \<mapsto> ?b)) \<and> h' a = None"
        using free_frame [OF h'(1)] by (metis fun_upd_same fun_upd_upd)
      moreover have "h'(a := None) = h'" if "h' a = None" using that by auto
      ultimately show ?thesis using h'(2) b ok(2) False Some by (subst sshbuf_free.simps) (simp add: Let_def)
    qed
  qed
qed

lemma from_ok:
  assumes "sshbuf_from sp blob len = Some b"
  shows "sshbuf_check_sanity b = Inr ()" "buf_refcount b = 1" "buf_parent b = None" "sp = Some (buf_self b)"
  using assms by (auto simp: sshbuf_from_def sshbuf_check_sanity_def SSHBUF_REFS_MAX_def split: option.splits if_splits prod.splits)

lemma new_ok:
  assumes "sshbuf_new sp dp = Some b"
  shows "sshbuf_check_sanity b = Inr ()" "buf_refcount b = 1" "buf_parent b = None" "sp = Some (buf_self b)"
  using assms by (auto simp: sshbuf_new_def sshbuf_check_sanity_def sshbuf_consts split: option.splits)

text \<open>A new buffer without parent.\<close>

lemma add_ok:
  assumes "refs_ok h own" "h a = None" and b: "sshbuf_check_sanity b = Inr ()" "buf_refcount b = 1" "buf_parent b = None" "buf_self b = a"
  shows "refs_ok (h(a \<mapsto> b)) (own(a := 1))"
proof -
  have "children h a = {}" using assms(1,2) by (fastforce simp: refs_ok_def buf_ok_def children_def)
  then show ?thesis using assms by (auto simp: refs_ok_def buf_ok_def children_new)
qed

text \<open>Changing a buffer in place.\<close>

lemma change_ok:
  assumes "refs_ok h own" "h a = Some b" and b: "sshbuf_check_sanity b' = Inr ()" "buf_refcount b' = buf_refcount b" "buf_parent b' = buf_parent b"
    "buf_self b' = buf_self b"
  shows "refs_ok (h(a \<mapsto> b')) own"
proof -
  have "children (h(a \<mapsto> b')) = children h" using assms by (intro children_upd) simp_all
  then show ?thesis using assms by (auto simp: refs_ok_def buf_ok_def)
qed

lemma set_parent_ok:
  assumes inv: "refs_ok h own" and c: "h c = Some cb" "buf_parent cb = None" "children h c = {}" and p: "h p = Some pb" "c \<noteq> p"
    and room: "buf_refcount pb < SSHBUF_REFS_MAX"
  shows "\<exists>h'. sshbuf_set_parent c p h = Some (Inr (), h') \<and> refs_ok h' own"
proof -
  have ok: "sshbuf_check_sanity cb = Inr ()" "sshbuf_check_sanity pb = Inr ()" "buf_self cb = c" using inv c(1) p(1) by (auto simp: refs_ok_def buf_ok_def)
  define c' where "c' = cb\<lparr>buf_parent := Some p\<rparr>"
  define p' where "p' = pb\<lparr>buf_refcount := Suc (buf_refcount pb)\<rparr>"
  define g where "g = h(c \<mapsto> c', p \<mapsto> p')"
  have g: "g c = Some c'" "g p = Some p'" "\<And>x. x \<noteq> c \<Longrightarrow> x \<noteq> p \<Longrightarrow> g x = h x" "dom g = dom h" using c(1) p by (auto simp: g_def)
  have ch: "children g q = (if q = p then insert c (children h p) else children h q)" for q
    using c(1,2) p by (auto simp: children_def g_def c'_def p'_def)
  have "c \<notin> children h p" using c(1,2) by (auto simp: children_def)
  moreover have "finite (children h p)" using inv children_finite by (auto simp: refs_ok_def)
  ultimately have card: "card (children g p) = Suc (card (children h p))" unfolding ch by simp
  have edges: "{(x, q). x \<in> children g q} = insert (c, p) {(x, q). x \<in> children h q}" by (auto simp: ch split: if_splits)
  have "(p, c) \<notin> {(x, q). x \<in> children h q}\<^sup>*"
  proof
    assume "(p, c) \<in> {(x, q). x \<in> children h q}\<^sup>*"
    then show False using c(3) p(2) by (cases rule: rtranclE) auto
  qed
  then have acyc: "acyclic {(x, q). x \<in> children g q}" using inv unfolding edges by (simp add: acyclic_insert refs_ok_def)
  have "buf_ok g own c c'" using inv c(1) ok p by (auto simp: refs_ok_def buf_ok_def ch g(4) c'_def sshbuf_check_sanity_def split: if_splits)
  moreover have "buf_ok g own p p'"
    using inv p(1) sane_refcount(1) [OF ok(2), of "Suc (buf_refcount pb)"] room card by (auto simp: refs_ok_def buf_ok_def g(4) p'_def)
  moreover have "buf_ok g own x b" if "h x = Some b" "x \<noteq> c" "x \<noteq> p" for x b using inv that by (auto simp: refs_ok_def buf_ok_def ch g(4))
  ultimately have "buf_ok g own x b" if "g x = Some b" for x b using that g by (cases "x = c"; cases "x = p") auto
  then have "refs_ok g own" using inv acyc g(4) by (simp add: refs_ok_def)
  then show ?thesis using c p ok by (simp add: sshbuf_set_parent_def g_def c'_def p'_def)
qed

text \<open>A new child.\<close>

lemma child_ok:
  assumes inv: "refs_ok h own" and a: "h a = None" and p: "h p = Some pb" "buf_refcount pb < SSHBUF_REFS_MAX"
    and r: "sshbuf_from (Some a) blob len = Some ret"
  shows "buf_self ret = a" "\<exists>h'. sshbuf_set_parent a p (h(a \<mapsto> ret)) = Some (Inr (), h') \<and> refs_ok h' (own(a := 1))"
proof -
  note ret = from_ok [OF r]
  show "buf_self ret = a" using ret by simp
  have "refs_ok (h(a \<mapsto> ret)) (own(a := 1))" using inv a ret by (intro add_ok) auto
  moreover have "children h a = {}" using inv a by (fastforce simp: refs_ok_def buf_ok_def children_def)
  moreover have "a \<noteq> p" using a p by auto
  ultimately show "\<exists>h'. sshbuf_set_parent a p (h(a \<mapsto> ret)) = Some (Inr (), h') \<and> refs_ok h' (own(a := 1))"
    using set_parent_ok [of "h(a \<mapsto> ret)" "own(a := 1)" a ret p pb] a p ret by (auto simp: children_new)
qed

lemma fromb_ok:
  assumes inv: "refs_ok h own" and a: "h a = None" and p: "h p = Some pb" "buf_refcount pb < SSHBUF_REFS_MAX"
  shows "\<exists>r h'. sshbuf_fromb (Some a) p h = Some (r, h') \<and> r \<in> {None, Some a} \<and> refs_ok h' (if r = None then own else own(a := 1))"
proof (cases "sshbuf_from (Some a) (sshbuf_ptr pb) (sshbuf_len pb)")
  case None
  then show ?thesis using inv p by (auto simp: sshbuf_fromb_def refs_ok_def buf_ok_def)
next
  case (Some ret)
  from child_ok [OF inv a p Some] obtain h' where "sshbuf_set_parent a p (h(a \<mapsto> ret)) = Some (Inr (), h')" "refs_ok h' (own(a := 1))" "buf_self ret = a"
    by blast
  then show ?thesis using inv p Some by (auto simp: sshbuf_fromb_def refs_ok_def buf_ok_def)
qed

lemma consume_sane:
  assumes "sshbuf_check_sanity b = Inr ()" "sshbuf_consume b n = (r, b')"
  shows "sshbuf_check_sanity b' = Inr ()" "buf_refcount b' = buf_refcount b" "buf_parent b' = buf_parent b" "buf_self b' = buf_self b"
proof -
  have lim: "buf_size b \<le> SSHBUF_SIZE_MAX" "buf_off b \<le> buf_size b" using assms(1) by (auto simp: sshbuf_check_sanity_def split: if_splits)
  have "size_add (buf_off b) n = buf_off b + n" if "n \<le> buf_size b - buf_off b"
    using that lim by (simp add: size_add_def SIZE_MAX_def SSHBUF_SIZE_MAX_def)
  then show "sshbuf_check_sanity b' = Inr ()" "buf_refcount b' = buf_refcount b" "buf_parent b' = buf_parent b" "buf_self b' = buf_self b"
    using assms lim by (auto simp: sshbuf_consume_def sshbuf_len_def sshbuf_check_sanity_def Let_def split: if_splits)
qed

lemma froms_ok:
  assumes inv: "refs_ok h own" and a: "h a = None" and p: "h p = Some pb" "buf_refcount pb < SSHBUF_REFS_MAX"
  shows "\<exists>r h'. sshbuf_froms (Some a) p h = Some (r, h') \<and> (\<forall>c. r = Inr c \<longrightarrow> c = a) \<and>
    refs_ok h' (case r of Inl e \<Rightarrow> own | Inr c \<Rightarrow> own(a := 1))"
proof (cases "sshbuf_peek_string_direct pb")
  case (Inl e)
  then show ?thesis using inv p by (auto simp: sshbuf_froms_def)
next
  case (Inr x)
  then obtain q len where q: "sshbuf_peek_string_direct pb = Inr (q, len)" by (cases x) simp
  show ?thesis
  proof (cases "sshbuf_from (Some a) (Some q) len")
    case None
    then show ?thesis using inv p q by (auto simp: sshbuf_froms_def)
  next
    case (Some ret)
    obtain r b1 where c: "sshbuf_consume pb (size_add len 4) = (r, b1)" by (cases "sshbuf_consume pb (size_add len 4)") simp
    have sane: "sshbuf_check_sanity pb = Inr ()" using inv p(1) by (auto simp: refs_ok_def buf_ok_def)
    note b1 = consume_sane [OF sane c]
    have "a \<noteq> p" using a p by auto
    from change_ok [OF inv p(1) b1] have inv1: "refs_ok (h(p \<mapsto> b1)) own" .
    from child_ok [OF inv1 _ _ _ Some, of p b1] a p b1 \<open>a \<noteq> p\<close> obtain h' where
      h': "sshbuf_set_parent a p (h(p \<mapsto> b1, a \<mapsto> ret)) = Some (Inr (), h')" "refs_ok h' (own(a := 1))" "buf_self ret = a"
      by auto
    show ?thesis
    proof (cases r)
      case (Inr u)
      then show ?thesis using p q Some c h' by (auto simp: sshbuf_froms_def)
    next
      case (Inl e)
      have "refs_ok (h(p \<mapsto> b1, a \<mapsto> ret)) (own(a := 1))"
        using add_ok [OF inv1, of a ret] a \<open>a \<noteq> p\<close> from_ok [OF Some] by simp
      from free_ok [OF this, of a] obtain g where "sshbuf_free (Some a) (h(p \<mapsto> b1, a \<mapsto> ret)) = Some g" "refs_ok g (own(a := 0))" by auto
      moreover have "own a = 0" using inv a by (auto simp: refs_ok_def)
      then have "own(a := 0) = own" by auto
      ultimately show ?thesis using p q Some c Inl h'(3) by (auto simp: sshbuf_froms_def)
    qed
  qed
qed

section \<open>Programs that use buffers\<close>

text \<open>
  The states that a program reaches which creates buffers and children, works on the buffers it holds, and frees each that it holds once.  It does not
  make more than \<^const>\<open>SSHBUF_REFS_MAX\<close> references to a buffer.
\<close>

inductive ref_run :: "store \<Rightarrow> (nat \<Rightarrow> nat) \<Rightarrow> bool" where
  start: "ref_run Map.empty (\<lambda>_. 0)"
| new: "ref_run h own \<Longrightarrow> h a = None \<Longrightarrow> sshbuf_new (Some a) dp = Some b \<Longrightarrow> ref_run (h(a \<mapsto> b)) (own(a := 1))"
| from_blob: "ref_run h own \<Longrightarrow> h a = None \<Longrightarrow> sshbuf_from (Some a) blob len = Some b \<Longrightarrow> ref_run (h(a \<mapsto> b)) (own(a := 1))"
| fromb: "ref_run h own \<Longrightarrow> h a = None \<Longrightarrow> 0 < own p \<Longrightarrow> h p = Some b \<Longrightarrow> buf_refcount b < SSHBUF_REFS_MAX \<Longrightarrow>
    sshbuf_fromb (Some a) p h = Some (r, h') \<Longrightarrow> ref_run h' (case r of None \<Rightarrow> own | Some c \<Rightarrow> own(c := 1))"
| froms: "ref_run h own \<Longrightarrow> h a = None \<Longrightarrow> 0 < own p \<Longrightarrow> h p = Some b \<Longrightarrow> buf_refcount b < SSHBUF_REFS_MAX \<Longrightarrow>
    sshbuf_froms (Some a) p h = Some (r', h') \<Longrightarrow> ref_run h' (case r' of Inl e \<Rightarrow> own | Inr c \<Rightarrow> own(c := 1))"
| upto: "ref_run h own \<Longrightarrow> 0 < own a \<Longrightarrow> 0 < own c \<Longrightarrow> sshbuf_consume_upto_child a c h = Some (r'', h') \<Longrightarrow> ref_run h' own"
| work: "ref_run h own \<Longrightarrow> 0 < own a \<Longrightarrow> h a = Some b \<Longrightarrow> sshbuf_check_sanity b' = Inr () \<Longrightarrow> same_frame b b' \<Longrightarrow> ref_run (h(a \<mapsto> b')) own"
| free: "ref_run h own \<Longrightarrow> 0 < own a \<Longrightarrow> sshbuf_free (Some a) h = Some h' \<Longrightarrow> ref_run h' (own(a := own a - 1))"

lemma upto_ok:
  assumes "refs_ok h own" "0 < own a" "0 < own c" "sshbuf_consume_upto_child a c h = Some (r, h')"
  shows "refs_ok h' own"
proof -
  have "a \<in> dom h" "c \<in> dom h" using assms(1-3) by (auto simp: refs_ok_def)
  then obtain b d where bd: "h a = Some b" "h c = Some d" by blast
  have "sshbuf_check_sanity b = Inr ()" "sshbuf_check_sanity d = Inr ()" using assms(1) bd by (auto simp: refs_ok_def buf_ok_def)
  then have "h' = h \<or> (\<exists>n r b'. sshbuf_consume b n = (r, b') \<and> h' = h(a \<mapsto> b'))"
    using assms(4) bd by (auto simp: sshbuf_consume_upto_child_def Let_def split: if_splits prod.splits)
  then show ?thesis using assms(1) change_ok [OF assms(1) bd(1)] consume_sane [OF \<open>sshbuf_check_sanity b = Inr ()\<close>] by blast
qed

lemma ref_run_ok: "ref_run h own \<Longrightarrow> refs_ok h own"
proof (induction rule: ref_run.induct)
  case start
  show ?case by (simp add: refs_ok_def children_def acyclic_def)
next
  case (new h own a dp b)
  then show ?case using new_ok [of "Some a" dp b] by (intro add_ok) auto
next
  case (from_blob h own a blob len b)
  then show ?case using from_ok [of "Some a" blob len b] by (intro add_ok) auto
next
  case (fromb h own a p b r h')
  from fromb_ok [OF fromb.IH fromb.hyps(2,4,5)] fromb.hyps(6) show ?case by (cases r) (auto simp: fun_upd_def)
next
  case (froms h own a p b r h')
  from froms_ok [OF froms.IH froms.hyps(2,4,5)] froms.hyps(6) show ?case by (cases r) (auto simp: fun_upd_def)
next
  case (upto h own a c r h')
  then show ?case using upto_ok by blast
next
  case (work h own a b b')
  then show ?case by (intro change_ok) (auto simp: same_frame_def)
next
  case (free h own a h')
  from free_ok [OF free.IH free.hyps(2)] free.hyps(3) show ?case by (auto simp: fun_upd_def)
qed

lemma parent_alive: "refs_ok h own \<Longrightarrow> h a = Some b \<Longrightarrow> buf_parent b = Some p \<Longrightarrow> \<exists>y. h p = Some y"
  unfolding refs_ok_def buf_ok_def by blast

lemma no_owner_empty:
  assumes "refs_ok h own" "\<forall>a. own a = 0"
  shows "h = Map.empty"
proof (rule ccontr)
  assume "h \<noteq> Map.empty"
  then obtain x where x: "x \<in> dom h" by auto
  let ?r = "{(c, p). c \<in> children h p}"
  have sub: "?r \<subseteq> dom h \<times> dom h" using parent_alive [OF assms(1)] by (auto simp: children_def)
  have "finite (dom h)" using assms(1) by (simp add: refs_ok_def)
  then have "finite ?r" using finite_subset [OF sub] by blast
  then have "wf ?r" using assms(1) by (intro finite_acyclic_wf) (simp_all add: refs_ok_def)
  then obtain z where z: "z \<in> dom h" "\<And>y. (y, z) \<in> ?r \<Longrightarrow> y \<notin> dom h" using x wfE_min by metis
  obtain b where b: "h z = Some b" using z(1) by blast
  then have "buf_ok h own z b" using assms(1) by (simp add: refs_ok_def)
  then have "buf_refcount b = card (children h z)" "0 < buf_refcount b"
    using assms(2) sane_refcount(2) [of b] by (simp_all add: buf_ok_def)
  then obtain y where "y \<in> children h z" by (auto simp: card_gt_0_iff)
  then show False using z(2) [of y] by (auto simp: children_def)
qed

text \<open>
  (C12) Buffers that share memory are freed when, and only when, nobody can reach them.  In every program that frees each buffer it holds once, a buffer that
  is held and the parent of every buffer exist, freeing a held buffer succeeds, a held buffer with children cannot be written to, so
  that the bytes of the children stay, and once no buffer is held any more, none is left.
\<close>

theorem sshbuf_references:
  assumes "ref_run h own"
  shows "(\<forall>a. 0 < own a \<longrightarrow> a \<in> dom h \<and> (\<exists>h'. sshbuf_free (Some a) h = Some h')) \<and>
    (\<forall>a b p. h a = Some b \<and> buf_parent b = Some p \<longrightarrow> p \<in> dom h) \<and>
    (\<forall>a b. h a = Some b \<and> 0 < own a \<and> children h a \<noteq> {} \<longrightarrow> \<not> sshbuf_writable b) \<and>
    ((\<forall>a. own a = 0) \<longrightarrow> h = Map.empty)"
proof -
  note ok = ref_run_ok [OF assms]
  have "\<not> sshbuf_writable b" if "h a = Some b" "0 < own a" "children h a \<noteq> {}" for a b
  proof -
    have "0 < card (children h a)" using that(3) ok children_finite by (auto simp: refs_ok_def card_gt_0_iff)
    then show ?thesis using ok that by (auto simp: refs_ok_def buf_ok_def sshbuf_writable_def)
  qed
  moreover have "a \<in> dom h" if "0 < own a" for a using ok that by (simp add: refs_ok_def)
  moreover have "\<exists>h'. sshbuf_free (Some a) h = Some h'" if "0 < own a" for a using free_ok [OF ok that] by blast
  ultimately show ?thesis using parent_alive [OF ok] no_owner_empty [OF ok] by blast
qed

theorem sshbuf_references_witness:
  "\<exists>b r h. sshbuf_new (Some 1) (Some 100) = Some b \<and> sshbuf_fromb (Some 2) 1 [1 \<mapsto> b] = Some (r, h) \<and>
    1 \<in> dom h \<and> (\<exists>h'. sshbuf_free (Some 1) h = Some h')"
proof -
  obtain b where b: "sshbuf_new (Some 1) (Some 100) = Some b" by (simp add: sshbuf_new_def)
  have run1: "ref_run [1 \<mapsto> b] ((\<lambda>_. 0)(1 := 1))" using ref_run.new [OF ref_run.start _ b] by simp
  have "buf_refcount b < SSHBUF_REFS_MAX" using new_ok(2) [OF b] by (simp add: SSHBUF_REFS_MAX_def)
  moreover from fromb_ok [OF ref_run_ok [OF run1], of 2 1 b] this obtain r h where
    r: "sshbuf_fromb (Some 2) 1 [1 \<mapsto> b] = Some (r, h)" "r \<in> {None, Some 2}" by auto
  ultimately have "ref_run h (case r of None \<Rightarrow> (\<lambda>_. 0)(1 := 1) | Some c \<Rightarrow> ((\<lambda>_. 0)(1 := 1))(c := 1))"
    using ref_run.fromb [OF run1, of 2 1 b r h] by simp
  note alive = sshbuf_references [OF this, THEN conjunct1, rule_format, of 1]
  have "0 < (case r of None \<Rightarrow> (\<lambda>_. 0 :: nat)(1 := 1) | Some c \<Rightarrow> ((\<lambda>_. 0)(1 := 1))(c := 1)) (1 :: nat)" using r(2) by auto
  from alive [OF this] show ?thesis using r(1) b by blast
qed

text \<open>
  The bound on references is needed: the code checks the count of the parent before it adds one, so that a child too many leaves the parent in
  a state that the sanity check takes for corrupted.
\<close>

lemma set_parent_beyond_limit:
  assumes "h c = Some cb" "h p = Some pb" "c \<noteq> p" "buf_parent cb = None" "sshbuf_check_sanity cb = Inr ()" "sshbuf_check_sanity pb = Inr ()"
    and "buf_refcount pb = SSHBUF_REFS_MAX"
  shows "\<exists>h' pb'. sshbuf_set_parent c p h = Some (Inr (), h') \<and> h' p = Some pb' \<and> sshbuf_check_sanity pb' = Inl SSH_ERR_INTERNAL_ERROR"
  using assms by (auto simp: sshbuf_set_parent_def sshbuf_check_sanity_def split: if_splits)

end
