(* ===== verification/Hmac.thy ===== *)
theory Hmac
  imports Prelude
begin

unbundle bit_operations_syntax

text \<open>
  Message digests and HMAC, from \<^verbatim>\<open>digest-openssl.c\<close> and \<^verbatim>\<open>hmac.c\<close>.  The hash functions
  of libcrypto are an argument: \<open>md_hash\<close> is the hash of an algorithm, \<open>md_block_size\<close> its block size
  and \<open>md_ok\<close> whether the calls of libcrypto succeed.  A digest context holds the bytes
  that have been hashed so far.
\<close>

section \<open>Digests\<close>

record md_ops =
  md_hash :: "int \<Rightarrow> byte list \<Rightarrow> byte list"
  md_block_size :: "int \<Rightarrow> nat"
  md_ok :: bool

definition SSH_DIGEST_MD5 :: int where "SSH_DIGEST_MD5 = 0"
definition SSH_DIGEST_SHA1 :: int where "SSH_DIGEST_SHA1 = 1"
definition SSH_DIGEST_SHA256 :: int where "SSH_DIGEST_SHA256 = 2"
definition SSH_DIGEST_SHA384 :: int where "SSH_DIGEST_SHA384 = 3"
definition SSH_DIGEST_SHA512 :: int where "SSH_DIGEST_SHA512 = 4"
definition SSH_DIGEST_MAX :: int where "SSH_DIGEST_MAX = 5"
definition SSH_DIGEST_MAX_LENGTH :: nat where "SSH_DIGEST_MAX_LENGTH = 64"
definition UINT_MAX :: nat where "UINT_MAX = 2 ^ 32 - 1"

record ssh_digest =
  dg_id :: int
  dg_name :: string
  dg_len :: nat

definition digests :: "ssh_digest list" where
  "digests =
     [\<lparr>dg_id = SSH_DIGEST_MD5, dg_name = ''MD5'', dg_len = 16\<rparr>,
      \<lparr>dg_id = SSH_DIGEST_SHA1, dg_name = ''SHA1'', dg_len = 20\<rparr>,
      \<lparr>dg_id = SSH_DIGEST_SHA256, dg_name = ''SHA256'', dg_len = 32\<rparr>,
      \<lparr>dg_id = SSH_DIGEST_SHA384, dg_name = ''SHA384'', dg_len = 48\<rparr>,
      \<lparr>dg_id = SSH_DIGEST_SHA512, dg_name = ''SHA512'', dg_len = 64\<rparr>]"

definition ssh_digest_by_alg :: "int \<Rightarrow> ssh_digest option" where
  "ssh_digest_by_alg alg =
     (if alg < 0 \<or> alg \<ge> SSH_DIGEST_MAX then None
      else if dg_id (digests ! nat alg) \<noteq> alg then None
      else Some (digests ! nat alg))"

definition ssh_digest_alg_name :: "int \<Rightarrow> string option" where
  "ssh_digest_alg_name alg = map_option dg_name (ssh_digest_by_alg alg)"

definition ssh_digest_bytes :: "int \<Rightarrow> nat" where
  "ssh_digest_bytes alg = (case ssh_digest_by_alg alg of None \<Rightarrow> 0 | Some d \<Rightarrow> dg_len d)"

record ssh_digest_ctx =
  dc_alg :: int
  dc_data :: "byte list"

definition ssh_digest_blocksize :: "md_ops \<Rightarrow> ssh_digest_ctx \<Rightarrow> nat" where
  "ssh_digest_blocksize M ctx = md_block_size M (dc_alg ctx)"

definition ssh_digest_start :: "md_ops \<Rightarrow> int \<Rightarrow> ssh_digest_ctx option" where
  "ssh_digest_start M alg =
     (case ssh_digest_by_alg alg of
        None \<Rightarrow> None
      | Some d \<Rightarrow> if \<not> md_ok M then None else Some \<lparr>dc_alg = alg, dc_data = []\<rparr>)"

definition ssh_digest_copy_state :: "md_ops \<Rightarrow> ssh_digest_ctx \<Rightarrow> ssh_digest_ctx \<Rightarrow> ssh_err + ssh_digest_ctx" where
  "ssh_digest_copy_state M fr to =
     (if dc_alg fr \<noteq> dc_alg to then Inl SSH_ERR_INVALID_ARGUMENT
      else if \<not> md_ok M then Inl SSH_ERR_LIBCRYPTO_ERROR
      else Inr (to\<lparr>dc_data := dc_data fr\<rparr>))"

definition ssh_digest_update :: "md_ops \<Rightarrow> ssh_digest_ctx \<Rightarrow> byte list \<Rightarrow> ssh_err + ssh_digest_ctx" where
  "ssh_digest_update M ctx m =
     (if \<not> md_ok M then Inl SSH_ERR_LIBCRYPTO_ERROR else Inr (ctx\<lparr>dc_data := dc_data ctx @ m\<rparr>))"

definition ssh_digest_final :: "md_ops \<Rightarrow> ssh_digest_ctx \<Rightarrow> nat \<Rightarrow> ssh_err + byte list" where
  "ssh_digest_final M ctx dlen =
     (case ssh_digest_by_alg (dc_alg ctx) of
        None \<Rightarrow> Inl SSH_ERR_INVALID_ARGUMENT
      | Some d \<Rightarrow>
          if dlen > UINT_MAX then Inl SSH_ERR_INVALID_ARGUMENT
          else if dlen < dg_len d then Inl SSH_ERR_INVALID_ARGUMENT
          else if \<not> md_ok M then Inl SSH_ERR_LIBCRYPTO_ERROR
          else let h = md_hash M (dc_alg ctx) (dc_data ctx) in
            if length h \<noteq> dg_len d then Inl SSH_ERR_INTERNAL_ERROR else Inr h)"

definition ssh_digest_memory :: "md_ops \<Rightarrow> int \<Rightarrow> byte list \<Rightarrow> nat \<Rightarrow> ssh_err + byte list" where
  "ssh_digest_memory M alg m dlen =
     (case ssh_digest_by_alg alg of
        None \<Rightarrow> Inl SSH_ERR_INVALID_ARGUMENT
      | Some d \<Rightarrow>
          if dlen > UINT_MAX then Inl SSH_ERR_INVALID_ARGUMENT
          else if dlen < dg_len d then Inl SSH_ERR_INVALID_ARGUMENT
          else if \<not> md_ok M then Inl SSH_ERR_LIBCRYPTO_ERROR
          else Inr (md_hash M alg m))"

section \<open>HMAC\<close>

record ssh_hmac_ctx =
  hm_alg :: int
  hm_ictx :: ssh_digest_ctx
  hm_octx :: ssh_digest_ctx
  hm_digest :: ssh_digest_ctx
  hm_buf :: "byte list"

definition ssh_hmac_bytes :: "int \<Rightarrow> nat" where
  "ssh_hmac_bytes alg = ssh_digest_bytes alg"

text \<open>\<^verbatim>\<open>buf_len\<close> is the length of \<^verbatim>\<open>buf\<close>.\<close>

definition ssh_hmac_start :: "md_ops \<Rightarrow> int \<Rightarrow> ssh_hmac_ctx option" where
  "ssh_hmac_start M alg =
     (case ssh_digest_start M alg of
        None \<Rightarrow> None
      | Some d \<Rightarrow> Some \<lparr>hm_alg = alg, hm_ictx = d, hm_octx = d, hm_digest = d,
                       hm_buf = replicate (ssh_digest_blocksize M d) 0\<rparr>)"

text \<open>
  \<^verbatim>\<open>ssh_hmac_init\<close>, with the part for a key that is given; the result is \<open>None\<close> where the code
  returns -1.
\<close>

definition hmac_key_buf :: "md_ops \<Rightarrow> ssh_hmac_ctx \<Rightarrow> byte list \<Rightarrow> byte list option" where
  "hmac_key_buf M ctx k =
     (let buf_len = length (hm_buf ctx) in
      if length k \<le> buf_len then Some (overwrite 0 k (hm_buf ctx))
      else case ssh_digest_memory M (hm_alg ctx) k buf_len of
        Inl e \<Rightarrow> None
      | Inr h \<Rightarrow> Some (overwrite 0 h (hm_buf ctx)))"

definition hmac_set_key :: "md_ops \<Rightarrow> ssh_hmac_ctx \<Rightarrow> byte list \<Rightarrow> ssh_hmac_ctx option" where
  "hmac_set_key M ctx k =
     (case hmac_key_buf M ctx k of
        None \<Rightarrow> None
      | Some buf \<Rightarrow>
          let ibuf = map (\<lambda>b. b XOR 0x36) buf; obuf = map (\<lambda>b. b XOR (0x36 XOR 0x5c)) ibuf in
          (case ssh_digest_update M (hm_ictx ctx) ibuf of
             Inl e \<Rightarrow> None
           | Inr ictx \<Rightarrow>
               (case ssh_digest_update M (hm_octx ctx) obuf of
                  Inl e \<Rightarrow> None
                | Inr octx \<Rightarrow>
                    Some (ctx\<lparr>hm_ictx := ictx, hm_octx := octx, hm_buf := replicate (length (hm_buf ctx)) 0\<rparr>))))"

definition ssh_hmac_init :: "md_ops \<Rightarrow> ssh_hmac_ctx \<Rightarrow> byte list option \<Rightarrow> ssh_hmac_ctx option" where
  "ssh_hmac_init M ctx key =
     (case (case key of None \<Rightarrow> Some ctx | Some k \<Rightarrow> hmac_set_key M ctx k) of
        None \<Rightarrow> None
      | Some ctx \<Rightarrow>
          (case ssh_digest_copy_state M (hm_ictx ctx) (hm_digest ctx) of
             Inl e \<Rightarrow> None
           | Inr d \<Rightarrow> Some (ctx\<lparr>hm_digest := d\<rparr>)))"

definition ssh_hmac_update :: "md_ops \<Rightarrow> ssh_hmac_ctx \<Rightarrow> byte list \<Rightarrow> ssh_hmac_ctx option" where
  "ssh_hmac_update M ctx m =
     (case ssh_digest_update M (hm_digest ctx) m of Inl e \<Rightarrow> None | Inr d \<Rightarrow> Some (ctx\<lparr>hm_digest := d\<rparr>))"

definition ssh_hmac_final :: "md_ops \<Rightarrow> ssh_hmac_ctx \<Rightarrow> nat \<Rightarrow> (byte list \<times> ssh_hmac_ctx) option" where
  "ssh_hmac_final M ctx dlen =
     (let len = ssh_digest_bytes (hm_alg ctx) in
      if dlen < len then None
      else case ssh_digest_final M (hm_digest ctx) len of
        Inl e \<Rightarrow> None
      | Inr inner \<Rightarrow>
          (case ssh_digest_copy_state M (hm_octx ctx) (hm_digest ctx) of
             Inl e \<Rightarrow> None
           | Inr d \<Rightarrow>
               (case ssh_digest_update M d (take len inner) of
                  Inl e \<Rightarrow> None
                | Inr d \<Rightarrow>
                    (case ssh_digest_final M d dlen of
                       Inl e \<Rightarrow> None
                     | Inr h \<Rightarrow> Some (h, ctx\<lparr>hm_digest := d, hm_buf := overwrite 0 inner (hm_buf ctx)\<rparr>)))))"

section \<open>HMAC as in its definition\<close>

definition hmac_key :: "md_ops \<Rightarrow> int \<Rightarrow> byte list \<Rightarrow> byte list" where
  "hmac_key M alg key =
     (let k = (if length key \<le> md_block_size M alg then key else md_hash M alg key)
      in k @ replicate (md_block_size M alg - length k) 0)"

definition hmac :: "md_ops \<Rightarrow> int \<Rightarrow> byte list \<Rightarrow> byte list \<Rightarrow> byte list" where
  "hmac M alg key m =
     md_hash M alg (map (\<lambda>b. b XOR 0x5c) (hmac_key M alg key) @
       md_hash M alg (map (\<lambda>b. b XOR 0x36) (hmac_key M alg key) @ m))"

text \<open>What the code relies on in libcrypto: hashes have the length of the table and fit a block.\<close>

definition md_lengths :: "md_ops \<Rightarrow> bool" where
  "md_lengths M \<longleftrightarrow> (\<forall>d \<in> set digests. \<forall>m. length (md_hash M (dg_id d) m) = dg_len d \<and> dg_len d \<le> md_block_size M (dg_id d)) \<and>
     (\<forall>d \<in> set digests. md_block_size M (dg_id d) \<le> UINT_MAX)"

text \<open>A context that has been given a key.\<close>

definition hmac_keyed :: "md_ops \<Rightarrow> int \<Rightarrow> byte list \<Rightarrow> ssh_hmac_ctx \<Rightarrow> bool" where
  "hmac_keyed M alg key ctx \<longleftrightarrow> hm_alg ctx = alg \<and>
     hm_ictx ctx = \<lparr>dc_alg = alg, dc_data = map (\<lambda>b. b XOR 0x36) (hmac_key M alg key)\<rparr> \<and>
     hm_octx ctx = \<lparr>dc_alg = alg, dc_data = map (\<lambda>b. b XOR 0x5c) (hmac_key M alg key)\<rparr> \<and>
     dc_alg (hm_digest ctx) = alg"

lemma digest_by_alg_set: "ssh_digest_by_alg alg = Some d \<Longrightarrow> d \<in> set digests \<and> dg_id d = alg"
proof -
  assume "ssh_digest_by_alg alg = Some d"
  then have "d = digests ! nat alg" "nat alg < length digests" "dg_id d = alg"
    by (auto simp: ssh_digest_by_alg_def SSH_DIGEST_MAX_def digests_def split: if_splits)
  then show ?thesis by (metis nth_mem)
qed

lemma md_lengthsD:
  assumes "md_lengths M" "ssh_digest_by_alg alg = Some d"
  shows "length (md_hash M alg m) = dg_len d" "dg_len d \<le> md_block_size M alg" "md_block_size M alg \<le> UINT_MAX"
  using assms digest_by_alg_set [OF assms(2)] by (auto simp: md_lengths_def)

lemma hmac_init_keyed:
  assumes M: "md_lengths M" "md_ok M" and alg: "ssh_digest_by_alg alg = Some d" and start: "ssh_hmac_start M alg = Some c0"
  shows "\<exists>c. ssh_hmac_init M c0 (Some key) = Some c \<and> hmac_keyed M alg key c"
proof -
  note L = md_lengthsD [OF M(1) alg]
  have c0: "c0 = \<lparr>hm_alg = alg, hm_ictx = \<lparr>dc_alg = alg, dc_data = []\<rparr>, hm_octx = \<lparr>dc_alg = alg, dc_data = []\<rparr>,
      hm_digest = \<lparr>dc_alg = alg, dc_data = []\<rparr>, hm_buf = replicate (md_block_size M alg) 0\<rparr>"
    using start M(2) alg by (simp add: ssh_hmac_start_def ssh_digest_start_def ssh_digest_blocksize_def)
  have buf: "hmac_key_buf M c0 key = Some (hmac_key M alg key)"
    using L M(2) alg by (simp add: hmac_key_buf_def c0 hmac_key_def overwrite_def ssh_digest_memory_def Let_def)
  have pad: "map (\<lambda>b. b XOR (0x36 XOR 0x5c)) (map (\<lambda>b. b XOR 0x36) xs) = map (\<lambda>b :: byte. b XOR 0x5c) xs" for xs
  proof -
    have "(b XOR 0x36) XOR (0x36 XOR 0x5c) = b XOR 0x5c" for b :: byte
      by (rule bit_word_eqI) (auto simp only: bit_xor_iff)
    then show ?thesis by (simp only: map_map comp_def)
  qed
  have "hmac_set_key M c0 key = Some (c0\<lparr>hm_ictx := \<lparr>dc_alg = alg, dc_data = map (\<lambda>b. b XOR 0x36) (hmac_key M alg key)\<rparr>,
      hm_octx := \<lparr>dc_alg = alg, dc_data = map (\<lambda>b. b XOR 0x5c) (hmac_key M alg key)\<rparr>\<rparr>)"
    unfolding hmac_set_key_def buf option.case Let_def pad using M(2) by (simp add: ssh_digest_update_def c0)
  then show ?thesis
    using M(2) by (simp add: ssh_hmac_init_def ssh_digest_copy_state_def hmac_keyed_def c0)
qed

text \<open>One computation: reset, the parts of the message, the result.\<close>

fun hmac_updates :: "md_ops \<Rightarrow> ssh_hmac_ctx \<Rightarrow> byte list list \<Rightarrow> ssh_hmac_ctx option" where
  "hmac_updates M c [] = Some c"
| "hmac_updates M c (m # ms) = (case ssh_hmac_update M c m of None \<Rightarrow> None | Some c \<Rightarrow> hmac_updates M c ms)"

definition hmac_once :: "md_ops \<Rightarrow> ssh_hmac_ctx \<Rightarrow> byte list list \<Rightarrow> (byte list \<times> ssh_hmac_ctx) option" where
  "hmac_once M c ms =
     (case ssh_hmac_init M c None of
        None \<Rightarrow> None
      | Some c \<Rightarrow> (case hmac_updates M c ms of None \<Rightarrow> None | Some c \<Rightarrow> ssh_hmac_final M c SSH_DIGEST_MAX_LENGTH))"

fun hmac_many :: "md_ops \<Rightarrow> ssh_hmac_ctx \<Rightarrow> byte list list list \<Rightarrow> byte list list option" where
  "hmac_many M c [] = Some []"
| "hmac_many M c (ms # mss) =
     (case hmac_once M c ms of
        None \<Rightarrow> None
      | Some (h, c) \<Rightarrow> (case hmac_many M c mss of None \<Rightarrow> None | Some hs \<Rightarrow> Some (h # hs)))"

lemma hmac_updates_data:
  "md_ok M \<Longrightarrow> hmac_updates M c ms = Some (c\<lparr>hm_digest := (hm_digest c)\<lparr>dc_data := dc_data (hm_digest c) @ concat ms\<rparr>\<rparr>)"
  by (induction ms arbitrary: c) (simp_all add: ssh_hmac_update_def ssh_digest_update_def)

lemma hmac_once_keyed:
  assumes M: "md_lengths M" "md_ok M" and alg: "ssh_digest_by_alg alg = Some d" and c: "hmac_keyed M alg key c"
  shows "\<exists>c'. hmac_once M c ms = Some (hmac M alg key (concat ms), c') \<and> hmac_keyed M alg key c'"
proof -
  note L = md_lengthsD [OF M(1) alg]
  have "dg_len d \<le> 64" using digest_by_alg_set [OF alg] by (auto simp: digests_def)
  then show ?thesis
    using M(2) c L alg
    by (simp add: hmac_once_def ssh_hmac_init_def hmac_keyed_def ssh_digest_copy_state_def hmac_updates_data ssh_hmac_final_def
        ssh_digest_final_def ssh_digest_update_def ssh_digest_bytes_def SSH_DIGEST_MAX_LENGTH_def hmac_def Let_def)
      (simp add: UINT_MAX_def)
qed

lemma hmac_many_keyed:
  assumes "md_lengths M" "md_ok M" "ssh_digest_by_alg alg = Some d" "hmac_keyed M alg key c"
  shows "hmac_many M c mss = Some (map (\<lambda>ms. hmac M alg key (concat ms)) mss)"
  using assms(4)
proof (induction mss arbitrary: c)
  case (Cons ms mss)
  from hmac_once_keyed [OF assms(1-3) Cons.prems, of ms] Cons.IH show ?case by auto
qed simp

text \<open>
  (C16) The incremental HMAC computes HMAC as it is defined: a context started for a digest of the
  table and given a key, reset any number of times and fed messages in any number of
  parts, yields \<open>H((K xor opad) H((K xor ipad) m))\<close> for each message, with keys longer than a block
  hashed first.
\<close>

theorem hmac_correct:
  assumes "md_lengths M" and "md_ok M" and "ssh_digest_by_alg alg = Some d"
  shows "\<exists>c0 c. ssh_hmac_start M alg = Some c0 \<and> ssh_hmac_init M c0 (Some key) = Some c \<and>
    hmac_many M c mss = Some (map (\<lambda>ms. hmac M alg key (concat ms)) mss)"
proof -
  obtain c0 where c0: "ssh_hmac_start M alg = Some c0"
    using assms by (simp add: ssh_hmac_start_def ssh_digest_start_def)
  from hmac_init_keyed [OF assms c0] obtain c where "ssh_hmac_init M c0 (Some key) = Some c" "hmac_keyed M alg key c" by blast
  with c0 hmac_many_keyed [OF assms] show ?thesis by blast
qed

definition example_md :: md_ops where
  "example_md = \<lparr>md_hash = (\<lambda>alg m. replicate (ssh_digest_bytes alg) (foldr (XOR) m 0)), md_block_size = (\<lambda>alg. 64), md_ok = True\<rparr>"

theorem hmac_correct_witness:
  "\<exists>c0 c. ssh_hmac_start example_md SSH_DIGEST_SHA256 = Some c0 \<and> ssh_hmac_init example_md c0 (Some [1, 2]) = Some c \<and>
     hmac_many example_md c [[[3], [4]], [[5]]] =
       Some [hmac example_md SSH_DIGEST_SHA256 [1, 2] [3, 4], hmac example_md SSH_DIGEST_SHA256 [1, 2] [5]]"
proof -
  have "md_lengths example_md" "md_ok example_md"
    by (simp_all add: md_lengths_def example_md_def digests_def ssh_digest_bytes_def ssh_digest_by_alg_def SSH_DIGEST_MAX_def
        SSH_DIGEST_MD5_def SSH_DIGEST_SHA1_def SSH_DIGEST_SHA256_def SSH_DIGEST_SHA384_def SSH_DIGEST_SHA512_def UINT_MAX_def)
  moreover have "ssh_digest_by_alg SSH_DIGEST_SHA256 = Some \<lparr>dg_id = SSH_DIGEST_SHA256, dg_name = ''SHA256'', dg_len = 32\<rparr>"
    by (simp add: ssh_digest_by_alg_def digests_def SSH_DIGEST_SHA256_def SSH_DIGEST_MAX_def)
  ultimately show ?thesis
    using hmac_correct [of example_md SSH_DIGEST_SHA256 _ "[1, 2]" "[[[3], [4]], [[5]]]"] by simp
qed

end
