(* ===== verification/Match.thy ===== *)
theory Match
  imports Prelude
begin

text \<open>
  Wildcard patterns, pattern lists and algorithm name lists, from \<^verbatim>\<open>match.c\<close>.

  A C string is a \<^typ>\<open>string\<close> without nul characters.  \<^verbatim>\<open>match_pattern\<close> simulates a
  nondeterministic automaton with one state per pattern character; the model keeps its two
  arrays of flags and its loops.  Its meaning is the recursive definition \<open>glob\<close>, to which the
  automaton is proved equal; the pattern-list and name-list functions are then
  characterised in terms of the entries of their lists.
\<close>

section \<open>Patterns\<close>

definition epsilon_closure :: "bool list \<Rightarrow> string \<Rightarrow> nat \<Rightarrow> bool list" where
  "epsilon_closure states pattern M =
     fold (\<lambda>i st. if \<not> st ! i \<or> pattern ! i \<noteq> CHR ''*'' then st else st[i + 1 := True])
       [0..<M] states"

text \<open>The inner loop of \<^verbatim>\<open>match_pattern\<close>: the states reachable by one input character.\<close>

definition next_states :: "bool list \<Rightarrow> string \<Rightarrow> nat \<Rightarrow> char \<Rightarrow> bool list" where
  "next_states states pattern M c =
     fold (\<lambda>i nx. if \<not> states ! i then nx
                  else if pattern ! i = CHR ''*'' then nx[i := True]
                  else if pattern ! i = CHR ''?'' \<or> pattern ! i = c then nx[i + 1 := True]
                  else nx)
       [0..<M] (replicate (M + 1) False)"

text \<open>The outer loop, over the characters of the string.\<close>

fun match_loop :: "bool list \<Rightarrow> string \<Rightarrow> nat \<Rightarrow> string \<Rightarrow> bool" where
  "match_loop states pattern M [] = states ! M"
| "match_loop states pattern M (c # s) =
     (let states' = epsilon_closure (next_states states pattern M c) pattern M
      in if \<not> list_ex (\<lambda>a. a) states' then False else match_loop states' pattern M s)"

definition match_pattern :: "string \<Rightarrow> string \<Rightarrow> bool" where
  "match_pattern s pattern =
     (let M = length pattern in
      if M = 0 then s = []
      else match_loop (epsilon_closure ((replicate (M + 1) False)[0 := True]) pattern M) pattern M s)"

section \<open>Pattern lists\<close>

text \<open>\<^verbatim>\<open>isupper\<close> and \<^verbatim>\<open>tolower\<close> of the C locale.\<close>

definition isupper :: "char \<Rightarrow> bool" where
  "isupper c \<longleftrightarrow> 65 \<le> (of_char c :: nat) \<and> (of_char c :: nat) \<le> 90"

definition tolower :: "char \<Rightarrow> char" where
  "tolower c = (if isupper c then char_of ((of_char c :: nat) + 32) else c)"

text \<open>
  The next entry of a pattern list: whether it is negated with \<^verbatim>\<open>!\<close>, the subpattern up to a
  comma (no more than 1023 characters fit the buffer), and the list after the comma.
\<close>

definition next_sub :: "string \<Rightarrow> bool \<times> string \<times> string" where
  "next_sub pat =
     (let negated = (pat \<noteq> [] \<and> hd pat = CHR ''!'');
          pat1 = (if negated then tl pat else pat);
          sub = take 1023 (takeWhile (\<lambda>c. c \<noteq> CHR '','') pat1);
          pat2 = drop (length sub) pat1
      in (negated, sub, if pat2 \<noteq> [] \<and> hd pat2 = CHR '','' then tl pat2 else pat2))"

lemma next_sub_shrinks:
  assumes "pat \<noteq> []" and "next_sub pat = (negated, sub, rest)"
  shows "length rest < length pat"
proof -
  obtain x xs where pat: "pat = x # xs" using assms(1) by (cases pat) auto
  show ?thesis
    using assms(2) by (auto simp: pat next_sub_def Let_def split: if_splits)
qed

text \<open>
  The loop of \<^verbatim>\<open>match_pattern_list\<close> on what is left of the pattern.  The result is \<open>-1\<close>, \<open>0\<close>
  or \<open>1\<close> as in the source.
\<close>

function match_pattern_list_loop :: "string \<Rightarrow> string \<Rightarrow> bool \<Rightarrow> bool \<Rightarrow> int" where
  "match_pattern_list_loop s pat dolower got_positive =
     (if pat = [] then (if got_positive then 1 else 0)
      else (case next_sub pat of (negated, sub0, rest) \<Rightarrow>
        let sub = map (\<lambda>c. if dolower \<and> isupper c then tolower c else c) sub0
        in if length sub \<ge> 1023 then 0
           else if match_pattern s sub
           then if negated then -1 else match_pattern_list_loop s rest dolower True
           else match_pattern_list_loop s rest dolower got_positive))"
  by pat_completeness auto

termination
  by (relation "measure (\<lambda>(s, pat, d, g). length pat)") (auto intro: next_sub_shrinks [OF _ sym])

declare match_pattern_list_loop.simps [simp del]

definition match_pattern_list :: "string \<Rightarrow> string \<Rightarrow> bool \<Rightarrow> int" where
  "match_pattern_list s pattern dolower = match_pattern_list_loop s pattern dolower False"

definition match_usergroup_pattern_list :: "string \<Rightarrow> string \<Rightarrow> int" where
  "match_usergroup_pattern_list s pattern = match_pattern_list s pattern False"

definition lowercase :: "string \<Rightarrow> string" where
  "lowercase s = map tolower s"

definition match_hostname :: "string \<Rightarrow> string \<Rightarrow> int" where
  "match_hostname host pattern = match_pattern_list (lowercase host) pattern True"

section \<open>Algorithm name lists\<close>

text \<open>The successive results of \<^verbatim>\<open>strsep(&p, ",")\<close>; an empty string yields one empty token.\<close>

fun strsep_all :: "string \<Rightarrow> string list" where
  "strsep_all [] = [[]]"
| "strsep_all (c # s) =
     (if c = CHR '','' then [] # strsep_all s
      else (case strsep_all s of [] \<Rightarrow> [[c]] | t # ts \<Rightarrow> (c # t) # ts))"

definition MAX_PROP :: nat where "MAX_PROP = 40"

text \<open>The tokens up to the first empty one, at which the loops of \<^verbatim>\<open>match_list\<close> stop.\<close>

definition proposals :: "string \<Rightarrow> string list" where
  "proposals s = takeWhile (\<lambda>p. p \<noteq> []) (strsep_all s)"

text \<open>
  The search of \<^verbatim>\<open>match_list\<close>: \<open>off\<close> is the offset of the current token in the client's
  string and \<open>c0\<close> the first token, to which \<^verbatim>\<open>strlen(c)\<close> refers once \<^verbatim>\<open>strsep\<close> has put a nul
  in place of the first comma.
\<close>

fun match_list_loop :: "string \<Rightarrow> string list \<Rightarrow> nat \<Rightarrow> string list \<Rightarrow> string option \<times> nat" where
  "match_list_loop c0 sproposals off [] = (None, length c0)"
| "match_list_loop c0 sproposals off (p # ps) =
     (if p = [] then (None, length c0)
      else if p \<in> set sproposals
      then (Some p, if ps = [] then length c0 else off + length p + 1)
      else match_list_loop c0 sproposals (off + length p + 1) ps)"

definition match_list :: "string \<Rightarrow> string \<Rightarrow> string option \<times> nat" where
  "match_list client server =
     (let sproposals = take MAX_PROP (proposals server);
          tokens = strsep_all client
      in match_list_loop (hd tokens) sproposals 0 tokens)"

text \<open>\<^verbatim>\<open>strlcat(dst, src, size)\<close> on a destination that is a string of less than \<open>sz\<close> bytes.\<close>

definition strlcat :: "string \<Rightarrow> string \<Rightarrow> nat \<Rightarrow> string" where
  "strlcat dst src sz = take (sz - 1) (dst @ src)"

fun filter_list_loop :: "string list \<Rightarrow> string \<Rightarrow> bool \<Rightarrow> nat \<Rightarrow> string \<Rightarrow> string" where
  "filter_list_loop [] filt denylist len fix_prop = fix_prop"
| "filter_list_loop (cp # cps) filt denylist len fix_prop =
     (let r = match_pattern_list cp filt False in
      if (denylist \<and> r \<noteq> 1) \<or> (\<not> denylist \<and> r = 1)
      then let fix1 = (if fix_prop \<noteq> [] then strlcat fix_prop '','' len else fix_prop)
           in filter_list_loop cps filt denylist len (strlcat fix1 cp len)
      else filter_list_loop cps filt denylist len fix_prop)"

text \<open>The argument \<open>malloc\<close> tells whether the two allocations succeed.\<close>

definition filter_list :: "bool \<Rightarrow> string \<Rightarrow> string \<Rightarrow> bool \<Rightarrow> string option" where
  "filter_list malloc proposal filt denylist =
     (if \<not> malloc then None
      else Some (filter_list_loop (strsep_all proposal) filt denylist (length proposal + 1) []))"

definition match_filter_denylist :: "bool \<Rightarrow> string \<Rightarrow> string \<Rightarrow> string option" where
  "match_filter_denylist malloc proposal filt = filter_list malloc proposal filt True"

definition match_filter_allowlist :: "bool \<Rightarrow> string \<Rightarrow> string \<Rightarrow> string option" where
  "match_filter_allowlist malloc proposal filt = filter_list malloc proposal filt False"

section \<open>What patterns mean\<close>

fun glob :: "string \<Rightarrow> string \<Rightarrow> bool" where
  "glob [] s \<longleftrightarrow> s = []"
| "glob (x # p) [] \<longleftrightarrow> x = CHR ''*'' \<and> glob p []"
| "glob (x # p) (c # s) \<longleftrightarrow>
     (if x = CHR ''*'' then glob p (c # s) \<or> glob (x # p) s
      else (x = CHR ''?'' \<or> x = c) \<and> glob p s)"

lemma glob_star: "glob (CHR ''*'' # p) s \<longleftrightarrow> (\<exists>u v. s = u @ v \<and> glob p v)"
proof (induction s)
  case (Cons c s)
  have "(\<exists>u v. c # s = u @ v \<and> glob p v) \<longleftrightarrow> glob p (c # s) \<or> (\<exists>u v. s = u @ v \<and> glob p v)"
    by (metis append_Cons append_Nil append_eq_Cons_conv)
  with Cons show ?case by simp
qed simp

lemma glob_star_skip: "glob p s \<Longrightarrow> glob (CHR ''*'' # p) s"
  by (cases s) auto

subsection \<open>The automaton\<close>

lemma length_fold_update:
  "(\<And>i st. length (f i st) = length st) \<Longrightarrow> length (fold f xs st) = length st"
  by (induction xs arbitrary: st) auto

lemma length_epsilon_closure [simp]: "length (epsilon_closure st p M) = length st"
  by (auto simp: epsilon_closure_def intro!: length_fold_update)

lemma length_next_states [simp]: "length (next_states st p M c) = M + 1"
  unfolding next_states_def by (subst length_fold_update) auto

lemma epsilon_closure_Suc:
  "epsilon_closure st p (Suc n) =
     (let t = epsilon_closure st p n
      in if \<not> t ! n \<or> p ! n \<noteq> CHR ''*'' then t else t[n + 1 := True])"
  by (simp add: epsilon_closure_def Let_def)

lemma epsilon_closure_mono: "st ! j \<Longrightarrow> j < length st \<Longrightarrow> epsilon_closure st p n ! j"
proof (induction n)
  case 0
  then show ?case by (simp add: epsilon_closure_def)
next
  case (Suc n)
  then show ?case by (cases "j = Suc n") (auto simp: epsilon_closure_Suc Let_def)
qed

lemma epsilon_closure_closed:
  "n < length st \<Longrightarrow> i < n \<Longrightarrow> epsilon_closure st p n ! i \<Longrightarrow> p ! i = CHR ''*'' \<Longrightarrow>
     epsilon_closure st p n ! Suc i"
proof (induction n arbitrary: i)
  case (Suc n)
  then show ?case
    by (cases "i = n") (auto simp: epsilon_closure_Suc Let_def nth_list_update split: if_splits)
qed simp

lemma epsilon_closure_sound:
  "n < length st \<Longrightarrow> n \<le> length p \<Longrightarrow> j < length st \<Longrightarrow> epsilon_closure st p n ! j \<Longrightarrow>
     \<exists>i < length st. st ! i \<and> (glob (drop j p) s \<longrightarrow> glob (drop i p) s)"
proof (induction n arbitrary: j)
  case 0
  then show ?case by (auto simp: epsilon_closure_def)
next
  case (Suc n)
  show ?case
  proof (cases "j = n + 1 \<and> epsilon_closure st p n ! n \<and> p ! n = CHR ''*''")
    case True
    then obtain i where "i < length st" "st ! i" "glob (drop n p) s \<longrightarrow> glob (drop i p) s"
      using Suc.IH [of n] Suc.prems by auto
    moreover have "drop n p = CHR ''*'' # drop j p"
      using True Suc.prems Cons_nth_drop_Suc [of n p] by simp
    ultimately show ?thesis using glob_star_skip by metis
  next
    case False
    then have "epsilon_closure st p n ! j"
      using Suc.prems by (auto simp: epsilon_closure_Suc Let_def nth_list_update split: if_splits)
    then show ?thesis using Suc.IH [of j] Suc.prems by simp
  qed
qed

text \<open>The states after one character, one by one.\<close>

lemma next_states_nth:
  assumes "j \<le> M"
  shows "next_states st p M c ! j \<longleftrightarrow>
     (j < M \<and> st ! j \<and> p ! j = CHR ''*'') \<or>
     (\<exists>i < M. j = Suc i \<and> st ! i \<and> p ! i \<noteq> CHR ''*'' \<and> (p ! i = CHR ''?'' \<or> p ! i = c))"
proof -
  define f where "f i nx = (if \<not> st ! i then nx else if p ! i = CHR ''*'' then nx[i := True]
      else if p ! i = CHR ''?'' \<or> p ! i = c then nx[i + 1 := True] else nx)" for i nx
  have len: "length (fold f [0..<n] nx) = length nx" for n nx
    by (rule length_fold_update) (simp add: f_def)
  have "fold f [0..<n] (replicate (M + 1) False) ! j \<longleftrightarrow>
     (j < n \<and> st ! j \<and> p ! j = CHR ''*'') \<or>
     (\<exists>i < n. j = Suc i \<and> st ! i \<and> p ! i \<noteq> CHR ''*'' \<and> (p ! i = CHR ''?'' \<or> p ! i = c))"
    if "n \<le> M" for n
    using that
  proof (induction n)
    case 0
    show ?case using assms nth_replicate [of j "M + 1" False] by (simp del: replicate.simps)
  next
    case (Suc n)
    define T where "T = fold f [0..<n] (replicate (M + 1) False)"
    have "length T = M + 1" unfolding T_def by (simp only: len length_replicate)
    then have "f n T ! j \<longleftrightarrow> T ! j \<or> (j = n \<and> st ! n \<and> p ! n = CHR ''*'') \<or>
        (j = Suc n \<and> st ! n \<and> p ! n \<noteq> CHR ''*'' \<and> (p ! n = CHR ''?'' \<or> p ! n = c))"
      using assms Suc.prems by (auto simp: f_def nth_list_update)
    moreover have "fold f [0..<Suc n] (replicate (M + 1) False) = f n T"
      by (simp only: T_def upt_Suc_append fold_append fold.simps comp_def id_apply zero_le)
    moreover have "(\<exists>i < Suc n. j = Suc i \<and> Q i) \<longleftrightarrow> (\<exists>i < n. j = Suc i \<and> Q i) \<or> j = Suc n \<and> Q n" for Q
      by (auto simp: less_Suc_eq)
    moreover have "j < Suc n \<longleftrightarrow> j < n \<or> j = n" by auto
    ultimately show ?case
      using Suc.IH [folded T_def, OF Suc_leD [OF Suc.prems]] by (simp only:) blast
  qed
  then show ?thesis
    by (simp add: next_states_def f_def [abs_def])
qed


text \<open>One character of input: some active state accepts it and the rest.\<close>

lemma step_complete:
  assumes "st ! i" "i \<le> M" "M = length p"
    and closed: "\<And>k. k < M \<Longrightarrow> st ! k \<Longrightarrow> p ! k = CHR ''*'' \<Longrightarrow> st ! Suc k"
    and "glob (drop i p) (c # s)"
  shows "\<exists>j \<le> M. next_states st p M c ! j \<and> glob (drop j p) s"
  using assms(1,2,5)
proof (induction "M - i" arbitrary: i)
  case 0
  then show ?case using assms(3) by simp
next
  case (Suc d)
  then have i: "i < M" and drop: "drop i p = p ! i # drop (Suc i) p"
    using assms(3) by (auto simp: Cons_nth_drop_Suc)
  show ?case
  proof (cases "p ! i = CHR ''*''")
    case star: True
    with Suc.prems drop have "glob (drop (Suc i) p) (c # s) \<or> glob (drop i p) s" by simp
    then show ?thesis
    proof
      assume "glob (drop (Suc i) p) (c # s)"
      with Suc.hyps(1) [of "Suc i"] Suc.hyps(2) Suc.prems closed [OF i _ star] i show ?thesis
        by simp
    next
      assume "glob (drop i p) s"
      with star i Suc.prems show ?thesis
        using next_states_nth [of i M st p c] by (intro exI [of _ i]) auto
    qed
  next
    case False
    with Suc.prems drop have "(p ! i = CHR ''?'' \<or> p ! i = c) \<and> glob (drop (Suc i) p) s" by simp
    with False i Suc.prems show ?thesis
      using next_states_nth [of "Suc i" M st p c] by (intro exI [of _ "Suc i"]) auto
  qed
qed

lemma step_sound:
  assumes "next_states st p M c ! j" "j \<le> M" "M = length p" "glob (drop j p) s"
  shows "\<exists>i \<le> M. st ! i \<and> glob (drop i p) (c # s)"
proof -
  from assms(1) obtain i where i: "i < M" "st ! i"
      "j = i \<and> p ! i = CHR ''*'' \<or> j = Suc i \<and> p ! i \<noteq> CHR ''*'' \<and> (p ! i = CHR ''?'' \<or> p ! i = c)"
    unfolding next_states_nth [OF assms(2)] by blast
  then have "drop i p = p ! i # drop (Suc i) p"
    using assms(3) by (simp add: Cons_nth_drop_Suc)
  with i assms(4) show ?thesis by (intro exI [of _ i]) auto
qed

lemma epsilon_closure_ex:
  assumes "length st = M + 1" "M = length p"
  shows "(\<exists>j \<le> M. epsilon_closure st p M ! j \<and> glob (drop j p) s) \<longleftrightarrow>
    (\<exists>j \<le> M. st ! j \<and> glob (drop j p) s)"
  using epsilon_closure_mono [of st _ p M] epsilon_closure_sound [of M st p _ s] assms
  by (auto simp: less_Suc_eq_le)

lemma match_loop_glob:
  assumes "length st = M + 1" "M = length p"
    and closed: "\<And>k. k < M \<Longrightarrow> st ! k \<Longrightarrow> p ! k = CHR ''*'' \<Longrightarrow> st ! Suc k"
  shows "match_loop st p M s \<longleftrightarrow> (\<exists>i \<le> M. st ! i \<and> glob (drop i p) s)"
  using assms
proof (induction s arbitrary: st)
  case Nil
  have "st ! M" if "i \<le> M" "st ! i" "glob (drop i p) []" for i
    using that
  proof (induction "M - i" arbitrary: i)
    case (Suc d)
    then have "i < M" and drop: "drop i p = p ! i # drop (Suc i) p"
      using Nil.prems(2) by (auto simp: Cons_nth_drop_Suc)
    moreover have "p ! i = CHR ''*'' \<and> glob (drop (Suc i) p) []"
      using Suc.prems(3) drop by simp
    ultimately show ?case
      using Suc.hyps(1) [of "Suc i"] Suc.hyps(2) Suc.prems(2) Nil.prems(3) [of i] by simp
  qed simp
  then show ?case using Nil.prems(2) by (auto intro!: exI [of _ M])
next
  case (Cons c s)
  let ?nx = "next_states st p M c"
  let ?st = "epsilon_closure ?nx p M"
  have len: "length ?st = M + 1" by simp
  have closed': "?st ! Suc k" if "k < M" "?st ! k" "p ! k = CHR ''*''" for k
    using epsilon_closure_closed [of M ?nx k p] that by simp
  have "(\<exists>i \<le> M. st ! i \<and> glob (drop i p) (c # s)) \<longleftrightarrow> (\<exists>j \<le> M. ?nx ! j \<and> glob (drop j p) s)"
    using step_complete [where st = st and p = p and M = M and c = c and s = s]
      step_sound [where st = st and p = p and M = M and c = c and s = s] Cons.prems by blast
  also have "\<dots> \<longleftrightarrow> (\<exists>j \<le> M. ?st ! j \<and> glob (drop j p) s)"
    by (rule epsilon_closure_ex [symmetric, OF length_next_states Cons.prems(2)])
  finally have eq: "(\<exists>i \<le> M. st ! i \<and> glob (drop i p) (c # s)) \<longleftrightarrow> (\<exists>j \<le> M. ?st ! j \<and> glob (drop j p) s)" .
  have "\<not> list_ex (\<lambda>a. a) ?st \<Longrightarrow> \<not> (\<exists>j \<le> M. ?st ! j)"
    using len by (auto simp: list_ex_iff in_set_conv_nth less_Suc_eq_le)
  moreover have "match_loop ?st p M s \<longleftrightarrow> (\<exists>j \<le> M. ?st ! j \<and> glob (drop j p) s)"
    by (rule Cons.IH [OF len Cons.prems(2)]) (rule closed')
  moreover have "match_loop st p M (c # s) \<longleftrightarrow> list_ex (\<lambda>a. a) ?st \<and> match_loop ?st p M s"
    by (simp add: Let_def)
  ultimately show ?case unfolding eq by metis
qed

lemma match_pattern_eq_glob: "match_pattern s p \<longleftrightarrow> glob p s"
proof (cases "p = []")
  case True
  then show ?thesis by (simp add: match_pattern_def)
next
  case False
  define M where "M = length p"
  define st0 where "st0 = (replicate (M + 1) False)[0 := True]"
  have len: "length st0 = M + 1" by (simp add: st0_def)
  have st0: "st0 ! i \<longleftrightarrow> i = 0" if "i \<le> M" for i
    using that unfolding st0_def by (cases i) simp_all
  have "match_pattern s p = match_loop (epsilon_closure st0 p M) p M s"
    using False by (simp add: match_pattern_def Let_def st0_def M_def)
  also have "\<dots> \<longleftrightarrow> (\<exists>i \<le> M. epsilon_closure st0 p M ! i \<and> glob (drop i p) s)"
    by (rule match_loop_glob) (use len epsilon_closure_closed [of M st0 _ p] M_def in auto)
  also have "\<dots> \<longleftrightarrow> (\<exists>i \<le> M. st0 ! i \<and> glob (drop i p) s)"
    by (rule epsilon_closure_ex [OF len M_def])
  also have "\<dots> \<longleftrightarrow> glob p s"
    using st0 by auto
  finally show ?thesis .
qed

subsection \<open>The entries of a comma-separated list\<close>

lemma strsep_all_nonempty [simp]: "strsep_all s \<noteq> []"
  by (cases s) (auto split: list.split)

lemma strsep_all_rec:
  "strsep_all s = takeWhile (\<lambda>c. c \<noteq> CHR '','') s #
     (case dropWhile (\<lambda>c. c \<noteq> CHR '','') s of [] \<Rightarrow> [] | c # r \<Rightarrow> strsep_all r)"
  by (induction s) (auto split: list.split)

lemma strsep_all_no_comma: "t \<in> set (strsep_all s) \<Longrightarrow> CHR '','' \<notin> set t"
proof (induction s arbitrary: t)
  case (Cons c s)
  then show ?case by (cases "strsep_all s") (auto split: if_splits)
qed simp

lemma strsep_all_size: "(\<Sum>t\<leftarrow>strsep_all s. length t + 1) = length s + 1"
proof (induction s)
  case (Cons c s)
  then show ?case by (cases "strsep_all s") auto
qed simp

text \<open>
  The entries \<^verbatim>\<open>match_pattern_list\<close> looks at: those between commas, except that nothing follows
  a comma at the end.
\<close>

definition list_entries :: "string \<Rightarrow> string list" where
  "list_entries s = (let ts = strsep_all s in if last ts = [] then butlast ts else ts)"

lemma list_entries_Nil [simp]: "list_entries [] = []"
  by (simp add: list_entries_def)

lemma list_entries_rec:
  assumes "s \<noteq> []"
  shows "list_entries s = takeWhile (\<lambda>c. c \<noteq> CHR '','') s #
    list_entries (tl (dropWhile (\<lambda>c. c \<noteq> CHR '','') s))"
proof (cases "dropWhile (\<lambda>c. c \<noteq> CHR '','') s")
  case Nil
  then have "strsep_all s = [takeWhile (\<lambda>c. c \<noteq> CHR '','') s]"
    by (subst strsep_all_rec) (simp only: list.case)
  moreover have "takeWhile (\<lambda>c. c \<noteq> CHR '','') s \<noteq> []"
    using Nil assms by (metis append_Nil takeWhile_dropWhile_id)
  ultimately show ?thesis by (simp add: list_entries_def Nil)
next
  case (Cons c r)
  then have "strsep_all s = takeWhile (\<lambda>c. c \<noteq> CHR '','') s # strsep_all r"
    by (subst strsep_all_rec) simp
  then show ?thesis using Cons by (simp add: list_entries_def Let_def)
qed

text \<open>The two parts of an entry, and when the entry fits the buffer of 1024 characters.\<close>

definition entry_negated :: "string \<Rightarrow> bool" where
  "entry_negated e \<longleftrightarrow> e \<noteq> [] \<and> hd e = CHR ''!''"

definition entry_sub :: "string \<Rightarrow> string" where
  "entry_sub e = (if entry_negated e then tl e else e)"

definition entry_matches :: "string \<Rightarrow> bool \<Rightarrow> string \<Rightarrow> bool" where
  "entry_matches s dolower e =
     match_pattern s (if dolower then map tolower (entry_sub e) else entry_sub e)"

definition entry_fits :: "string \<Rightarrow> bool" where
  "entry_fits e \<longleftrightarrow> length (entry_sub e) < 1023"

lemma dropWhile_sep: "dropWhile (\<lambda>c. c \<noteq> x) s = [] \<or> hd (dropWhile (\<lambda>c. c \<noteq> x) s) = x"
  by (induction s) auto

lemma next_sub_entry:
  assumes "pat \<noteq> []" "next_sub pat = (negated, sub, rest)" "e = hd (list_entries pat)"
  shows "negated = entry_negated e" "sub = take 1023 (entry_sub e)"
    and "entry_fits e \<Longrightarrow> list_entries pat = e # list_entries rest"
proof -
  let ?P = "\<lambda>c. c \<noteq> CHR '',''"
  have e: "e = takeWhile ?P pat" using assms(1,3) by (simp add: list_entries_rec)
  define pat1 where "pat1 = (if hd pat = CHR ''!'' then tl pat else pat)"
  have neg: "negated \<longleftrightarrow> hd pat = CHR ''!''" and sub: "sub = take 1023 (takeWhile ?P pat1)"
    and rest: "rest = (let q = drop (length sub) pat1 in if q \<noteq> [] \<and> hd q = CHR '','' then tl q else q)"
    using assms(1,2) by (auto simp: next_sub_def Let_def pat1_def)
  show n: "negated = entry_negated e"
    using assms(1) neg by (cases pat) (auto simp: e entry_negated_def)
  have se: "entry_sub e = takeWhile ?P pat1"
    using assms(1) neg n by (cases pat) (auto simp: e entry_sub_def pat1_def)
  then show "sub = take 1023 (entry_sub e)" using sub by simp
  assume "entry_fits e"
  then have "sub = takeWhile ?P pat1" using sub se by (simp add: entry_fits_def)
  then have "drop (length sub) pat1 = dropWhile ?P pat1"
    by (simp add: dropWhile_eq_drop)
  moreover have "dropWhile ?P pat1 = dropWhile ?P pat"
    using assms(1) by (cases pat) (auto simp: pat1_def)
  moreover have "dropWhile ?P pat = [] \<or> hd (dropWhile ?P pat) = CHR '',''"
    by (rule dropWhile_sep)
  ultimately have "rest = tl (dropWhile ?P pat)"
    unfolding rest Let_def by (cases "dropWhile ?P pat") (simp_all only: list.sel list.distinct if_False if_True simp_thms)
  then show "list_entries pat = e # list_entries rest"
    using assms(1) e by (simp add: list_entries_rec)
qed

text \<open>What the loop computes, for any entries.\<close>

definition list_verdict :: "(string \<Rightarrow> bool) \<Rightarrow> string list \<Rightarrow> bool \<Rightarrow> int" where
  "list_verdict P es got =
     (let seen = takeWhile entry_fits es
      in if \<exists>e \<in> set seen. entry_negated e \<and> P e then -1
         else if seen \<noteq> es then 0
         else if got \<or> (\<exists>e \<in> set es. \<not> entry_negated e \<and> P e) then 1 else 0)"

lemma map_tolower_isupper:
  "map (\<lambda>c. if d \<and> isupper c then tolower c else c) s = (if d then map tolower s else s)"
  by (auto simp: tolower_def)

lemma match_pattern_list_loop_verdict:
  "match_pattern_list_loop s pat d got = list_verdict (entry_matches s d) (list_entries pat) got"
proof (induction s pat d got rule: match_pattern_list_loop.induct)
  case (1 s pat d got)
  show ?case
  proof (cases "pat = []")
    case True
    then show ?thesis by (simp add: match_pattern_list_loop.simps list_verdict_def)
  next
    case False
    obtain negated sub rest where ns: "next_sub pat = (negated, sub, rest)" by (metis prod_cases3)
    define e where "e = hd (list_entries pat)"
    have neg: "negated = entry_negated e" and sub: "sub = take 1023 (entry_sub e)"
      and step: "entry_fits e \<Longrightarrow> list_entries pat = e # list_entries rest"
      using next_sub_entry [OF False ns e_def] by auto
    have es: "list_entries pat = e # tl (list_entries pat)"
      using False by (simp add: e_def list_entries_rec)
    show ?thesis
    proof (cases "entry_fits e")
      case False
      then have "list_verdict (entry_matches s d) (list_entries pat) got = 0"
        by (subst es) (simp add: list_verdict_def)
      moreover have "1023 \<le> length sub" using False sub by (simp add: entry_fits_def)
      ultimately show ?thesis
        using \<open>pat \<noteq> []\<close> ns by (subst match_pattern_list_loop.simps) (simp add: Let_def)
    next
      case fits: True
      then have sub': "sub = entry_sub e" "length sub < 1023" using sub by (auto simp: entry_fits_def)
      have m: "match_pattern s (map (\<lambda>c. if d \<and> isupper c then tolower c else c) sub) = entry_matches s d e"
        unfolding map_tolower_isupper entry_matches_def sub'(1) ..
      have loop: "match_pattern_list_loop s pat d got =
          (if entry_matches s d e then if entry_negated e then - 1
             else list_verdict (entry_matches s d) (list_entries rest) True
           else list_verdict (entry_matches s d) (list_entries rest) got)"
        using "1.IH" [OF False ns [symmetric] refl refl] sub'(2) False ns neg
        by (subst match_pattern_list_loop.simps) (simp add: m)
      show ?thesis
        unfolding loop step [OF fits] using fits by (auto simp: list_verdict_def Let_def)
    qed
  qed
qed


subsection \<open>Joining entries\<close>

fun join :: "string list \<Rightarrow> string" where
  "join [] = []"
| "join [t] = t"
| "join (t # u # ts) = t @ CHR '','' # join (u # ts)"

lemma strsep_all_append:
  "CHR '','' \<notin> set t \<Longrightarrow> strsep_all (t @ CHR '','' # s) = t # strsep_all s"
  by (induction t) auto

lemma strsep_all_single: "CHR '','' \<notin> set t \<Longrightarrow> strsep_all t = [t]"
  by (induction t) auto

lemma strsep_all_join:
  "ts \<noteq> [] \<Longrightarrow> (\<And>t. t \<in> set ts \<Longrightarrow> CHR '','' \<notin> set t) \<Longrightarrow> strsep_all (join ts) = ts"
  by (induction ts rule: join.induct) (simp_all add: strsep_all_append strsep_all_single)

lemma join_snoc: "ts \<noteq> [] \<Longrightarrow> join (ts @ [t]) = join ts @ CHR '','' # t"
  by (induction ts rule: join.induct) auto

lemma join_empty: "join ts = [] \<Longrightarrow> ts = [] \<or> ts = [[]]"
  by (induction ts rule: join.induct) auto

abbreviation keep_entry :: "string \<Rightarrow> bool \<Rightarrow> string \<Rightarrow> bool" where
  "keep_entry filt denylist t \<equiv> (match_pattern_list t filt False = 1) = (\<not> denylist)"

lemma filter_list_loop_join:
  assumes "length (join ts) + (\<Sum>t\<leftarrow>cps. length t + 1) \<le> L + (if ts = [] then 1 else 0)"
    and "ts = [] \<or> hd ts \<noteq> []"
  shows "filter_list_loop cps filt deny (L + 1) (join ts) =
    join (dropWhile (\<lambda>t. t = []) (ts @ filter (keep_entry filt deny) cps))"
  using assms
proof (induction cps arbitrary: ts)
  case Nil
  then show ?case by (cases ts) auto
next
  case (Cons cp cps)
  show ?case
  proof (cases "keep_entry filt deny cp")
    case False
    then show ?thesis using Cons.IH [of ts] Cons.prems by (auto simp: Let_def split: if_splits)
  next
    case keep: True
    consider "ts = []" "cp = []" | "ts = []" "cp \<noteq> []" | "ts \<noteq> []" "hd ts \<noteq> []"
      using Cons.prems(2) by blast
    then show ?thesis
    proof cases
      case 1
      then show ?thesis
        using Cons.IH [of "[]"] Cons.prems keep by (auto simp: Let_def strlcat_def)
    next
      case 2
      then show ?thesis
        using Cons.IH [of "[cp]"] Cons.prems keep by (auto simp: Let_def strlcat_def)
    next
      case 3
      then have "join ts \<noteq> []" using join_empty by fastforce
      then show ?thesis
        using 3 Cons.IH [of "ts @ [cp]"] Cons.prems keep
        by (auto simp: Let_def strlcat_def join_snoc)
    qed
  qed
qed

lemma filter_list_join:
  "filter_list True proposal filt deny =
     Some (join (dropWhile (\<lambda>t. t = []) (filter (keep_entry filt deny) (strsep_all proposal))))"
  using filter_list_loop_join [of "[]" "strsep_all proposal" "length proposal" filt deny]
    strsep_all_size [of proposal]
  by (simp add: filter_list_def)

subsection \<open>The negotiated algorithm\<close>

lemma find_Some_split:
  "find P xs = Some x \<longleftrightarrow> (\<exists>u v. xs = u @ x # v \<and> P x \<and> (\<forall>y \<in> set u. \<not> P y))"
proof (induction xs)
  case (Cons z xs)
  show ?case
  proof (cases "P z")
    case True
    then show ?thesis by (auto simp: Cons_eq_append_conv)
  next
    case False
    have "(\<exists>u v. z # xs = u @ x # v \<and> P x \<and> (\<forall>y \<in> set u. \<not> P y)) \<longleftrightarrow>
        (\<exists>u v. xs = u @ x # v \<and> P x \<and> (\<forall>y \<in> set u. \<not> P y))" (is "?l \<longleftrightarrow> ?r")
    proof
      assume ?l
      then obtain u v where "z # xs = u @ x # v" "P x" "\<forall>y \<in> set u. \<not> P y" by blast
      with False show ?r by (cases u) auto
    next
      assume ?r
      then obtain u v where "xs = u @ x # v" "P x" "\<forall>y \<in> set u. \<not> P y" by blast
      with False show ?l by (intro exI [of _ "z # u"] exI [of _ v]) auto
    qed
    with Cons False show ?thesis by simp
  qed
qed simp

lemma match_list_loop_find:
  "fst (match_list_loop c0 S off ts) = find (\<lambda>t. t \<in> set S) (takeWhile (\<lambda>t. t \<noteq> []) ts)"
  by (induction ts arbitrary: off) auto

lemma match_list_find:
  "fst (match_list client server) =
     find (\<lambda>t. t \<in> set (take MAX_PROP (proposals server))) (proposals client)"
  by (simp add: match_list_def match_list_loop_find proposals_def Let_def)


lemma sum_dropWhile_le: "(\<Sum>t\<leftarrow>dropWhile P ts. f t) \<le> (\<Sum>t\<leftarrow>ts. f t :: nat)"
  by (induction ts) auto

lemma length_join_le:
  assumes "\<And>t. t \<in> set ts \<Longrightarrow> CHR '','' \<notin> set t" "(\<Sum>t\<leftarrow>ts. length t + 1) \<le> n + 1"
  shows "length (join ts) \<le> n"
  using assms strsep_all_size [of "join ts"] strsep_all_join [of ts] by (cases "ts = []") auto

section \<open>Properties\<close>

text \<open>
  (C14) \<^verbatim>\<open>match_pattern\<close> accepts exactly the strings the pattern denotes: \<^verbatim>\<open>*\<close> stands for any
  string, \<^verbatim>\<open>?\<close> for any one character and every other character for itself.
\<close>

theorem match_pattern_glob: "match_pattern s p \<longleftrightarrow> glob p s"
  by (rule match_pattern_eq_glob)

text \<open>
  (C29) \<^verbatim>\<open>match_pattern_list\<close> answers \<open>-1\<close> when an entry negated with \<^verbatim>\<open>!\<close> matches, whatever
  positive entries match before or after it; otherwise \<open>1\<close> when a positive entry matches and
  \<open>0\<close> when none does.  An entry of 1023 characters or more ends the scan: the entries after it
  are not looked at, and the answer is not positive.
\<close>

theorem match_pattern_list_entries:
  "match_pattern_list s pattern dolower =
     (let es = list_entries pattern; seen = takeWhile entry_fits es
      in if \<exists>e \<in> set seen. entry_negated e \<and> entry_matches s dolower e then -1
         else if seen \<noteq> es then 0
         else if \<exists>e \<in> set es. \<not> entry_negated e \<and> entry_matches s dolower e then 1 else 0)"
  by (simp only: match_pattern_list_def match_pattern_list_loop_verdict list_verdict_def Let_def simp_thms)


text \<open>
  (C30) \<^verbatim>\<open>filter_list\<close>, given memory, returns the entries of the proposal that the deny list
  does not match (or that the allow list matches), complete and in their order, empty entries
  at the front left out; the result never outgrows the buffer of the proposal's size.
\<close>

theorem filter_list_entries:
  "\<exists>r. filter_list True proposal filt denylist = Some r \<and> length r \<le> length proposal \<and>
     strsep_all r =
       (case dropWhile (\<lambda>t. t = []) (filter (keep_entry filt denylist) (strsep_all proposal))
        of [] \<Rightarrow> [[]] | ts \<Rightarrow> ts)"
proof -
  define ts where "ts = dropWhile (\<lambda>t. t = []) (filter (keep_entry filt denylist) (strsep_all proposal))"
  have nocomma: "CHR '','' \<notin> set t" if "t \<in> set ts" for t
    using set_dropWhileD [OF that [unfolded ts_def]] strsep_all_no_comma [of t proposal] by simp
  have "(\<Sum>t\<leftarrow>ts. length t + 1) \<le> length proposal + 1"
    unfolding strsep_all_size [of proposal, symmetric] ts_def
    by (rule order_trans [OF sum_dropWhile_le sum_list_filter_le_nat])
  from length_join_le [OF nocomma this] filter_list_join [of proposal filt denylist, folded ts_def]
    strsep_all_join [of ts, OF _ nocomma]
  show ?thesis unfolding ts_def [symmetric] by (cases ts) auto
qed

end
