(* ===== verification/Sshbuf_Misc.thy ===== *)
theory Sshbuf_Misc
  imports Sshbuf_GetPut Hmac Match
begin

unbundle bit_operations_syntax

text \<open>
  Further functions on buffers, from \<^verbatim>\<open>sshbuf-misc.c\<close> and \<^verbatim>\<open>sshbuf-getput-basic.c\<close>: hexadecimal text, comparing, searching, and strings that end with
  \<^verbatim>\<open>NUL\<close>; and the digests of buffers from \<^verbatim>\<open>digest-openssl.c\<close>.
\<close>

section \<open>Hexadecimal text\<close>

definition hex_digit :: "nat \<Rightarrow> char" where
  "hex_digit n = ''0123456789abcdef'' ! n"

definition hex_byte :: "byte \<Rightarrow> string" where
  "hex_byte v = [hex_digit (unat (drop_bit 4 v AND 0xf)), hex_digit (unat (v AND 0xf))]"

definition sshbuf_dtob16 :: "bool \<Rightarrow> sshbuf \<Rightarrow> string option" where
  "sshbuf_dtob16 malloc b =
     (let len = sshbuf_len b in
      if len = 0 then if malloc then Some [] else None
      else case sshbuf_ptr b of None \<Rightarrow> None
      | Some (_, p) \<Rightarrow>
          if SIZE_MAX div 2 \<le> len \<or> \<not> malloc then None else Some (concat (map hex_byte (take len p))))"

definition b16tod :: "char \<Rightarrow> nat option" where
  "b16tod v =
     (let n = (of_char v :: nat) in
      if 48 \<le> n \<and> n \<le> 57 then Some (n - 48)
      else if 97 \<le> n \<and> n \<le> 102 then Some (10 + n - 97)
      else if 65 \<le> n \<and> n \<le> 70 then Some (10 + n - 65)
      else None)"

text \<open>The loop; an odd number of digits fails at the \<^verbatim>\<open>NUL\<close>.  The allocations of the buffer are numbered.\<close>

fun b16tod_loop :: "(nat \<Rightarrow> nat option) \<Rightarrow> nat \<Rightarrow> string \<Rightarrow> sshbuf \<Rightarrow> sshbuf option" where
  "b16tod_loop ra i [] ret = Some ret"
| "b16tod_loop ra i [c] ret = None"
| "b16tod_loop ra i (c1 # c2 # b16) ret =
     (case b16tod c1 of None \<Rightarrow> None
      | Some v1 \<Rightarrow>
        (case b16tod c2 of None \<Rightarrow> None
         | Some v2 \<Rightarrow>
           (case sshbuf_put_u8 (ra i) ret (of_nat (push_bit 4 v1 OR v2)) of
              (Inl e, ret) \<Rightarrow> None
            | (Inr _, ret) \<Rightarrow> b16tod_loop ra (i + 1) b16 ret)))"

definition sshbuf_b16tod :: "nat option \<Rightarrow> nat option \<Rightarrow> (nat \<Rightarrow> nat option) \<Rightarrow> string \<Rightarrow> sshbuf option" where
  "sshbuf_b16tod sp dp ra b16 = (case sshbuf_new sp dp of None \<Rightarrow> None | Some ret \<Rightarrow> b16tod_loop ra 0 b16 ret)"

section \<open>Comparing and searching\<close>

definition sshbuf_dup_string :: "bool \<Rightarrow> sshbuf \<Rightarrow> byte list option" where
  "sshbuf_dup_string malloc b =
     (let l = sshbuf_len b in
      case sshbuf_ptr b of None \<Rightarrow> None
      | Some (_, s) \<Rightarrow>
          if l \<ge> SIZE_MAX then None
          else (case (if l > 0 then memchr 0 (take l s) else None) of
                  None \<Rightarrow> if malloc then Some (take l s) else None
                | Some p \<Rightarrow> if p \<noteq> l - 1 then None else if malloc then Some (take (l - 1) s) else None))"

definition sshbuf_cmp :: "sshbuf \<Rightarrow> nat \<Rightarrow> byte list \<Rightarrow> ssh_err + unit" where
  "sshbuf_cmp b offset s =
     (let len = length s in
      case sshbuf_ptr b of None \<Rightarrow> Inl SSH_ERR_INTERNAL_ERROR
      | Some (_, p) \<Rightarrow>
          if offset > SSHBUF_SIZE_MAX \<or> len > SSHBUF_SIZE_MAX \<or> len = 0 then Inl SSH_ERR_INVALID_ARGUMENT
          else if size_add offset len > sshbuf_len b then Inl SSH_ERR_MESSAGE_INCOMPLETE
          else if take len (drop offset p) \<noteq> s then Inl SSH_ERR_INVALID_FORMAT
          else Inr ())"

definition sshbuf_equals :: "sshbuf \<Rightarrow> sshbuf \<Rightarrow> ssh_err + unit" where
  "sshbuf_equals a b =
     (case (sshbuf_ptr a, sshbuf_ptr b) of
        (Some (_, p), Some (_, q)) \<Rightarrow>
          if sshbuf_len a \<noteq> sshbuf_len b then Inl SSH_ERR_MESSAGE_INCOMPLETE
          else if sshbuf_len a = 0 then Inr ()
          else if take (sshbuf_len a) p \<noteq> take (sshbuf_len a) q then Inl SSH_ERR_INVALID_FORMAT
          else Inr ()
      | _ \<Rightarrow> Inl SSH_ERR_INTERNAL_ERROR)"

text \<open>\<^verbatim>\<open>memmem\<close> of the C library: where the second sequence first occurs in the first.\<close>

definition memmem :: "byte list \<Rightarrow> byte list \<Rightarrow> nat option" where
  "memmem big little = find (\<lambda>i. take (length little) (drop i big) = little) [0..<Suc (length big - length little)]"

definition sshbuf_find :: "sshbuf \<Rightarrow> nat \<Rightarrow> byte list \<Rightarrow> ssh_err + nat" where
  "sshbuf_find b start_offset s =
     (let len = length s in
      case sshbuf_ptr b of None \<Rightarrow> Inl SSH_ERR_INTERNAL_ERROR
      | Some (_, p) \<Rightarrow>
          if start_offset > SSHBUF_SIZE_MAX \<or> len > SSHBUF_SIZE_MAX \<or> len = 0 then Inl SSH_ERR_INVALID_ARGUMENT
          else if start_offset > sshbuf_len b \<or> size_add start_offset len > sshbuf_len b then Inl SSH_ERR_MESSAGE_INCOMPLETE
          else (case memmem (take (sshbuf_len b - start_offset) (drop start_offset p)) s of
                  None \<Rightarrow> Inl SSH_ERR_INVALID_FORMAT
                | Some i \<Rightarrow> Inr (start_offset + i)))"

definition sshbuf_get_nulterminated_string :: "bool \<Rightarrow> sshbuf \<Rightarrow> nat \<Rightarrow> (sshbuf, byte list) outcome" where
  "sshbuf_get_nulterminated_string malloc b maxlen =
     (case sshbuf_find b 0 [0] of
        Inl e \<Rightarrow> if e = SSH_ERR_INVALID_FORMAT \<and> sshbuf_len b < maxlen then (Inl SSH_ERR_MESSAGE_INCOMPLETE, b) else (Inl e, b)
      | Inr len \<Rightarrow>
          if len > maxlen then (Inl SSH_ERR_INVALID_FORMAT, b)
          else if \<not> malloc then (Inl SSH_ERR_ALLOC_FAIL, b)
          else (case sshbuf_ptr b of None \<Rightarrow> (Inl SSH_ERR_INTERNAL_ERROR, b)
                | Some (_, p) \<Rightarrow>
                    (case sshbuf_consume b (size_add len 1) of
                       (Inl e, b) \<Rightarrow> (Inl e, b)
                     | (Inr _, b) \<Rightarrow> (Inr (takeWhile (\<lambda>c. c \<noteq> 0) p), b))))"

section \<open>Digests of buffers\<close>

definition ssh_digest_alg_by_name :: "string \<Rightarrow> int" where
  "ssh_digest_alg_by_name name =
     (case find (\<lambda>d. map tolower name = map tolower (dg_name d)) digests of None \<Rightarrow> -1 | Some d \<Rightarrow> dg_id d)"

abbreviation readable :: "sshbuf \<Rightarrow> byte list" where
  "readable b \<equiv> (case sshbuf_ptr b of None \<Rightarrow> [] | Some (_, p) \<Rightarrow> take (sshbuf_len b) p)"

definition ssh_digest_update_buffer :: "md_ops \<Rightarrow> ssh_digest_ctx \<Rightarrow> sshbuf \<Rightarrow> ssh_err + ssh_digest_ctx" where
  "ssh_digest_update_buffer M ctx b = ssh_digest_update M ctx (readable b)"

definition ssh_digest_buffer :: "md_ops \<Rightarrow> int \<Rightarrow> sshbuf \<Rightarrow> nat \<Rightarrow> ssh_err + byte list" where
  "ssh_digest_buffer M alg b dlen = ssh_digest_memory M alg (readable b) dlen"

section \<open>Correctness\<close>

lemma hex_digit_read: "n < 16 \<Longrightarrow> b16tod (hex_digit n) = Some n"
proof -
  have "\<forall>n \<in> set [0..<16]. b16tod (hex_digit n) = Some n" by code_simp
  then show "n < 16 \<Longrightarrow> b16tod (hex_digit n) = Some n" by simp
qed

lemma nibbles:
  fixes v :: byte
  shows "unat (drop_bit 4 v AND 0xf) < 16" "unat (v AND 0xf) < 16"
    "of_nat (push_bit 4 (unat (drop_bit 4 v AND 0xf)) OR unat (v AND 0xf)) = v"
proof -
  have m: "(0xf :: byte) = mask 4" by (simp add: mask_eq_exp_minus_1)
  have lt: "unat (x AND 0xf) < 16" for x :: byte
    unfolding m by (simp add: take_bit_eq_mask [symmetric] unsigned_take_bit_eq take_bit_nat_less_exp [of 4, simplified])
  show "unat (drop_bit 4 v AND 0xf) < 16" "unat (v AND 0xf) < 16" by (rule lt)+
  have "(of_nat (push_bit 4 (unat (drop_bit 4 v AND 0xf)) OR unat (v AND 0xf)) :: byte) = push_bit 4 (drop_bit 4 v AND 0xf) OR (v AND 0xf)"
    by (simp only: of_nat_or_eq push_bit_of_nat [symmetric] of_nat_unat ucast_id)
  also have "\<dots> = v"
    unfolding m by (rule bit_word_eqI) (auto simp: bit_simps)
  finally show "of_nat (push_bit 4 (unat (drop_bit 4 v AND 0xf)) OR unat (v AND 0xf)) = v" .
qed

lemma hex_loop:
  assumes "sshbuf_wf ret" "b16tod_loop ra i (concat (map hex_byte vs)) ret = Some ret'"
  shows "sshbuf_wf ret' \<and> buf_data ret' = buf_data ret @ vs"
  using assms
proof (induction vs arbitrary: ret i)
  case (Cons v vs)
  obtain r b where b: "sshbuf_put (ra i) ret [v] = (r, b)" by fastforce
  have ok: "r = Inr ()" "b16tod_loop ra (i + 1) (concat (map hex_byte vs)) b = Some ret'"
    using Cons.prems(2) b by (auto simp: hex_byte_def [of v] hex_digit_read nibbles put_ints split: sum.splits)
  have "sshbuf_wf b" "buf_data b = buf_data ret @ [v]" using put_spec [OF Cons.prems(1) b] ok(1) by simp_all
  with Cons.IH [OF _ ok(2)] show ?case by simp
qed simp

text \<open>What is written as hexadecimal text is read back.\<close>

lemma b16_roundtrip:
  assumes "sshbuf_wf b" "sshbuf_dtob16 malloc b = Some s" "sshbuf_b16tod sp dp ra s = Some ret"
  shows "buf_data ret = buf_data b"
proof -
  obtain p where ptr: "sshbuf_ptr b = Some (p, drop (buf_off b) (buf_mem b))" by (rule sshbuf_ptr_wf [OF assms(1)])
  have "s = concat (map hex_byte (buf_data b))"
    using assms(1,2) ptr ptr_take [of "length (buf_data b)" b] by (auto simp: sshbuf_dtob16_def Let_def split: if_splits)
  moreover obtain ret0 where "sshbuf_new sp dp = Some ret0" "b16tod_loop ra 0 s ret0 = Some ret"
    using assms(3) by (auto simp: sshbuf_b16tod_def split: option.splits)
  moreover from this have "sshbuf_wf ret0" "buf_data ret0 = []"
    by (auto simp: sshbuf_new_def sshbuf_wf_def sshbuf_check_sanity_def sshbuf_consts buf_data_def split: option.splits)
  ultimately show ?thesis using hex_loop by fastforce
qed

text \<open>A string that is taken off a buffer has no \<^verbatim>\<open>NUL\<close> and is followed by one, and is no longer than asked for.\<close>

lemma memmem_nul:
  assumes "memmem big [0] = Some i" "big \<noteq> []"
  shows "i < length big" "takeWhile (\<lambda>c. c \<noteq> 0) big = take i big" "big ! i = 0"
proof -
  have i: "i < length big" "take 1 (drop i big) = [0]" and before: "\<And>j. j < i \<Longrightarrow> take 1 (drop j big) \<noteq> [0]"
    using assms by (auto simp: memmem_def find_Some_iff simp del: upt_Suc)
  have nth: "take 1 (drop j big) = [big ! j]" if "j < length big" for j using that by (simp add: take_Suc hd_drop_conv_nth)
  show "i < length big" "big ! i = 0" using i nth [of i] by simp_all
  show "takeWhile (\<lambda>c. c \<noteq> 0) big = take i big"
    using \<open>big ! i = 0\<close> before nth i(1) by (intro takeWhile_eq_take_P_nth) auto
qed

lemma get_nulterminated_string_spec:
  assumes wf: "sshbuf_wf b" and r: "sshbuf_get_nulterminated_string malloc b maxlen = (Inr v, b')"
  shows "sshbuf_wf b' \<and> buf_data b = v @ 0 # buf_data b' \<and> 0 \<notin> set v \<and> length v \<le> maxlen"
proof -
  obtain p where ptr: "sshbuf_ptr b = Some (p, drop (buf_off b) (buf_mem b))" by (rule sshbuf_ptr_wf [OF wf])
  obtain i where i: "sshbuf_find b 0 [0] = Inr i" "i \<le> maxlen" and c: "sshbuf_consume b (size_add i 1) = (Inr (), b')"
    and v: "v = takeWhile (\<lambda>c. c \<noteq> 0) (drop (buf_off b) (buf_mem b))"
    using r ptr by (auto simp: sshbuf_get_nulterminated_string_def split: sum.splits if_splits prod.splits)
  let ?d = "buf_data b"
  have m: "memmem ?d [0] = Some i" "?d \<noteq> []"
    using i(1) wf ptr ptr_take [of "length ?d" b]
    by (auto simp: sshbuf_find_def Let_def size_add_def SIZE_MAX_def split: if_splits option.splits)
  note mm = memmem_nul [OF m]
  have d: "take (length ?d) (drop (buf_off b) (buf_mem b)) = ?d" using ptr_take [of "length ?d" b] by simp
  have "takeWhile (\<lambda>c. c \<noteq> 0) (?d @ drop (length ?d) (drop (buf_off b) (buf_mem b))) = takeWhile (\<lambda>c. c \<noteq> 0) ?d"
    using mm(1,3) nth_mem [OF mm(1)] by (intro takeWhile_append1 [of 0]) auto
  then have "v = take i ?d" using d mm(2) v by (metis append_take_drop_id)
  moreover have "size_add i 1 = i + 1"
    using mm(1) wf_bounds [OF wf] length_buf_data [OF wf] by (simp add: size_add_def SIZE_MAX_def sshbuf_consts)
  then have "buf_data b' = drop (i + 1) ?d" "sshbuf_wf b'" using consume_spec [OF wf c] mm(1) by (auto split: if_splits)
  moreover have "?d = take i ?d @ ?d ! i # drop (Suc i) ?d" using mm(1) by (rule id_take_nth_drop)
  moreover have "0 \<notin> set (take i ?d)" using mm(2) by (metis (mono_tags, lifting) set_takeWhileD)
  ultimately show ?thesis using mm i(2) by auto
qed

end
