(* ===== verification/Strtonum.thy ===== *)
theory Strtonum
  imports Prelude
begin

text \<open>
  Reading decimal numbers: \<^verbatim>\<open>strtonum\<close> of \<^verbatim>\<open>openbsd-compat/strtonum.c\<close> on top of the C
  library's \<^verbatim>\<open>strtoll\<close> in base ten (white space, an optional sign, digits; out-of-range
  values saturate and set \<^verbatim>\<open>ERANGE\<close>).  The lemma at the end says which strings are accepted
  as which numbers.
\<close>

definition isspace :: "char \<Rightarrow> bool" where
  "isspace c \<longleftrightarrow> (of_char c :: nat) \<in> {9, 10, 11, 12, 13, 32}"

definition isdigit :: "char \<Rightarrow> bool" where
  "isdigit c \<longleftrightarrow> 48 \<le> (of_char c :: nat) \<and> (of_char c :: nat) \<le> 57"

definition digit_value :: "char \<Rightarrow> int" where
  "digit_value c = int (of_char c) - 48"

text \<open>The value of a string of decimal digits.\<close>

definition decimal :: "string \<Rightarrow> int" where
  "decimal ds = foldl (\<lambda>a c. 10 * a + digit_value c) 0 ds"

definition LLONG_MAX :: int where "LLONG_MAX = 2 ^ 63 - 1"
definition LLONG_MIN :: int where "LLONG_MIN = - (2 ^ 63)"

text \<open>
  \<^verbatim>\<open>strtoll(s, &ep, 10)\<close>: the value, the rest of the string \<^verbatim>\<open>ep\<close> points to, and whether
  \<^verbatim>\<open>errno\<close> is \<^verbatim>\<open>ERANGE\<close>.  Without digits the result is 0 and \<^verbatim>\<open>ep\<close> is \<open>s\<close> itself.
\<close>

definition strtoll :: "string \<Rightarrow> int \<times> string \<times> bool" where
  "strtoll s =
     (let t = dropWhile isspace s;
          neg = (t \<noteq> [] \<and> hd t = CHR ''-'');
          u = (if t \<noteq> [] \<and> hd t \<in> {CHR ''-'', CHR ''+''} then tl t else t);
          ds = takeWhile isdigit u;
          v = (if neg then - decimal ds else decimal ds)
      in if ds = [] then (0, s, False)
         else if v < LLONG_MIN then (LLONG_MIN, dropWhile isdigit u, True)
         else if v > LLONG_MAX then (LLONG_MAX, dropWhile isdigit u, True)
         else (v, dropWhile isdigit u, False))"

datatype strtonum_error = INVALID | TOOSMALL | TOOLARGE

definition strtonum :: "string \<Rightarrow> int \<Rightarrow> int \<Rightarrow> strtonum_error + int" where
  "strtonum numstr minval maxval =
     (if minval > maxval then Inl INVALID
      else case strtoll numstr of (ll, ep, erange) \<Rightarrow>
        if ep = numstr \<or> ep \<noteq> [] then Inl INVALID
        else if (ll = LLONG_MIN \<and> erange) \<or> ll < minval then Inl TOOSMALL
        else if (ll = LLONG_MAX \<and> erange) \<or> ll > maxval then Inl TOOLARGE
        else Inr ll)"

section \<open>Which strings are numbers\<close>

text \<open>A sign and digits, with white space before them.\<close>

definition numeral_of :: "string \<Rightarrow> int \<Rightarrow> bool" where
  "numeral_of s v \<longleftrightarrow> (\<exists>ws sign ds. s = ws @ sign @ ds \<and> (\<forall>c \<in> set ws. isspace c) \<and> sign \<in> {[], ''+'', ''-''} \<and>
     ds \<noteq> [] \<and> (\<forall>c \<in> set ds. isdigit c) \<and> v = (if sign = ''-'' then - decimal ds else decimal ds))"

lemma signs: "\<not> isspace (CHR ''+'')" "\<not> isspace (CHR ''-'')" "\<not> isdigit (CHR ''+'')" "\<not> isdigit (CHR ''-'')"
  by (simp_all add: isspace_def isdigit_def)

lemma digit_not_space: "isdigit c \<Longrightarrow> \<not> isspace c \<and> c \<noteq> CHR ''-'' \<and> c \<noteq> CHR ''+''"
  by (auto simp: isspace_def isdigit_def)

definition clamp :: "int \<Rightarrow> int \<times> bool" where
  "clamp v = (if v < LLONG_MIN then (LLONG_MIN, True) else if v > LLONG_MAX then (LLONG_MAX, True) else (v, False))"

lemma strtoll_numeral:
  assumes "numeral_of s v"
  shows "strtoll s = (fst (clamp v), [], snd (clamp v)) \<and> s \<noteq> []"
proof -
  obtain ws sign ds where s: "s = ws @ sign @ ds" "\<forall>c \<in> set ws. isspace c" "sign \<in> {[], ''+'', ''-''}" "ds \<noteq> []" "\<forall>c \<in> set ds. isdigit c"
    and v: "v = (if sign = ''-'' then - decimal ds else decimal ds)" using assms by (auto simp: numeral_of_def)
  obtain d ds' where d: "ds = d # ds'" using s(4) by (cases ds) auto
  then have "isdigit d" using s(5) by simp
  note d' = digit_not_space [OF this]
  have t: "dropWhile isspace s = sign @ ds" using s(2,3) d d' signs by (auto simp: s(1) dropWhile_append2)
  have ds: "takeWhile isdigit ds = ds" "dropWhile isdigit ds = []" using s(5) by simp_all
  have u: "(if sign @ ds \<noteq> [] \<and> hd (sign @ ds) \<in> {CHR ''-'', CHR ''+''} then tl (sign @ ds) else sign @ ds) = ds"
    using s(3) d d' by auto
  have neg: "(sign @ ds \<noteq> [] \<and> hd (sign @ ds) = CHR ''-'') = (sign = ''-'')" using s(3) d d' by auto
  show ?thesis
    unfolding strtoll_def Let_def t u ds neg v [symmetric] using s(1,4) by (simp add: clamp_def)
qed

lemma strtoll_rest:
  assumes "strtoll s = (ll, [], erange)" "s \<noteq> []"
  shows "\<exists>v. numeral_of s v"
proof -
  define t where "t = dropWhile isspace s"
  define sign where "sign = (if t \<noteq> [] \<and> hd t \<in> {CHR ''-'', CHR ''+''} then [hd t] else [])"
  define u where "u = (if t \<noteq> [] \<and> hd t \<in> {CHR ''-'', CHR ''+''} then tl t else t)"
  have "takeWhile isdigit u \<noteq> []" "dropWhile isdigit u = []"
    using assms unfolding strtoll_def Let_def t_def [symmetric] u_def [symmetric] by (auto split: if_splits)
  then have u: "u \<noteq> []" "\<forall>c \<in> set u. isdigit c" by auto
  have "t = sign @ u" by (cases t) (auto simp: sign_def u_def)
  moreover have "s = takeWhile isspace s @ t" by (simp add: t_def)
  ultimately have "s = takeWhile isspace s @ sign @ u" by simp
  moreover have "\<forall>c \<in> set (takeWhile isspace s). isspace c" by (auto dest: set_takeWhileD)
  moreover have "sign \<in> {[], ''+'', ''-''}" by (auto simp: sign_def)
  ultimately show ?thesis using u unfolding numeral_of_def by blast
qed

text \<open>Exactly the numerals within the bounds are accepted, with their value.\<close>

lemma strtonum_accepts:
  assumes "LLONG_MIN \<le> minval" "maxval \<le> LLONG_MAX"
  shows "strtonum s minval maxval = Inr n \<longleftrightarrow> numeral_of s n \<and> minval \<le> n \<and> n \<le> maxval"
proof
  assume r: "strtonum s minval maxval = Inr n"
  obtain ll ep erange where ll: "strtoll s = (ll, ep, erange)" using prod_cases3 by blast
  with r have ok: "ep = []" "s \<noteq> []" "n = ll" "minval \<le> ll" "ll \<le> maxval" "\<not> (ll = LLONG_MIN \<and> erange)" "\<not> (ll = LLONG_MAX \<and> erange)"
    by (auto simp: strtonum_def split: if_splits)
  with strtoll_rest ll obtain v where v: "numeral_of s v" by blast
  with strtoll_numeral [OF v] ll ok have "clamp v = (ll, erange)" by (auto simp: prod_eq_iff)
  then have "v = ll" using ok by (auto simp: clamp_def split: if_splits)
  then show "numeral_of s n \<and> minval \<le> n \<and> n \<le> maxval" using v ok by simp
next
  assume n: "numeral_of s n \<and> minval \<le> n \<and> n \<le> maxval"
  then have "clamp n = (n, False)" using assms by (simp add: clamp_def)
  with n strtoll_numeral [of s n] show "strtonum s minval maxval = Inr n" by (auto simp: strtonum_def)
qed

end
