(* ===== verification/Addr.thy ===== *)
theory Addr
  imports Strtonum
begin

text \<open>
  Network addresses, from \<^verbatim>\<open>addr.c\<close>: masks, bitwise operations, comparison, increment, parsing
  of an address with a mask length and the test whether an address lies in a network.

  The 128-bit union of \<^verbatim>\<open>struct xaddr\<close> is the list of its four 32-bit words as \<^verbatim>\<open>ntohl\<close> reads
  them, so that \<^verbatim>\<open>htonl\<close> and \<^verbatim>\<open>ntohl\<close> are identities of the model and the bytes
  \<^verbatim>\<open>addr8\<close> are the bytes of the words from the most significant one on, on every host; an
  IPv4 address is word 0.  The numeric value of an address, \<open>addr_value\<close>, is the reference
  the operations are compared with.  \<^verbatim>\<open>getaddrinfo\<close> is a parameter.
\<close>

section \<open>Data\<close>

datatype family = AF_INET | AF_INET6 | AF_OTHER nat

abbreviation AF_UNSPEC :: family where "AF_UNSPEC \<equiv> AF_OTHER 0"

record xaddr =
  af :: family
  addr32 :: "32 word list"
  scope_id :: "32 word"

abbreviation v4 :: "xaddr \<Rightarrow> 32 word" where "v4 a \<equiv> addr32 a ! 0"

definition xaddr_zero :: xaddr where
  "xaddr_zero = \<lparr>af = AF_UNSPEC, addr32 = [0, 0, 0, 0], scope_id = 0\<rparr>"

definition addr8 :: "xaddr \<Rightarrow> byte list" where
  "addr8 a = concat (map (\<lambda>w. [ucast (drop_bit 24 w), ucast (drop_bit 16 w),
     ucast (drop_bit 8 w), ucast w]) (addr32 a))"

text \<open>A socket address of the two families, or of another family.\<close>

datatype sockaddr =
    Sockaddr_in (sin_port: "16 word") (sin_addr: "32 word")
  | Sockaddr_in6 (sin6_port: "16 word") (sin6_addr: "32 word \<times> 32 word \<times> 32 word \<times> 32 word") (sin6_scope_id: "32 word")
  | Sockaddr_other (sa_family: nat)

definition sizeof_sockaddr_in :: nat where "sizeof_sockaddr_in = 16"
definition sizeof_sockaddr_in6 :: nat where "sizeof_sockaddr_in6 = 28"

section \<open>Masks and bitwise operations\<close>

text \<open>Results of \<open>None\<close> stand for \<open>-1\<close>; an object written through a pointer is the value in \<open>Some\<close>.\<close>

definition addr_unicast_masklen :: "family \<Rightarrow> int" where
  "addr_unicast_masklen f = (case f of AF_INET \<Rightarrow> 32 | AF_INET6 \<Rightarrow> 128 | AF_OTHER _ \<Rightarrow> -1)"

definition masklen_valid :: "family \<Rightarrow> nat \<Rightarrow> bool" where
  "masklen_valid f masklen =
     (case f of AF_INET \<Rightarrow> masklen \<le> 32 | AF_INET6 \<Rightarrow> masklen \<le> 128 | AF_OTHER _ \<Rightarrow> False)"

definition addr_xaddr_to_sa :: "xaddr \<Rightarrow> nat \<Rightarrow> 16 word \<Rightarrow> (sockaddr \<times> nat) option" where
  "addr_xaddr_to_sa xa len port =
     (case af xa of
        AF_INET \<Rightarrow> if len < sizeof_sockaddr_in then None
                   else Some (Sockaddr_in port (v4 xa), sizeof_sockaddr_in)
      | AF_INET6 \<Rightarrow> if len < sizeof_sockaddr_in6 then None
                    else Some (Sockaddr_in6 port (addr32 xa ! 0, addr32 xa ! 1, addr32 xa ! 2, addr32 xa ! 3)
                            (scope_id xa), sizeof_sockaddr_in6)
      | AF_OTHER _ \<Rightarrow> None)"

definition addr_sa_to_xaddr :: "sockaddr \<Rightarrow> nat \<Rightarrow> xaddr option" where
  "addr_sa_to_xaddr sa slen =
     (case sa of
        Sockaddr_in port addr \<Rightarrow>
          if slen < sizeof_sockaddr_in then None
          else Some (xaddr_zero\<lparr>af := AF_INET, addr32 := (addr32 xaddr_zero)[0 := addr]\<rparr>)
      | Sockaddr_in6 port (w0, w1, w2, w3) scope \<Rightarrow>
          if slen < sizeof_sockaddr_in6 then None
          else Some (xaddr_zero\<lparr>af := AF_INET6, addr32 := [w0, w1, w2, w3], scope_id := scope\<rparr>)
      | Sockaddr_other _ \<Rightarrow> None)"

definition addr_invert :: "xaddr \<Rightarrow> xaddr option" where
  "addr_invert n =
     (case af n of
        AF_INET \<Rightarrow> Some (n\<lparr>addr32 := (addr32 n)[0 := NOT (v4 n)]\<rparr>)
      | AF_INET6 \<Rightarrow> Some (n\<lparr>addr32 := map (\<lambda>w. NOT w) (addr32 n)\<rparr>)
      | AF_OTHER _ \<Rightarrow> None)"

text \<open>The loop over the words of an IPv6 mask.\<close>

function netmask6 :: "nat \<Rightarrow> nat \<Rightarrow> 32 word list \<Rightarrow> 32 word list" where
  "netmask6 i l ws =
     (if i < 4 \<and> l \<ge> 32 then netmask6 (i + 1) (l - 32) (ws[i := 0xffffffff])
      else if i < 4 \<and> l \<noteq> 0 then ws[i := push_bit (32 - l) 0xffffffff AND 0xffffffff]
      else ws)"
  by pat_completeness auto

termination
  by (relation "measure (\<lambda>(i, l, ws). 4 - i)") auto

declare netmask6.simps [simp del]

definition addr_netmask :: "family \<Rightarrow> nat \<Rightarrow> xaddr option" where
  "addr_netmask f l =
     (if \<not> masklen_valid f l then None
      else case f of
        AF_INET \<Rightarrow>
          let n = xaddr_zero\<lparr>af := AF_INET\<rparr> in
          if l = 0 then Some n
          else Some (n\<lparr>addr32 := (addr32 n)[0 := push_bit (32 - l) 0xffffffff AND 0xffffffff]\<rparr>)
      | AF_INET6 \<Rightarrow>
          let n = xaddr_zero\<lparr>af := AF_INET6\<rparr> in Some (n\<lparr>addr32 := netmask6 0 l (addr32 n)\<rparr>)
      | AF_OTHER _ \<Rightarrow> None)"

definition addr_hostmask :: "family \<Rightarrow> nat \<Rightarrow> xaddr option" where
  "addr_hostmask f l =
     (case addr_netmask f l of None \<Rightarrow> None | Some n \<Rightarrow> addr_invert n)"

definition addr_and :: "xaddr \<Rightarrow> xaddr \<Rightarrow> xaddr option" where
  "addr_and a b =
     (if af a \<noteq> af b then None
      else case af a of
        AF_INET \<Rightarrow> Some (a\<lparr>addr32 := (addr32 a)[0 := v4 a AND v4 b]\<rparr>)
      | AF_INET6 \<Rightarrow> Some (a\<lparr>addr32 := map2 (\<lambda>v w. v AND w) (addr32 a) (addr32 b)\<rparr>)
      | AF_OTHER _ \<Rightarrow> None)"

definition addr_or :: "xaddr \<Rightarrow> xaddr \<Rightarrow> xaddr option" where
  "addr_or a b =
     (if af a \<noteq> af b then None
      else case af a of
        AF_INET \<Rightarrow> Some (a\<lparr>addr32 := (addr32 a)[0 := v4 a OR v4 b]\<rparr>)
      | AF_INET6 \<Rightarrow> Some (a\<lparr>addr32 := map2 (\<lambda>v w. v OR w) (addr32 a) (addr32 b)\<rparr>)
      | AF_OTHER _ \<Rightarrow> None)"

section \<open>Comparison and increment\<close>

text \<open>The first difference of two byte arrays, 0 when there is none.\<close>

fun cmp_bytes :: "byte list \<Rightarrow> byte list \<Rightarrow> int" where
  "cmp_bytes (x # xs) (y # ys) =
     (if uint x - uint y \<noteq> 0 then uint x - uint y else cmp_bytes xs ys)"
| "cmp_bytes _ _ = 0"

definition addr_cmp :: "xaddr \<Rightarrow> xaddr \<Rightarrow> int" where
  "addr_cmp a b =
     (if af a \<noteq> af b then (if af a = AF_INET6 then 1 else -1)
      else case af a of
        AF_INET \<Rightarrow> if v4 a = v4 b then 0 else if v4 a > v4 b then 1 else -1
      | AF_INET6 \<Rightarrow>
          let c = cmp_bytes (addr8 a) (addr8 b) in
          if c \<noteq> 0 then c
          else if scope_id a = scope_id b then 0
          else if scope_id a > scope_id b then 1 else -1
      | AF_OTHER _ \<Rightarrow> -1)"

definition addr_is_all0s :: "xaddr \<Rightarrow> bool" where
  "addr_is_all0s a =
     (case af a of
        AF_INET \<Rightarrow> v4 a = 0
      | AF_INET6 \<Rightarrow> list_all (\<lambda>w. w = 0) (addr32 a)
      | AF_OTHER _ \<Rightarrow> False)"

text \<open>The loop with carry of \<^verbatim>\<open>addr_increment\<close>: word \<open>3 - i\<close> first.\<close>

function increment6 :: "nat \<Rightarrow> 32 word list \<Rightarrow> 32 word list" where
  "increment6 i ws =
     (if i < 4
      then let n = ws ! (3 - i) + 1; ws' = ws[3 - i := n]
           in if n \<noteq> 0 then ws' else increment6 (i + 1) ws'
      else ws)"
  by pat_completeness auto

termination
  by (relation "measure (\<lambda>(i, ws). 4 - i)") auto

declare increment6.simps [simp del]

definition addr_increment :: "xaddr \<Rightarrow> xaddr" where
  "addr_increment a =
     (case af a of
        AF_INET \<Rightarrow> a\<lparr>addr32 := (addr32 a)[0 := v4 a + 1]\<rparr>
      | AF_INET6 \<Rightarrow> a\<lparr>addr32 := increment6 0 (addr32 a)\<rparr>
      | AF_OTHER _ \<Rightarrow> a)"

definition addr_host_is_all0s :: "xaddr \<Rightarrow> nat \<Rightarrow> bool" where
  "addr_host_is_all0s a masklen =
     (case addr_hostmask (af a) masklen of
        None \<Rightarrow> False
      | Some m \<Rightarrow> (case addr_and a m of None \<Rightarrow> False | Some r \<Rightarrow> addr_is_all0s r))"

definition addr_host_to_all1s :: "xaddr \<Rightarrow> nat \<Rightarrow> xaddr option" where
  "addr_host_to_all1s a masklen =
     (case addr_hostmask (af a) masklen of None \<Rightarrow> None | Some m \<Rightarrow> addr_or a m)"

section \<open>Parsing\<close>

text \<open>
  What \<^verbatim>\<open>getaddrinfo\<close> with \<^verbatim>\<open>AI_NUMERICHOST\<close> gives for a string: an error (\<open>None\<close>), or a list
  head, which may be \<^verbatim>\<open>NULL\<close> or have no address; otherwise the address and its length.
\<close>

type_synonym getaddrinfo = "string \<Rightarrow> (sockaddr \<times> nat) option option option"

definition addr_pton :: "getaddrinfo \<Rightarrow> string \<Rightarrow> xaddr option" where
  "addr_pton gai p =
     (case gai p of
        None \<Rightarrow> None
      | Some None \<Rightarrow> None
      | Some (Some None) \<Rightarrow> None
      | Some (Some (Some (sa, slen))) \<Rightarrow> addr_sa_to_xaddr sa slen)"

text \<open>
  \<^verbatim>\<open>addr_ntop\<close> into a buffer of \<open>len\<close> bytes (0 for \<^verbatim>\<open>NULL\<close>); the parameter is \<^verbatim>\<open>getnameinfo\<close>
  with \<^verbatim>\<open>NI_NUMERICHOST\<close>, and 128 the size of \<^verbatim>\<open>struct sockaddr_storage\<close>.
\<close>

definition addr_ntop :: "(sockaddr \<Rightarrow> nat \<Rightarrow> nat \<Rightarrow> string option) \<Rightarrow> xaddr \<Rightarrow> nat \<Rightarrow> string option" where
  "addr_ntop gni n len =
     (case addr_xaddr_to_sa n 128 0 of
        None \<Rightarrow> None
      | Some (sa, slen) \<Rightarrow> if len = 0 then None else gni sa slen len)"

definition INT_MAX :: int where "INT_MAX = 2 ^ 31 - 1"

text \<open>The results \<open>-1\<close> and \<open>-2\<close> of \<^verbatim>\<open>addr_pton_cidr\<close>.\<close>

datatype cidr_error = CIDR_PARSE | CIDR_INCONSISTENT

text \<open>
  The string of the mask length, if a slash separates one, is read before the address is
  resolved; \<^verbatim>\<open>masklen\<close> is unsigned, so that the \<open>-1\<close> of an unknown family is \<open>2 ^ 32 - 1\<close>.
\<close>

definition addr_pton_cidr :: "getaddrinfo \<Rightarrow> string \<Rightarrow> cidr_error + xaddr \<times> nat" where
  "addr_pton_cidr gai p =
     (if length p \<ge> 64 then Inl CIDR_PARSE
      else let addrbuf = takeWhile (\<lambda>c. c \<noteq> CHR ''/'') p;
               mp = (if CHR ''/'' \<in> set p then Some (tl (dropWhile (\<lambda>c. c \<noteq> CHR ''/'') p)) else None);
               num = (case mp of None \<Rightarrow> Inr 999 | Some s \<Rightarrow> strtonum s 0 INT_MAX)
           in case num of
             Inl _ \<Rightarrow> Inl CIDR_PARSE
           | Inr m \<Rightarrow>
             (case addr_pton gai addrbuf of
                None \<Rightarrow> Inl CIDR_PARSE
              | Some tmp \<Rightarrow>
                let masklen = (if mp = None then nat (addr_unicast_masklen (af tmp) mod 2 ^ 32) else nat m)
                in if \<not> masklen_valid (af tmp) masklen then Inl CIDR_INCONSISTENT
                   else if \<not> addr_host_is_all0s tmp masklen then Inl CIDR_INCONSISTENT
                   else Inr (tmp, masklen)))"

text \<open>\<^verbatim>\<open>addr_netmatch\<close> returns the comparison, or \<open>-1\<close> on failure.\<close>

definition addr_netmatch :: "xaddr \<Rightarrow> xaddr \<Rightarrow> nat \<Rightarrow> int" where
  "addr_netmatch host net masklen =
     (if af host \<noteq> af net then -1
      else case addr_netmask (af host) masklen of
        None \<Rightarrow> -1
      | Some m \<Rightarrow> (case addr_and host m of None \<Rightarrow> -1 | Some r \<Rightarrow> addr_cmp r net))"

section \<open>Addresses as numbers\<close>

fun be32 :: "32 word list \<Rightarrow> nat" where
  "be32 [] = 0"
| "be32 (w # ws) = unat w * 2 ^ (32 * length ws) + be32 ws"

definition addr_bits :: "family \<Rightarrow> nat" where
  "addr_bits f = (case f of AF_INET \<Rightarrow> 32 | AF_INET6 \<Rightarrow> 128 | AF_OTHER _ \<Rightarrow> 0)"

definition addr_value :: "xaddr \<Rightarrow> nat" where
  "addr_value a = (case af a of AF_INET \<Rightarrow> unat (v4 a) | AF_INET6 \<Rightarrow> be32 (addr32 a) | AF_OTHER _ \<Rightarrow> 0)"

definition xaddr_wf :: "xaddr \<Rightarrow> bool" where
  "xaddr_wf a \<longleftrightarrow> length (addr32 a) = 4 \<and> af a \<in> {AF_INET, AF_INET6}"

lemma be32_less: "be32 ws < 2 ^ (32 * length ws)"
proof (induction ws)
  case (Cons w ws)
  have "unat w * 2 ^ (32 * length ws) + be32 ws < (unat w + 1) * 2 ^ (32 * length ws)"
    using Cons by simp
  also have "\<dots> \<le> 2 ^ 32 * 2 ^ (32 * length ws)"
    using unat_less_32 [of w] by (intro mult_right_mono) linarith+
  finally show ?case by (simp add: power_add)
qed simp

subsection \<open>Masked words\<close>

lemma ones32: "(0xffffffff :: 32 word) = - 1"
  by simp

lemma unat_high: "unat ((w :: 32 word) AND NOT (mask k)) = unat w div 2 ^ k * 2 ^ k"
proof -
  have "unat w div 2 ^ k * 2 ^ k < 2 ^ 32"
    using unat_less_32 [of w] div_times_less_eq_dividend [of "unat w" "2 ^ k"] by (rule le_less_trans [rotated])
  moreover have "w AND NOT (mask k) = push_bit k (drop_bit k w)"
    by (rule bit_word_eqI) (auto simp: bit_simps)
  moreover have "take_bit 32 (unat w) = unat w"
    by (rule take_bit_nat_eq_self [OF unat_less_32])
  ultimately show ?thesis
    by (simp only: unsigned_push_bit_eq unsigned_drop_bit_eq)
      (simp add: push_bit_eq_mult drop_bit_eq_div take_bit_nat_eq_self)
qed

lemma unat_low: "unat ((w :: 32 word) AND mask k) = unat w mod 2 ^ k"
  by (simp only: take_bit_eq_mask [symmetric] unsigned_take_bit_eq) (simp add: take_bit_eq_mod)

lemma nat_or_mask: "(n :: nat) OR mask k = n div 2 ^ k * 2 ^ k + (2 ^ k - 1)"
proof -
  have "n OR mask k = push_bit k (drop_bit k n) OR mask k"
    by (rule bit_eqI) (auto simp: bit_simps)
  also have "\<dots> = push_bit k (drop_bit k n) + mask k"
    by (rule disjunctive_add [symmetric]) (auto simp: bit_simps)
  finally show ?thesis by (simp add: push_bit_eq_mult drop_bit_eq_div mask_eq_exp_minus_1)
qed

lemma unat_fill: "k \<le> 32 \<Longrightarrow> Suc (unat ((w :: 32 word) OR mask k)) = unat w div 2 ^ k * 2 ^ k + 2 ^ k"
proof -
  assume "k \<le> 32"
  moreover have "unat (mask k :: 32 word) = unat (take_bit k (- 1) :: 32 word)"
    by simp
  ultimately have "unat (mask k :: 32 word) = mask k"
    by (simp only: unsigned_take_bit_eq unsigned_minus_1_eq_mask) (simp add: take_bit_of_mask min_def)
  then show ?thesis by (simp add: unsigned_or_eq nat_or_mask)
qed

subsection \<open>Masks of several words\<close>

fun mask_words :: "nat \<Rightarrow> nat \<Rightarrow> 32 word list" where
  "mask_words l 0 = []"
| "mask_words l (Suc n) =
     (if l \<ge> 32 then - 1 # mask_words (l - 32) n else NOT (mask (32 - l)) # replicate n 0)"

lemma length_mask_words [simp]: "length (mask_words l n) = n"
  by (induction l n rule: mask_words.induct) auto

lemma high_mask: "push_bit k 0xffffffff AND 0xffffffff = (NOT (mask k) :: 32 word)"
  by (rule bit_word_eqI) (simp add: bit_simps ones32)

lemma full_mask: "NOT (mask 32) = (0 :: 32 word)"
  by (rule bit_word_eqI) (simp add: bit_simps)

lemma netmask6_step:
  "i \<le> 4 \<Longrightarrow> length ws = i \<Longrightarrow>
     netmask6 i l (ws @ replicate (4 - i) 0) = ws @ mask_words l (4 - i)"
proof (induction "4 - i" arbitrary: i l ws)
  case 0
  then show ?case by (simp add: netmask6.simps)
next
  case (Suc n)
  then have i: "4 - i = Suc n" "4 - (i + 1) = n" "i < 4" by auto
  have upd: "(ws @ replicate (Suc n) 0)[i := x] = (ws @ [x]) @ replicate n 0" for x
    using Suc.prems by (simp add: list_update_append)
  show ?case
  proof (cases "l \<ge> 32")
    case True
    then have "netmask6 i l (ws @ replicate (4 - i) 0) = netmask6 (i + 1) (l - 32) ((ws @ [- 1]) @ replicate n 0)"
      using i upd [of "0xffffffff"] by (subst netmask6.simps) (simp add: ones32)
    also have "\<dots> = (ws @ [- 1]) @ mask_words (l - 32) n"
      using Suc.hyps(1) [of "i + 1" "ws @ [- 1]" "l - 32"] Suc.prems i by simp
    finally show ?thesis using True i by simp
  next
    case False
    then show ?thesis
      using i upd [of "NOT (mask (32 - l))"] by (subst netmask6.simps) (simp add: high_mask full_mask)
  qed
qed

lemma netmask6_words: "netmask6 0 l [0, 0, 0, 0] = mask_words l 4"
  using netmask6_step [of 0 "[]" l] by (simp add: numeral_eq_Suc)

lemma split_div: "B < 2 ^ n \<Longrightarrow> (A * 2 ^ n + B) div 2 ^ (n + k) = A div (2 ^ k :: nat)"
  by (simp add: power_add div_mult2_eq)

lemma be32_and_mask:
  "l \<le> 32 * length ws \<Longrightarrow> be32 (map2 (\<lambda>v w. v AND w) ws (mask_words l (length ws))) =
     be32 ws div 2 ^ (32 * length ws - l) * 2 ^ (32 * length ws - l)"
proof (induction ws arbitrary: l)
  case (Cons w ws)
  let ?n = "32 * length ws"
  show ?case
  proof (cases "32 \<le> l")
    case True
    define k where "k = ?n - (l - 32)"
    have k: "k \<le> ?n" "32 * length (w # ws) - l = k" using True Cons.prems by (auto simp: k_def)
    have "(2 :: nat) ^ ?n = 2 ^ (?n - k) * 2 ^ k" using k by (simp flip: power_add)
    then have "(unat w * 2 ^ ?n + be32 ws) div 2 ^ k * 2 ^ k = unat w * 2 ^ ?n + be32 ws div 2 ^ k * 2 ^ k"
      by (simp add: div_plus_div_distrib_dvd_left distrib_right)
    then show ?thesis using True Cons.IH [of "l - 32"] Cons.prems k by (simp add: k_def)
  next
    case False
    define k where "k = 32 - l"
    have k: "32 * length (w # ws) - l = ?n + k" using False by (simp add: k_def)
    have "be32 (map2 (\<lambda>v w. v AND w) ws (replicate (length ws) 0)) = 0"
      by (induction ws) auto
    moreover have "be32 (w # ws) div 2 ^ (?n + k) * 2 ^ (?n + k) = unat w div 2 ^ k * 2 ^ k * 2 ^ ?n"
      using split_div [OF be32_less] by (simp add: power_add)
    ultimately show ?thesis using False unfolding k by (simp add: unat_high k_def)
  qed
qed simp


lemma not_masks [simp]: "NOT (NOT (mask k)) = (mask k :: 32 word)" "NOT (- 1) = (0 :: 32 word)"
  by simp_all

lemma be32_and_hostmask:
  "l \<le> 32 * length ws \<Longrightarrow>
     be32 (map2 (\<lambda>v w. v AND w) ws (map (\<lambda>w. NOT w) (mask_words l (length ws)))) =
     be32 ws mod 2 ^ (32 * length ws - l)"
proof (induction ws arbitrary: l)
  case (Cons w ws)
  let ?n = "32 * length ws"
  show ?case
  proof (cases "32 \<le> l")
    case True
    define k where "k = ?n - (l - 32)"
    have k: "k \<le> ?n" "32 * length (w # ws) - l = k" using True Cons.prems by (auto simp: k_def)
    have "(2 :: nat) ^ ?n = 2 ^ (?n - k) * 2 ^ k" using k by (simp flip: power_add)
    then have "(unat w * 2 ^ ?n + be32 ws) mod 2 ^ k = be32 ws mod 2 ^ k"
      by (simp add: mult.assoc [symmetric])
    then show ?thesis using True Cons.IH [of "l - 32"] Cons.prems k by (simp add: k_def)
  next
    case False
    define k where "k = 32 - l"
    have k: "32 * length (w # ws) - l = ?n + k" using False by (simp add: k_def)
    have "map2 (\<lambda>v w. v AND w) ws (map (\<lambda>w. NOT w) (replicate (length ws) 0)) = ws"
      by (induction ws) auto
    moreover have "be32 (w # ws) mod 2 ^ (?n + k) = (unat w mod 2 ^ k) * 2 ^ ?n + be32 ws"
      using be32_less [of ws] by (simp add: power_add mod_mult2_eq)
    ultimately show ?thesis using False unfolding k by (simp add: unat_low k_def)
  qed
qed simp

lemma be32_or_hostmask:
  "l \<le> 32 * length ws \<Longrightarrow>
     Suc (be32 (map2 (\<lambda>v w. v OR w) ws (map (\<lambda>w. NOT w) (mask_words l (length ws))))) =
     be32 ws div 2 ^ (32 * length ws - l) * 2 ^ (32 * length ws - l) + 2 ^ (32 * length ws - l)"
proof (induction ws arbitrary: l)
  case (Cons w ws)
  let ?n = "32 * length ws"
  show ?case
  proof (cases "32 \<le> l")
    case True
    define k where "k = ?n - (l - 32)"
    have k: "k \<le> ?n" "32 * length (w # ws) - l = k" using True Cons.prems by (auto simp: k_def)
    have "(2 :: nat) ^ ?n = 2 ^ (?n - k) * 2 ^ k" using k by (simp flip: power_add)
    then have "(unat w * 2 ^ ?n + be32 ws) div 2 ^ k * 2 ^ k = unat w * 2 ^ ?n + be32 ws div 2 ^ k * 2 ^ k"
      by (simp add: div_plus_div_distrib_dvd_left distrib_right)
    then show ?thesis using True Cons.IH [of "l - 32"] Cons.prems k by (simp add: k_def)
  next
    case False
    define k where "k = 32 - l"
    have k: "32 * length (w # ws) - l = ?n + k" "k \<le> 32" using False by (auto simp: k_def)
    have ones: "Suc (be32 (map2 (\<lambda>v w. v OR w) ws (map (\<lambda>w. NOT w) (replicate (length ws) 0)))) = 2 ^ ?n"
    proof (induction ws)
      case (Cons w ws)
      have "unat (- 1 :: 32 word) = 2 ^ 32 - 1" by (simp add: unsigned_minus_1_eq_mask mask_eq_exp_minus_1)
      then show ?case using Cons by (simp add: power_add)
    qed simp
    have "be32 (w # ws) div 2 ^ (?n + k) * 2 ^ (?n + k) = unat w div 2 ^ k * 2 ^ k * 2 ^ ?n"
      using split_div [OF be32_less] by (simp add: power_add)
    moreover have "unat (w OR mask k) * 2 ^ ?n + 2 ^ ?n = (unat w div 2 ^ k * 2 ^ k + 2 ^ k) * 2 ^ ?n"
      unfolding unat_fill [OF k(2), symmetric] by simp
    moreover have "(2 :: nat) ^ (?n + k) = 2 ^ k * 2 ^ ?n" by (simp add: power_add)
    moreover have "Suc (be32 (map2 (\<lambda>v w. v OR w) (w # ws) (map (\<lambda>w. NOT w) (mask_words l (length (w # ws)))))) =
        unat (w OR mask k) * 2 ^ ?n + Suc (be32 (map2 (\<lambda>v w. v OR w) ws (map (\<lambda>w. NOT w) (replicate (length ws) 0))))"
      using False by (simp add: k_def)
    ultimately show ?thesis
      unfolding k(1) ones by (simp only: add_mult_distrib)
  qed
qed simp

subsection \<open>Comparison\<close>

fun be256 :: "byte list \<Rightarrow> nat" where
  "be256 [] = 0"
| "be256 (x # xs) = unat x * 256 ^ length xs + be256 xs"

lemma be256_less: "be256 xs < 256 ^ length xs"
proof (induction xs)
  case (Cons x xs)
  have "unat x < 256" using unsigned_less [of x] by simp
  then have "(unat x + 1) * 256 ^ length xs \<le> 256 * 256 ^ length xs"
    by (intro mult_right_mono) linarith+
  moreover have "(unat x + 1) * 256 ^ length xs = unat x * 256 ^ length xs + 256 ^ length xs" by simp
  moreover have "(256 :: nat) ^ length (x # xs) = 256 * 256 ^ length xs" by simp
  ultimately show ?case using Cons unfolding be256.simps by linarith
qed simp

lemma cmp_bytes_order:
  "length xs = length ys \<Longrightarrow>
     (cmp_bytes xs ys < 0 \<longleftrightarrow> be256 xs < be256 ys) \<and> (cmp_bytes xs ys = 0 \<longleftrightarrow> be256 xs = be256 ys)"
proof (induction xs ys rule: cmp_bytes.induct)
  case (1 x xs y ys)
  let ?m = "256 ^ length xs :: nat"
  have less: "be256 xs < ?m" "be256 ys < ?m"
    using be256_less [of xs] be256_less [of ys] 1(2) by simp_all
  have u: "int (unat x) = uint x" "int (unat y) = uint y" by simp_all
  consider "unat x = unat y" | "unat x < unat y" | "unat y < unat x" by linarith
  then show ?case
  proof cases
    case 1
    with u have "uint x = uint y" by linarith
    with 1 show ?thesis using "1.IH" "1.prems" by simp
  next
    case 2
    then have "(unat x + 1) * ?m \<le> unat y * ?m" by (intro mult_right_mono) simp_all
    then have "be256 (x # xs) < be256 (y # ys)" using less "1.prems" by simp
    moreover have "uint x < uint y" using 2 u by linarith
    ultimately show ?thesis by (simp del: be256.simps)
  next
    case 3
    then have "(unat y + 1) * ?m \<le> unat x * ?m" by (intro mult_right_mono) simp_all
    then have "be256 (y # ys) < be256 (x # xs)" using less "1.prems" by simp
    moreover have "uint y < uint x" using 3 u by linarith
    ultimately show ?thesis by (simp del: be256.simps)
  qed
qed auto

lemma unat_bytes:
  "unat w = be256 [ucast (drop_bit 24 w), ucast (drop_bit 16 w), ucast (drop_bit 8 w), ucast (w :: 32 word)]"
proof -
  define n where "n = unat w"
  define a where "a = n div 256"
  define b where "b = a div 256"
  define c where "c = b div 256"
  have lt: "n < 4294967296" using unat_less_32 [of w] by (simp add: n_def)
  from this have c: "c < 256" by (simp add: a_def b_def c_def div_mult2_eq [symmetric])
  have "n = 256 * a + n mod 256" "a = 256 * b + a mod 256" "b = 256 * c + b mod 256"
    unfolding a_def b_def c_def by simp_all
  then have n: "n = c * 16777216 + (b mod 256) * 65536 + (a mod 256) * 256 + n mod 256" by linarith
  have digits: "n div 16777216 = c" "n div 65536 = b"
    by (simp_all add: a_def b_def c_def div_mult2_eq [symmetric])
  have "unat (ucast (drop_bit 24 w) :: byte) = c" "unat (ucast (drop_bit 16 w) :: byte) = b mod 256"
    "unat (ucast (drop_bit 8 w) :: byte) = a mod 256" "unat (ucast w :: byte) = n mod 256"
    unfolding unsigned_ucast_eq unsigned_drop_bit_eq
    using c lt by (simp_all add: digits take_bit_eq_mod drop_bit_eq_div a_def [symmetric] n_def [symmetric])
  with n show ?thesis by (simp add: n_def)
qed


lemma be256_append: "be256 (xs @ ys) = be256 xs * 256 ^ length ys + be256 ys"
  by (induction xs) (simp_all add: power_add add_mult_distrib)

lemma addr8_value: "be256 (addr8 a) = be32 (addr32 a)" "length (addr8 a) = 4 * length (addr32 a)"
proof -
  let ?f = "\<lambda>w. [ucast (drop_bit 24 w), ucast (drop_bit 16 w), ucast (drop_bit 8 w), ucast w] :: byte list"
  have l: "length (concat (map ?f ws)) = 4 * length ws" for ws :: "32 word list"
    by (induction ws) auto
  have "be256 (concat (map ?f ws)) = be32 ws" for ws
  proof (induction ws)
    case (Cons w ws)
    have "(256 :: nat) ^ (4 * length ws) = 2 ^ (32 * length ws)"
      by (simp add: power_mult)
    with Cons show ?case
      by (simp only: list.map concat.simps be256_append be32.simps l unat_bytes [symmetric])
  qed simp
  then show "be256 (addr8 a) = be32 (addr32 a)" "length (addr8 a) = 4 * length (addr32 a)"
    by (simp_all add: addr8_def l)
qed

subsection \<open>Increment\<close>

lemma unat_plus_one:
  "w + 1 = 0 \<Longrightarrow> unat (w :: 32 word) = 2 ^ 32 - 1"
  "w + 1 \<noteq> 0 \<Longrightarrow> unat ((w :: 32 word) + 1) = unat w + 1"
proof -
  have m: "unat (- 1 :: 32 word) = 2 ^ 32 - 1"
    by (simp add: unsigned_minus_1_eq_mask mask_eq_exp_minus_1)
  show "unat w = 2 ^ 32 - 1" if "w + 1 = 0"
    using that m by (simp only: eq_neg_iff_add_eq_0 [symmetric])
  assume "w + 1 \<noteq> 0"
  then have "w \<noteq> - 1" by (simp only: eq_neg_iff_add_eq_0) simp
  then have "unat w \<noteq> 2 ^ 32 - 1" using m by (metis unsigned_word_eqI)
  then have "unat w + 1 < 2 ^ 32" using unat_less_32 [of w] by linarith
  then show "unat (w + 1) = unat w + 1" by (simp add: unat_plus_if')
qed

lemma increment6_value:
  assumes "length ws = 4"
  shows "be32 (increment6 0 ws) = (be32 ws + 1) mod 2 ^ 128 \<and> length (increment6 0 ws) = 4"
proof -
  obtain a b c d where ws: "ws = [a, b, c, d]"
    using assms by (auto simp: numeral_eq_Suc length_Suc_conv)
  define r where "r = (if d + 1 \<noteq> 0 then [a, b, c, d + 1] else if c + 1 \<noteq> 0 then [a, b, c + 1, 0]
    else if b + 1 \<noteq> 0 then [a, b + 1, 0, 0] else [a + 1, 0, 0, 0])"
  have inc: "increment6 0 ws = r"
    unfolding ws r_def by (simp add: increment6.simps Let_def)
  have len: "length r = 4" by (simp add: r_def)
  have "be32 ws + 1 = be32 r + (if d + 1 = 0 \<and> c + 1 = 0 \<and> b + 1 = 0 \<and> a + 1 = 0 then 2 ^ 128 else 0)"
    unfolding ws r_def
    by (cases "d + 1 = 0"; cases "c + 1 = 0"; cases "b + 1 = 0"; cases "a + 1 = 0")
      (simp_all add: unat_plus_one)
  then have "(be32 ws + 1) mod 2 ^ 128 = be32 r mod 2 ^ 128" by (simp split: if_splits)
  also have "\<dots> = be32 r" using be32_less [of r] len by simp
  finally show ?thesis using inc len by simp
qed

subsection \<open>The operations on numbers\<close>

abbreviation host_bits :: "xaddr \<Rightarrow> nat \<Rightarrow> nat" where
  "host_bits a masklen \<equiv> addr_bits (af a) - masklen"

lemma xaddr_wf_cases:
  assumes "xaddr_wf a"
  obtains w0 w1 w2 w3 where "af a = AF_INET" "addr32 a = [w0, w1, w2, w3]"
    | "af a = AF_INET6" "length (addr32 a) = 4"
  using assms by (auto simp: xaddr_wf_def numeral_eq_Suc length_Suc_conv)

lemma and_netmask:
  assumes "xaddr_wf a" "masklen_valid (af a) l"
  shows "\<exists>m r. addr_netmask (af a) l = Some m \<and> addr_and a m = Some r \<and> xaddr_wf r \<and> af r = af a \<and>
     scope_id r = scope_id a \<and> addr_value r = addr_value a div 2 ^ host_bits a l * 2 ^ host_bits a l"
  using assms(1)
proof (cases rule: xaddr_wf_cases)
  case (1 w0 w1 w2 w3)
  have "unat w0 div 4294967296 = 0" using unat_less_32 [of w0] by simp
  with 1 assms(2) show ?thesis
    by (auto simp: addr_netmask_def addr_and_def xaddr_zero_def masklen_valid_def xaddr_wf_def
        addr_value_def addr_bits_def high_mask unat_high Let_def)
next
  case 2
  with assms(2) show ?thesis
    using be32_and_mask [of l "addr32 a"]
    by (auto simp: addr_netmask_def addr_and_def xaddr_zero_def masklen_valid_def xaddr_wf_def
        addr_value_def addr_bits_def netmask6_words Let_def)
qed

lemma and_hostmask:
  assumes "xaddr_wf a" "masklen_valid (af a) l"
  shows "\<exists>m r. addr_hostmask (af a) l = Some m \<and> addr_and a m = Some r \<and> xaddr_wf r \<and> af r = af a \<and>
     addr_value r = addr_value a mod 2 ^ host_bits a l"
  using assms(1)
proof (cases rule: xaddr_wf_cases)
  case (1 w0 w1 w2 w3)
  have "unat w0 mod 4294967296 = unat w0" using unat_less_32 [of w0] by simp
  with 1 assms(2) show ?thesis
    by (auto simp: addr_hostmask_def addr_invert_def addr_netmask_def addr_and_def xaddr_zero_def masklen_valid_def xaddr_wf_def
        addr_value_def addr_bits_def high_mask unat_low Let_def)
next
  case 2
  with assms(2) show ?thesis
    using be32_and_hostmask [of l "addr32 a"]
    by (auto simp: addr_hostmask_def addr_invert_def addr_netmask_def addr_and_def xaddr_zero_def masklen_valid_def xaddr_wf_def
        addr_value_def addr_bits_def netmask6_words Let_def)
qed

lemma or_hostmask:
  assumes "xaddr_wf a" "masklen_valid (af a) l"
  shows "\<exists>m r. addr_hostmask (af a) l = Some m \<and> addr_or a m = Some r \<and> xaddr_wf r \<and> af r = af a \<and>
     scope_id r = scope_id a \<and>
     Suc (addr_value r) = addr_value a div 2 ^ host_bits a l * 2 ^ host_bits a l + 2 ^ host_bits a l"
  using assms(1)
proof (cases rule: xaddr_wf_cases)
  case (1 w0 w1 w2 w3)
  have ones: "Suc (unat (- 1 :: 32 word)) = 2 ^ 32" by (simp add: unsigned_minus_1_eq_mask mask_eq_exp_minus_1)
  with 1 assms(2) unat_fill [of "32 - l" w0] unat_less_32 [of w0] show ?thesis
    by (auto simp: addr_hostmask_def addr_invert_def addr_netmask_def addr_or_def xaddr_zero_def masklen_valid_def xaddr_wf_def
        addr_value_def addr_bits_def high_mask  Let_def)
next
  case 2
  with assms(2) show ?thesis
    using be32_or_hostmask [of l "addr32 a"]
    by (auto simp: addr_hostmask_def addr_invert_def addr_netmask_def addr_or_def xaddr_zero_def masklen_valid_def xaddr_wf_def
        addr_value_def addr_bits_def netmask6_words Let_def)
qed

lemma all0s_value: "xaddr_wf a \<Longrightarrow> addr_is_all0s a \<longleftrightarrow> addr_value a = 0"
proof -
  have "list_all (\<lambda>w. w = 0) ws \<longleftrightarrow> be32 ws = 0" for ws
    by (induction ws) (auto simp: unat_eq_0)
  then show "xaddr_wf a \<Longrightarrow> ?thesis"
    by (auto simp: addr_is_all0s_def addr_value_def xaddr_wf_def unat_eq_0)
qed

definition addr_key :: "xaddr \<Rightarrow> nat" where
  "addr_key a = addr_value a * 2 ^ 32 + (if af a = AF_INET6 then unat (scope_id a) else 0)"

lemma pair_key_less: 
  assumes "s < M" "t < (M :: nat)"
  shows "v * M + s < w * M + t \<longleftrightarrow> v < w \<or> v = w \<and> s < t" "v * M + s = w * M + t \<longleftrightarrow> v = w \<and> s = t"
proof -
  have "v * M + s < w * M + t" if "v < w"
  proof -
    have "(v + 1) * M \<le> w * M" using that by (intro mult_right_mono) simp_all
    then show ?thesis using assms by simp
  qed
  moreover have "w * M + t < v * M + s" if "w < v"
  proof -
    have "(w + 1) * M \<le> v * M" using that by (intro mult_right_mono) simp_all
    then show ?thesis using assms by simp
  qed
  ultimately show "v * M + s < w * M + t \<longleftrightarrow> v < w \<or> v = w \<and> s < t" "v * M + s = w * M + t \<longleftrightarrow> v = w \<and> s = t"
    by (metis add_less_cancel_left add_left_cancel less_asym' linorder_neqE_nat less_irrefl)+
qed

lemma addr_cmp_key:
  assumes "xaddr_wf a" "xaddr_wf b" "af a = af b"
  shows "addr_cmp a b < 0 \<longleftrightarrow> addr_key a < addr_key b" "addr_cmp a b = 0 \<longleftrightarrow> addr_key a = addr_key b"
proof -
  have *: "(addr_cmp a b < 0 \<longleftrightarrow> addr_key a < addr_key b) \<and> (addr_cmp a b = 0 \<longleftrightarrow> addr_key a = addr_key b)"
    using assms(1)
  proof (cases rule: xaddr_wf_cases)
    case 1
    then show ?thesis using assms
      by (auto simp: addr_cmp_def addr_key_def addr_value_def word_less_nat_alt word_unat_eq_iff)
  next
    case 2
    then have "length (addr8 a) = length (addr8 b)" using assms by (simp add: addr8_value xaddr_wf_def)
    note c = cmp_bytes_order [OF this, unfolded addr8_value]
    show ?thesis using 2 assms(3) c
      by (auto simp: addr_cmp_def addr_key_def addr_value_def Let_def pair_key_less [OF unat_less_32 unat_less_32, simplified]
          word_less_nat_alt word_unat_eq_iff)
  qed
  then show "addr_cmp a b < 0 \<longleftrightarrow> addr_key a < addr_key b" "addr_cmp a b = 0 \<longleftrightarrow> addr_key a = addr_key b"
    by blast+
qed


lemma multiple_range:
  fixes v h K :: nat
  assumes "v mod K = 0" "0 < K"
  shows "v = h div K * K \<longleftrightarrow> h \<in> {v ..< v + K}"
proof
  assume v: "v = h div K * K"
  have "h mod K < K" "h = h div K * K + h mod K" using assms(2) by simp_all
  with v have "v \<le> h" "h < v + K" by linarith+
  then show "h \<in> {v ..< v + K}" by simp
next
  assume h: "h \<in> {v ..< v + K}"
  obtain q where q: "v = q * K" using assms(1) by (metis mod_0_imp_dvd dvd_def mult.commute)
  then have "h div K = q" using h assms(2) by (intro div_nat_eqI) (auto simp: add.commute mult.commute)
  with q show "v = h div K * K" by simp
qed

lemma xaddr_wf_pton: "addr_pton gai p = Some a \<Longrightarrow> xaddr_wf a"
  by (auto simp: addr_pton_def addr_sa_to_xaddr_def xaddr_zero_def xaddr_wf_def
      split: option.splits sockaddr.splits if_splits)

lemma addr_host_is_all0s_value:
  assumes "xaddr_wf a" "masklen_valid (af a) l"
  shows "addr_host_is_all0s a l \<longleftrightarrow> addr_value a mod 2 ^ host_bits a l = 0"
  using and_hostmask [OF assms] by (auto simp: addr_host_is_all0s_def all0s_value)

lemma addr_netmatch_value:
  assumes "xaddr_wf host" "xaddr_wf net"
  shows "addr_netmatch host net masklen = 0 \<longleftrightarrow>
     af host = af net \<and> masklen_valid (af host) masklen \<and>
     addr_value net = addr_value host div 2 ^ host_bits host masklen * 2 ^ host_bits host masklen \<and>
     (af host = AF_INET6 \<longrightarrow> scope_id host = scope_id net)"
proof (cases "af host = af net \<and> masklen_valid (af host) masklen")
  case True
  then obtain m r where r: "addr_netmask (af host) masklen = Some m" "addr_and host m = Some r"
      "xaddr_wf r" "af r = af host" "scope_id r = scope_id host"
      "addr_value r = addr_value host div 2 ^ host_bits host masklen * 2 ^ host_bits host masklen"
    using and_netmask [OF assms(1), of masklen] by auto
  have "addr_key r = addr_key net \<longleftrightarrow> addr_value r = addr_value net \<and>
      (af host = AF_INET6 \<longrightarrow> scope_id host = scope_id net)"
    using True r(4,5) by (auto simp: addr_key_def pair_key_less [OF unat_less_32 unat_less_32, simplified] word_unat_eq_iff)
  then show ?thesis
    using True r addr_cmp_key(2) [OF r(3) assms(2)] by (auto simp: addr_netmatch_def)
next
  case False
  then show ?thesis by (auto simp: addr_netmatch_def addr_netmask_def)
qed

lemma addr_pton_cidr_result:
  assumes "addr_pton_cidr gai p = Inr (net, masklen)"
  shows "xaddr_wf net" "masklen_valid (af net) masklen" "addr_value net mod 2 ^ host_bits net masklen = 0"
proof -
  from assms have "addr_pton gai (takeWhile (\<lambda>c. c \<noteq> CHR ''/'') p) = Some net"
      "masklen_valid (af net) masklen" "addr_host_is_all0s net masklen"
    by (auto simp: addr_pton_cidr_def Let_def split: if_splits option.splits sum.splits)
  with xaddr_wf_pton addr_host_is_all0s_value
  show "xaddr_wf net" "masklen_valid (af net) masklen" "addr_value net mod 2 ^ host_bits net masklen = 0"
    by blast+
qed

section \<open>Properties\<close>

text \<open>
  (C22) A network read by \<^verbatim>\<open>addr_pton_cidr\<close>, tested with \<^verbatim>\<open>addr_netmatch\<close>, contains exactly the
  addresses of its own family whose number lies in the range of \<open>2 ^ k\<close> numbers from the
  network's number on, where \<open>k\<close> is the number of host bits (an IPv6 address must have the
  scope of the network too).
\<close>

theorem cidr_network_range:
  assumes "addr_pton_cidr gai p = Inr (net, masklen)" and "addr_pton gai h = Some host"
  shows "addr_netmatch host net masklen = 0 \<longleftrightarrow>
     af host = af net \<and>
     addr_value host \<in> {addr_value net ..< addr_value net + 2 ^ host_bits net masklen} \<and>
     (af net = AF_INET6 \<longrightarrow> scope_id host = scope_id net)"
proof -
  note net = addr_pton_cidr_result [OF assms(1)]
  have "addr_value net = addr_value host div 2 ^ host_bits net masklen * 2 ^ host_bits net masklen \<longleftrightarrow>
      addr_value host \<in> {addr_value net ..< addr_value net + 2 ^ host_bits net masklen}"
    by (rule multiple_range [OF net(3)]) simp
  then show ?thesis
    using net addr_netmatch_value [OF xaddr_wf_pton [OF assms(2)] net(1), of masklen]
    by auto
qed


definition example_gai :: getaddrinfo where
  "example_gai s =
     (if s = ''10.0.0.0'' then Some (Some (Some (Sockaddr_in 0 0x0a000000, 16)))
      else if s = ''10.1.2.3'' then Some (Some (Some (Sockaddr_in 0 0x0a010203, 16)))
      else if s = ''2001:db8::'' then Some (Some (Some (Sockaddr_in6 0 (0x20010db8, 0, 0, 0) 0, 28)))
      else None)"

theorem cidr_network_range_witness:
  "\<exists>net host. addr_pton_cidr example_gai ''10.0.0.0/8'' = Inr (net, 8) \<and>
     addr_pton example_gai ''10.1.2.3'' = Some host \<and> addr_netmatch host net 8 = 0"
proof -
  define net where "net = \<lparr>af = AF_INET, addr32 = [0x0a000000, 0, 0, 0], scope_id = 0\<rparr>"
  define host where "host = \<lparr>af = AF_INET, addr32 = [0x0a010203, 0, 0, 0], scope_id = 0\<rparr>"
  have net: "addr_pton_cidr example_gai ''10.0.0.0/8'' = Inr (net, 8)"
    unfolding net_def by code_simp
  have host: "addr_pton example_gai ''10.1.2.3'' = Some host"
    unfolding host_def by code_simp
  have "addr_netmatch host net 8 = 0"
    unfolding cidr_network_range [OF net host]
    by (simp add: net_def host_def addr_value_def addr_bits_def)
  with net host show ?thesis by blast
qed

text \<open>
  (C31) \<^verbatim>\<open>addr_cmp\<close> on two addresses of one family is the order of their numbers, and of their
  scopes when the numbers of two IPv6 addresses agree.
\<close>

theorem addr_cmp_order:
  assumes "xaddr_wf a" and "xaddr_wf b" and "af a = af b"
  shows "(addr_cmp a b < 0 \<longleftrightarrow> addr_key a < addr_key b) \<and>
    (addr_cmp a b = 0 \<longleftrightarrow> addr_key a = addr_key b)"
  using addr_cmp_key [OF assms] by blast

theorem addr_cmp_order_witness:
  "addr_cmp \<lparr>af = AF_INET6, addr32 = [1, 0, 0, 255], scope_id = 2\<rparr>
     \<lparr>af = AF_INET6, addr32 = [1, 0, 1, 0], scope_id = 1\<rparr> < 0"
  by (subst conjunct1 [OF addr_cmp_order]) (simp_all add: xaddr_wf_def addr_key_def addr_value_def)

text \<open>
  (C32) \<^verbatim>\<open>addr_increment\<close> adds one to the number of the address, carrying across its words and
  wrapping at the end of the address space, and \<^verbatim>\<open>addr_host_to_all1s\<close> gives the last address
  of the network the address lies in.
\<close>

theorem addr_increment_value:
  assumes "xaddr_wf a" and "masklen_valid (af a) masklen"
  shows "addr_value (addr_increment a) = (addr_value a + 1) mod 2 ^ addr_bits (af a) \<and>
    (\<exists>b. addr_host_to_all1s a masklen = Some b \<and>
       addr_value b + 1 = (addr_value a div 2 ^ host_bits a masklen + 1) * 2 ^ host_bits a masklen)"
proof
  show "addr_value (addr_increment a) = (addr_value a + 1) mod 2 ^ addr_bits (af a)"
    using assms(1)
  proof (cases rule: xaddr_wf_cases)
    case (1 w0 w1 w2 w3)
    have "unat (w0 + 1) = (unat w0 + 1) mod 2 ^ 32" by (simp add: unat_word_ariths)
    with 1 show ?thesis by (simp add: addr_increment_def addr_value_def addr_bits_def)
  next
    case 2
    with increment6_value [of "addr32 a"] show ?thesis
      by (simp add: addr_increment_def addr_value_def addr_bits_def)
  qed
  show "\<exists>b. addr_host_to_all1s a masklen = Some b \<and>
       addr_value b + 1 = (addr_value a div 2 ^ host_bits a masklen + 1) * 2 ^ host_bits a masklen"
    using or_hostmask [OF assms] by (auto simp: addr_host_to_all1s_def add.commute)
qed

theorem addr_increment_value_witness:
  "addr_value (addr_increment \<lparr>af = AF_INET6, addr32 = [1, 0, 0, 0xffffffff], scope_id = 0\<rparr>) =
     2 ^ 96 + 2 ^ 32"
  by (subst conjunct1 [OF addr_increment_value [where masklen = 64]])
    (simp_all add: xaddr_wf_def masklen_valid_def addr_value_def addr_bits_def)

end
