(* ===== verification/Addrmatch.thy ===== *)
theory Addrmatch
  imports Addr Match
begin

text \<open>
  Matching addresses, hosts and users against lists, from \<^verbatim>\<open>addrmatch.c\<close> and the end of
  \<^verbatim>\<open>match.c\<close>.  A list mixes networks (an address, a slash and a mask length), wildcard patterns
  and negated entries.  An argument that may be \<^verbatim>\<open>NULL\<close> is an option; the results are the
  integers of the source.  \<^verbatim>\<open>getaddrinfo\<close> and the success of \<^verbatim>\<open>strdup\<close> are parameters.
\<close>

section \<open>Address lists\<close>

text \<open>The loop of \<^verbatim>\<open>addr_match_list\<close>; \<open>addr\<close> is the string with its parsed address.\<close>

fun addr_match_list_loop ::
    "getaddrinfo \<Rightarrow> (string \<times> xaddr) option \<Rightarrow> string list \<Rightarrow> int \<Rightarrow> int" where
  "addr_match_list_loop gai addr [] ret = ret"
| "addr_match_list_loop gai addr (cp0 # cps) ret =
     (let neg = (cp0 \<noteq> [] \<and> hd cp0 = CHR ''!'');
          cp = (if neg then tl cp0 else cp0)
      in if cp = [] then -2
         else case addr_pton_cidr gai cp of
           Inl CIDR_INCONSISTENT \<Rightarrow> -2
         | Inr (match_addr, masklen) \<Rightarrow>
             (case addr of
                Some (a, try_addr) \<Rightarrow>
                  if addr_netmatch try_addr match_addr masklen = 0
                  then if neg then -1 else addr_match_list_loop gai addr cps 1
                  else addr_match_list_loop gai addr cps ret
              | None \<Rightarrow> addr_match_list_loop gai addr cps ret)
         | Inl CIDR_PARSE \<Rightarrow>
             (case addr of
                Some (a, try_addr) \<Rightarrow>
                  if match_pattern a cp
                  then if neg then -1 else addr_match_list_loop gai addr cps 1
                  else addr_match_list_loop gai addr cps ret
              | None \<Rightarrow> addr_match_list_loop gai addr cps ret))"

definition addr_match_list :: "getaddrinfo \<Rightarrow> bool \<Rightarrow> string option \<Rightarrow> string \<Rightarrow> int" where
  "addr_match_list gai strdup addr lst =
     (case addr of
        None \<Rightarrow> if strdup then addr_match_list_loop gai None (strsep_all lst) 0 else -1
      | Some a \<Rightarrow>
          (case addr_pton gai a of
             None \<Rightarrow> 0
           | Some try_addr \<Rightarrow>
               if strdup then addr_match_list_loop gai (Some (a, try_addr)) (strsep_all lst) 0 else -1))"

definition INET6_ADDRSTRLEN :: nat where "INET6_ADDRSTRLEN = 46"

definition VALID_CIDR_CHARS :: string where
  "VALID_CIDR_CHARS = ''0123456789abcdefABCDEF.:/''"

text \<open>
  The loop of \<^verbatim>\<open>addr_match_cidr_list\<close>.  An entry with a character outside
  \<^verbatim>\<open>VALID_CIDR_CHARS\<close> sets the result to \<open>-1\<close> and is then processed like any other.
\<close>

fun addr_match_cidr_list_loop ::
    "getaddrinfo \<Rightarrow> xaddr option \<Rightarrow> string list \<Rightarrow> int \<Rightarrow> int" where
  "addr_match_cidr_list_loop gai try_addr [] ret = ret"
| "addr_match_cidr_list_loop gai try_addr (cp # cps) ret =
     (if cp = [] then -1
      else if length cp > INET6_ADDRSTRLEN + 3 then -1
      else let ret' = (if list_all (\<lambda>c. c \<in> set VALID_CIDR_CHARS) cp then ret else -1)
           in case addr_pton_cidr gai cp of
             Inl CIDR_PARSE \<Rightarrow> -1
           | Inl CIDR_INCONSISTENT \<Rightarrow> -1
           | Inr (match_addr, masklen) \<Rightarrow>
               (case try_addr of
                  Some a \<Rightarrow> addr_match_cidr_list_loop gai try_addr cps
                              (if addr_netmatch a match_addr masklen = 0 then 1 else ret')
                | None \<Rightarrow> addr_match_cidr_list_loop gai try_addr cps ret'))"

definition addr_match_cidr_list :: "getaddrinfo \<Rightarrow> bool \<Rightarrow> string option \<Rightarrow> string \<Rightarrow> int" where
  "addr_match_cidr_list gai strdup addr lst =
     (case addr of
        None \<Rightarrow> if strdup then addr_match_cidr_list_loop gai None (strsep_all lst) 0 else -1
      | Some a \<Rightarrow>
          (case addr_pton gai a of
             None \<Rightarrow> 0
           | Some try_addr \<Rightarrow>
               if strdup then addr_match_cidr_list_loop gai (Some try_addr) (strsep_all lst) 0
               else -1))"

section \<open>Hosts and users\<close>

definition match_host_and_ip ::
    "getaddrinfo \<Rightarrow> bool \<Rightarrow> string option \<Rightarrow> string option \<Rightarrow> string \<Rightarrow> int" where
  "match_host_and_ip gai strdup host ipaddr patterns =
     (let mip = addr_match_list gai strdup ipaddr patterns in
      if mip = -2 then -1
      else case host of
        None \<Rightarrow> 0
      | Some h \<Rightarrow>
          if ipaddr = None \<or> mip = -1 then 0
          else let mhost = match_hostname h patterns in
            if mhost = -1 then 0
            else if mhost = 0 \<and> mip = 0 then 0
            else 1)"

text \<open>The parts of a pattern before and after its last \<^verbatim>\<open>@\<close>, as found with \<^verbatim>\<open>strrchr\<close>.\<close>

definition split_at_sign :: "string \<Rightarrow> (string \<times> string) option" where
  "split_at_sign p =
     (if CHR ''@'' \<in> set p
      then let r = rev p; after = takeWhile (\<lambda>c. c \<noteq> CHR ''@'') r
           in Some (rev (tl (dropWhile (\<lambda>c. c \<noteq> CHR ''@'') r)), rev after)
      else None)"

definition match_user ::
    "getaddrinfo \<Rightarrow> bool \<Rightarrow> string option \<Rightarrow> string option \<Rightarrow> string option \<Rightarrow> string \<Rightarrow> int" where
  "match_user gai strdup user host ipaddr pattern =
     (if user = None \<and> host = None \<and> ipaddr = None
      then (case split_at_sign pattern of
              Some (u, p) \<Rightarrow> if match_host_and_ip gai strdup None None p < 0 then -1 else 0
            | None \<Rightarrow> 0)
      else case user of
        None \<Rightarrow> 0
      | Some u \<Rightarrow>
          (case split_at_sign pattern of
             None \<Rightarrow> if match_pattern u pattern then 1 else 0
           | Some (pat, p) \<Rightarrow>
               if match_pattern u pat then match_host_and_ip gai strdup host ipaddr p else 0))"

section \<open>Entries of an address list\<close>

text \<open>
  An entry is in error when nothing is left of it without its negation, or when it names a
  network whose address has bits outside the mask.  It applies to an address that lies in its
  network or, when it is no network, matches it as a pattern.
\<close>

definition addr_entry_error :: "getaddrinfo \<Rightarrow> string \<Rightarrow> bool" where
  "addr_entry_error gai e \<longleftrightarrow>
     entry_sub e = [] \<or> addr_pton_cidr gai (entry_sub e) = Inl CIDR_INCONSISTENT"

definition addr_entry_applies :: "getaddrinfo \<Rightarrow> string \<Rightarrow> xaddr \<Rightarrow> string \<Rightarrow> bool" where
  "addr_entry_applies gai a try_addr e \<longleftrightarrow>
     (case addr_pton_cidr gai (entry_sub e) of
        Inr (net, masklen) \<Rightarrow> addr_netmatch try_addr net masklen = 0
      | Inl CIDR_PARSE \<Rightarrow> match_pattern a (entry_sub e)
      | Inl CIDR_INCONSISTENT \<Rightarrow> False)"

lemma addr_match_list_loop_step:
  "addr_match_list_loop gai (Some (a, x)) (e # es) ret =
     (if addr_entry_error gai e then -2
      else if addr_entry_applies gai a x e
      then if entry_negated e then -1 else addr_match_list_loop gai (Some (a, x)) es 1
      else addr_match_list_loop gai (Some (a, x)) es ret)"
  unfolding addr_match_list_loop.simps Let_def entry_negated_def [symmetric] entry_sub_def [symmetric]
    addr_entry_error_def addr_entry_applies_def
  by (auto split: sum.split cidr_error.split)

lemma addr_match_list_loop_entries:
  "addr_match_list_loop gai (Some (a, x)) es ret =
     (let seen = takeWhile (\<lambda>e. \<not> addr_entry_error gai e) es
      in if \<exists>e \<in> set seen. entry_negated e \<and> addr_entry_applies gai a x e then -1
         else if seen \<noteq> es then -2
         else if \<exists>e \<in> set es. addr_entry_applies gai a x e then 1 else ret)"
proof (induction es arbitrary: ret)
  case (Cons e es)
  show ?case
    unfolding addr_match_list_loop_step Cons.IH Let_def
    by (cases "addr_entry_error gai e"; cases "addr_entry_applies gai a x e"; cases "entry_negated e")
      (simp_all only: takeWhile.simps not_False_eq_True not_True_eq_False if_True if_False
        list.set set_simps bex_simps simp_thms list.inject list.distinct if_cancel)
qed simp

lemma takeWhile_all: "takeWhile P xs \<noteq> xs \<longleftrightarrow> (\<exists>x \<in> set xs. \<not> P x)"
  by (metis takeWhile_eq_all_conv)

definition cidr_entry_net :: "getaddrinfo \<Rightarrow> string \<Rightarrow> (xaddr \<times> nat) option" where
  "cidr_entry_net gai e =
     (if e \<noteq> [] \<and> length e \<le> INET6_ADDRSTRLEN + 3 \<and> list_all (\<lambda>c. c \<in> set VALID_CIDR_CHARS) e
      then (case addr_pton_cidr gai e of Inr n \<Rightarrow> Some n | Inl _ \<Rightarrow> None)
      else None)"

lemma addr_match_cidr_list_loop_clean:
  "(\<And>e. e \<in> set es \<Longrightarrow> cidr_entry_net gai e \<noteq> None) \<Longrightarrow>
     addr_match_cidr_list_loop gai (Some x) es ret =
       (if \<exists>e \<in> set es. \<exists>net m. cidr_entry_net gai e = Some (net, m) \<and> addr_netmatch x net m = 0
        then 1 else ret)"
proof (induction es arbitrary: ret)
  case (Cons e es)
  from Cons.prems [of e] obtain net m where e: "cidr_entry_net gai e = Some (net, m)" by auto
  then have "e \<noteq> []" "\<not> length e > INET6_ADDRSTRLEN + 3" "list_all (\<lambda>c. c \<in> set VALID_CIDR_CHARS) e"
      "addr_pton_cidr gai e = Inr (net, m)"
    by (auto simp: cidr_entry_net_def split: if_splits sum.splits)
  then have "addr_match_cidr_list_loop gai (Some x) (e # es) ret =
      addr_match_cidr_list_loop gai (Some x) es (if addr_netmatch x net m = 0 then 1 else ret)"
    by (simp add: Let_def)
  also have "\<dots> = (if \<exists>e \<in> set es. \<exists>net m. cidr_entry_net gai e = Some (net, m) \<and> addr_netmatch x net m = 0
      then 1 else if addr_netmatch x net m = 0 then 1 else ret)"
    using Cons.prems by (intro Cons.IH) auto
  finally show ?case using e by auto
qed simp

section \<open>Properties\<close>

text \<open>
  (C21) \<^verbatim>\<open>addr_match_list\<close> on a parsable address answers \<open>-1\<close> when a negated entry applies to
  it before any entry in error, whatever positive entries apply; otherwise \<open>-2\<close> when an entry
  is in error, \<open>1\<close> when an entry applies and \<open>0\<close> when none does.
\<close>

theorem addr_match_list_entries:
  assumes "addr_pton gai a = Some x"
  shows "addr_match_list gai True (Some a) lst =
    (let es = strsep_all lst; seen = takeWhile (\<lambda>e. \<not> addr_entry_error gai e) es
     in if \<exists>e \<in> set seen. entry_negated e \<and> addr_entry_applies gai a x e then -1
        else if seen \<noteq> es then -2
        else if \<exists>e \<in> set es. addr_entry_applies gai a x e then 1 else 0)"
  using assms by (simp only: addr_match_list_def option.case addr_match_list_loop_entries if_True Let_def)

theorem addr_match_list_entries_witness:
  "\<exists>x. addr_pton example_gai ''10.1.2.3'' = Some x \<and>
     addr_match_list example_gai True (Some ''10.1.2.3'') ''!10.1.*,10.0.0.0/8'' = -1"
proof -
  obtain x where x: "addr_pton example_gai ''10.1.2.3'' = Some x"
    by (simp add: addr_pton_def example_gai_def addr_sa_to_xaddr_def sizeof_sockaddr_in_def)
  have es: "strsep_all ''!10.1.*,10.0.0.0/8'' = [''!10.1.*'', ''10.0.0.0/8'']" by simp
  have e: "entry_sub ''!10.1.*'' = ''10.1.*''" "entry_negated ''!10.1.*''" by code_simp+
  have p: "addr_pton_cidr example_gai ''10.1.*'' = Inl CIDR_PARSE" "match_pattern ''10.1.2.3'' ''10.1.*''"
    by code_simp+
  have "addr_match_list example_gai True (Some ''10.1.2.3'') ''!10.1.*,10.0.0.0/8'' = -1"
    unfolding addr_match_list_entries [OF x] es
    by (simp add: e p addr_entry_error_def addr_entry_applies_def)
  with x show ?thesis by blast
qed

text \<open>
  (C33) \<^verbatim>\<open>match_host_and_ip\<close> allows a host with a parsable address exactly when no entry of the
  list is in error, no negated entry applies to the address, no negated entry matches the host
  name, and some entry applies to the address or matches the name.
\<close>

theorem match_host_and_ip_allows:
  assumes "addr_pton gai ip = Some x"
  shows "match_host_and_ip gai True (Some host) (Some ip) patterns = 1 \<longleftrightarrow>
    (\<forall>e \<in> set (strsep_all patterns). \<not> addr_entry_error gai e \<and>
       \<not> (entry_negated e \<and> addr_entry_applies gai ip x e)) \<and>
    match_hostname host patterns \<noteq> -1 \<and>
    ((\<exists>e \<in> set (strsep_all patterns). addr_entry_applies gai ip x e) \<or>
     match_hostname host patterns = 1)"
proof -
  define es where "es = strsep_all patterns"
  have "addr_match_list gai True (Some ip) patterns = addr_match_list_loop gai (Some (ip, x)) es 0"
    using assms by (simp add: addr_match_list_def es_def)
  note mip = this [unfolded addr_match_list_loop_entries Let_def takeWhile_all not_not]
  have vals: "match_hostname host patterns \<in> {-1, 0, 1}"
    by (simp add: match_hostname_def match_pattern_list_def match_pattern_list_loop_verdict
        list_verdict_def Let_def)
  show ?thesis
  proof (cases "\<exists>e \<in> set es. addr_entry_error gai e")
    case True
    then have "addr_match_list gai True (Some ip) patterns \<in> {-1, -2}" unfolding mip by simp
    with True show ?thesis unfolding es_def [symmetric]
      by (auto simp: match_host_and_ip_def Let_def)
  next
    case False
    then have "takeWhile (\<lambda>e. \<not> addr_entry_error gai e) es = es" by (simp add: takeWhile_eq_all_conv)
    with False mip vals show ?thesis unfolding es_def [symmetric]
      by (auto simp: match_host_and_ip_def Let_def)
  qed
qed

theorem match_host_and_ip_allows_witness:
  "\<exists>x. addr_pton example_gai ''10.1.2.3'' = Some x \<and>
     match_host_and_ip example_gai True (Some ''a.b'') (Some ''10.1.2.3'') ''!c.*,*.b'' = 1"
proof -
  obtain x where x: "addr_pton example_gai ''10.1.2.3'' = Some x"
    by (simp add: addr_pton_def example_gai_def addr_sa_to_xaddr_def sizeof_sockaddr_in_def)
  have es: "strsep_all ''!c.*,*.b'' = [''!c.*'', ''*.b'']" by simp
  have e: "entry_sub ''!c.*'' = ''c.*''" "entry_sub ''*.b'' = ''*.b''" "\<not> entry_negated ''*.b''" by code_simp+
  have p: "addr_pton_cidr example_gai ''c.*'' = Inl CIDR_PARSE" "\<not> match_pattern ''10.1.2.3'' ''c.*''"
    "addr_pton_cidr example_gai ''*.b'' = Inl CIDR_PARSE"
    by code_simp+
  have h: "match_hostname ''a.b'' ''!c.*,*.b'' = 1" by code_simp
  have "match_host_and_ip example_gai True (Some ''a.b'') (Some ''10.1.2.3'') ''!c.*,*.b'' = 1"
    unfolding match_host_and_ip_allows [OF x] es h
    by (simp add: e p addr_entry_error_def addr_entry_applies_def)
  with x show ?thesis by blast
qed

text \<open>
  (C34) \<^verbatim>\<open>addr_match_cidr_list\<close> on a list whose entries are all networks written with valid
  characters answers \<open>1\<close> when the address lies in one of them and \<open>0\<close> otherwise.
\<close>

theorem addr_match_cidr_list_clean:
  assumes "addr_pton gai a = Some x" and "\<forall>e \<in> set (strsep_all lst). cidr_entry_net gai e \<noteq> None"
  shows "addr_match_cidr_list gai True (Some a) lst =
    (if \<exists>e \<in> set (strsep_all lst). \<exists>net m. cidr_entry_net gai e = Some (net, m) \<and> addr_netmatch x net m = 0
     then 1 else 0)"
  using assms addr_match_cidr_list_loop_clean [of "strsep_all lst" gai x 0]
  by (simp add: addr_match_cidr_list_def)

theorem addr_match_cidr_list_clean_witness:
  "addr_match_cidr_list example_gai True (Some ''10.1.2.3'') ''2001:db8::/32,10.0.0.0/8'' = 1"
proof -
  define x where "x = \<lparr>af = AF_INET, addr32 = [0x0a010203, 0, 0, 0], scope_id = 0\<rparr>"
  define n4 where "n4 = \<lparr>af = AF_INET, addr32 = [0x0a000000, 0, 0, 0], scope_id = 0\<rparr>"
  define n6 where "n6 = \<lparr>af = AF_INET6, addr32 = [0x20010db8, 0, 0, 0], scope_id = 0\<rparr>"
  have x: "addr_pton example_gai ''10.1.2.3'' = Some x" unfolding x_def by code_simp
  have es: "strsep_all ''2001:db8::/32,10.0.0.0/8'' = [''2001:db8::/32'', ''10.0.0.0/8'']" by simp
  have n: "cidr_entry_net example_gai ''2001:db8::/32'' = Some (n6, 32)" unfolding n6_def by code_simp
  have m: "cidr_entry_net example_gai ''10.0.0.0/8'' = Some (n4, 8)" unfolding n4_def by code_simp
  have "addr_netmatch x n4 8 = 0" unfolding x_def n4_def by code_simp
  with n m show ?thesis by (subst addr_match_cidr_list_clean [OF x]) (simp_all add: es)
qed


end
