(* ===== verification/Bitmap.thy ===== *)
theory Bitmap
  imports Prelude
begin

unbundle bit_operations_syntax

text \<open>
  Bit vectors, from \<^verbatim>\<open>bitmap.c\<close>: a growing array of 32-bit words with the index of its top
  word.  The abstraction of a bit vector is the set of the positions of its bits; the operations
  are shown to be the operations of a bounded set of numbers, and the conversions to and from
  big-endian byte strings to be inverse to each other.  The success of an allocation is an
  argument of the operations that allocate.
\<close>

section \<open>State and operations\<close>

definition BITMAP_MAX :: nat where "BITMAP_MAX = 16777216"
definition BITMAP_BYTES :: nat where "BITMAP_BYTES = 4"
definition BITMAP_BITS :: nat where "BITMAP_BITS = BITMAP_BYTES * 8"
definition BITMAP_WMASK :: nat where "BITMAP_WMASK = BITMAP_BITS - 1"

record bitmap =
  bm_d :: "32 word list"
  bm_len :: nat
  bm_top :: nat

definition bitmap_new :: "bool \<Rightarrow> bitmap option" where
  "bitmap_new calloc = (if calloc then Some \<lparr>bm_d = [0], bm_len = 1, bm_top = 0\<rparr> else None)"

definition bitmap_zero :: "bitmap \<Rightarrow> bitmap" where
  "bitmap_zero b = b\<lparr>bm_d := replicate (bm_len b) 0 @ drop (bm_len b) (bm_d b), bm_top := 0\<rparr>"

text \<open>What \<^verbatim>\<open>bitmap_free\<close> leaves in the memory it gives back.\<close>

definition bitmap_free :: "bitmap option \<Rightarrow> 32 word list" where
  "bitmap_free b = (case b of None \<Rightarrow> [] | Some b \<Rightarrow> bm_d (bitmap_zero b))"

definition bitmap_test_bit :: "bitmap \<Rightarrow> nat \<Rightarrow> bool" where
  "bitmap_test_bit b n =
     (if bm_top b \<ge> bm_len b then False
      else if bm_len b = 0 \<or> n div BITMAP_BITS > bm_top b then False
      else drop_bit (n AND BITMAP_WMASK) (bm_d b ! (n div BITMAP_BITS)) AND 1 = 1)"

text \<open>\<^verbatim>\<open>recallocarray\<close> keeps the words and appends zeros; \<open>None\<close> stands for \<open>-1\<close>.\<close>

definition bitmap_reserve :: "bool \<Rightarrow> bitmap \<Rightarrow> nat \<Rightarrow> bitmap option" where
  "bitmap_reserve ra b n =
     (if bm_top b \<ge> bm_len b \<or> n > BITMAP_MAX then None
      else let nlen = n div BITMAP_BITS + 1 in
        if bm_len b < nlen
        then if ra then Some (b\<lparr>bm_d := bm_d b @ replicate (nlen - bm_len b) 0, bm_len := nlen\<rparr>) else None
        else Some b)"

definition bitmap_set_bit :: "bool \<Rightarrow> bitmap \<Rightarrow> nat \<Rightarrow> bitmap option" where
  "bitmap_set_bit ra b n =
     (case bitmap_reserve ra b n of
        None \<Rightarrow> None
      | Some b1 \<Rightarrow>
          let offset = n div BITMAP_BITS;
              b2 = (if offset > bm_top b1 then b1\<lparr>bm_top := offset\<rparr> else b1)
          in Some (b2\<lparr>bm_d := (bm_d b2)[offset := bm_d b2 ! offset OR push_bit (n AND BITMAP_WMASK) 1]\<rparr>))"

fun retop_loop :: "32 word list \<Rightarrow> nat \<Rightarrow> nat" where
  "retop_loop d 0 = 0"
| "retop_loop d (Suc t) = (if d ! Suc t = 0 then retop_loop d t else Suc t)"

definition retop :: "bitmap \<Rightarrow> bitmap" where
  "retop b = (if bm_top b \<ge> bm_len b then b else b\<lparr>bm_top := retop_loop (bm_d b) (bm_top b)\<rparr>)"

definition bitmap_clear_bit :: "bitmap \<Rightarrow> nat \<Rightarrow> bitmap" where
  "bitmap_clear_bit b n =
     (if bm_top b \<ge> bm_len b \<or> n > BITMAP_MAX then b
      else let offset = n div BITMAP_BITS in
        if offset > bm_top b then b
        else retop (b\<lparr>bm_d := (bm_d b)[offset := bm_d b ! offset AND NOT (push_bit (n AND BITMAP_WMASK) 1)]\<rparr>))"

text \<open>
  The loop that finds the most significant bit: it never ends on 0, so it is a partial function;
  \<open>None\<close> stands for a run that does not end.
\<close>

partial_function (option) msb_loop :: "32 word \<Rightarrow> nat \<Rightarrow> nat option" where
  "msb_loop w bits =
     (if w AND push_bit (BITMAP_BITS - 1) 1 \<noteq> 0 then Some bits
      else msb_loop (push_bit 1 w) (bits - 1))"

definition bitmap_nbits :: "bitmap \<Rightarrow> (nat \<times> bitmap) option" where
  "bitmap_nbits b0 =
     (let b = retop b0 in
      if bm_top b \<ge> bm_len b then Some (0, b)
      else if bm_len b = 0 \<or> (bm_top b = 0 \<and> bm_d b ! 0 = 0) then Some (0, b)
      else case msb_loop (bm_d b ! bm_top b) ((bm_top b + 1) * BITMAP_BITS) of
        None \<Rightarrow> None
      | Some bits \<Rightarrow> Some (bits, b))"

definition bitmap_nbytes :: "bitmap \<Rightarrow> (nat \<times> bitmap) option" where
  "bitmap_nbytes b = map_option (\<lambda>(bits, b'). ((bits + 7) div 8, b')) (bitmap_nbits b)"

section \<open>Conversions\<close>

text \<open>
  The body of the loops of \<^verbatim>\<open>bitmap_to_string\<close>: \<open>k\<close> bytes are written to \<open>s\<close>, the next one is
  byte \<open>j\<close> of word \<open>i\<close>.
\<close>

definition to_string_step ::
    "32 word list \<Rightarrow> nat \<Rightarrow> nat \<Rightarrow> nat \<Rightarrow> nat \<Rightarrow> nat \<times> byte list \<Rightarrow> nat \<times> byte list" where
  "to_string_step d l need i j ks =
     (case ks of (k, s) \<Rightarrow>
        if k \<ge> l then (k, s)
        else (k + 1, s[need - 1 - k := ucast (drop_bit (j * 8) (d ! i) AND 0xff)]))"

text \<open>
  The result is the error \<open>-1\<close> (\<open>None\<close>) or the buffer \<open>s\<close> of \<open>length s\<close> bytes as it is left; the
  outer option tells whether the call returns.
\<close>

definition bitmap_to_string :: "bitmap \<Rightarrow> byte list \<Rightarrow> (byte list option \<times> bitmap) option" where
  "bitmap_to_string b0 s =
     (case bitmap_nbytes b0 of
        None \<Rightarrow> None
      | Some (need, b) \<Rightarrow>
          if length s < need \<or> bm_top b \<ge> bm_len b then Some (None, b)
          else let l = (if length s > need then need else length s);
                   r = fold (\<lambda>i. fold (to_string_step (bm_d b) l need i) [0..<BITMAP_BYTES])
                         [0..<bm_top b + 1] (0, s)
               in Some (Some (snd r), b))"

fun from_string_loop :: "byte list \<Rightarrow> nat \<Rightarrow> nat \<Rightarrow> 32 word list \<Rightarrow> 32 word list" where
  "from_string_loop [] offset shift d = d"
| "from_string_loop (x # xs) offset shift d =
     (let d' = d[offset := d ! offset OR push_bit shift (ucast x)]
      in if shift = 0 then from_string_loop xs (size_sub offset 1) (BITMAP_BITS - 8) d'
         else from_string_loop xs offset (shift - 8) d')"

definition bitmap_from_string :: "bool \<Rightarrow> bitmap \<Rightarrow> byte list \<Rightarrow> bitmap option" where
  "bitmap_from_string ra b s =
     (let l = length s in
      if l > BITMAP_MAX div 8 then None
      else case bitmap_reserve ra b (l * 8) of
        None \<Rightarrow> None
      | Some b1 \<Rightarrow>
          let b2 = bitmap_zero b1 in
          if l = 0 then Some b2
          else let offset = (l + (BITMAP_BYTES - 1)) div BITMAP_BYTES - 1;
                   shift = ((l + (BITMAP_BYTES - 1)) mod BITMAP_BYTES) * 8
               in Some (retop (b2\<lparr>bm_top := offset, bm_d := from_string_loop s offset shift (bm_d b2)\<rparr>)))"

section \<open>The set of a bit vector\<close>

definition words_bit :: "32 word list \<Rightarrow> nat \<Rightarrow> bool" where
  "words_bit d n \<longleftrightarrow> n div 32 < length d \<and> bit (d ! (n div 32)) (n mod 32)"

definition bitmap_bits :: "bitmap \<Rightarrow> nat set" where
  "bitmap_bits b = {n. words_bit (bm_d b) n}"

definition bitmap_wf :: "bitmap \<Rightarrow> bool" where
  "bitmap_wf b \<longleftrightarrow> length (bm_d b) = bm_len b \<and> bm_top b < bm_len b \<and>
     (\<forall>i < bm_len b. bm_top b < i \<longrightarrow> bm_d b ! i = 0) \<and> bitmap_bits b \<subseteq> {..BITMAP_MAX}"

lemma BITMAP_BITS_32 [simp]: "BITMAP_BITS = 32"
  by (simp add: BITMAP_BITS_def BITMAP_BYTES_def)

lemma WMASK_mod [simp]: "n AND BITMAP_WMASK = n mod 32"
proof -
  have "BITMAP_WMASK = mask 5" by (simp add: BITMAP_WMASK_def BITMAP_BITS_def BITMAP_BYTES_def mask_eq_exp_minus_1)
  then have "n AND BITMAP_WMASK = take_bit 5 n" by (simp only: take_bit_eq_mask)
  then show ?thesis by (simp add: take_bit_eq_mod)
qed

lemma and_one_bit: "drop_bit k (w :: 32 word) AND 1 = 1 \<longleftrightarrow> bit w k"
  by (simp add: and_one_eq bit_iff_odd_drop_bit odd_iff_mod_2_eq_one)

lemma words_bit_update:
  assumes "n div 32 < length d"
  shows "words_bit (d[n div 32 := w]) m \<longleftrightarrow>
    (if m div 32 = n div 32 then bit w (m mod 32) else words_bit d m)"
  using assms by (auto simp: words_bit_def nth_list_update)

lemma div_mod_32_eq: "m div 32 = n div 32 \<Longrightarrow> m mod 32 = n mod 32 \<longleftrightarrow> m = (n :: nat)"
  by (metis div_mult_mod_eq)

lemma bitmap_test_bit_set: "bitmap_wf b \<Longrightarrow> bitmap_test_bit b n \<longleftrightarrow> n \<in> bitmap_bits b"
  by (auto simp: bitmap_wf_def bitmap_test_bit_def bitmap_bits_def words_bit_def and_one_bit
      not_less [symmetric])

lemma bitmap_new_set: "bitmap_new True = Some b \<Longrightarrow> bitmap_wf b \<and> bitmap_bits b = {}"
  by (auto simp: bitmap_new_def bitmap_wf_def bitmap_bits_def words_bit_def)

lemma bitmap_zero_set: "bitmap_wf b \<Longrightarrow> bitmap_wf (bitmap_zero b) \<and> bitmap_bits (bitmap_zero b) = {}"
  by (auto simp: bitmap_zero_def bitmap_wf_def bitmap_bits_def words_bit_def)

lemma bitmap_reserve_set:
  assumes "bitmap_wf b"
  shows "bitmap_reserve ra b n \<noteq> None \<longleftrightarrow> n \<le> BITMAP_MAX \<and> (ra \<or> n div 32 < bm_len b)"
    and "bitmap_reserve ra b n = Some b' \<Longrightarrow>
      bitmap_wf b' \<and> bitmap_bits b' = bitmap_bits b \<and> n div 32 < bm_len b' \<and> bm_top b' = bm_top b"
proof -
  have ext: "words_bit (d @ replicate k 0) m = words_bit d m" for d k m
    by (auto simp: words_bit_def nth_append)
  show "bitmap_reserve ra b n \<noteq> None \<longleftrightarrow> n \<le> BITMAP_MAX \<and> (ra \<or> n div 32 < bm_len b)"
    using assms by (auto simp: bitmap_reserve_def bitmap_wf_def Let_def)
  show "bitmap_wf b' \<and> bitmap_bits b' = bitmap_bits b \<and> n div 32 < bm_len b' \<and> bm_top b' = bm_top b"
    if "bitmap_reserve ra b n = Some b'"
    using assms that
    by (auto simp: bitmap_reserve_def bitmap_wf_def Let_def bitmap_bits_def ext nth_append split: if_splits)
qed

lemma bitmap_set_bit_set:
  assumes "bitmap_wf b" "bitmap_set_bit ra b n = Some b'"
  shows "bitmap_wf b' \<and> bitmap_bits b' = insert n (bitmap_bits b)"
proof -
  obtain b1 where b1: "bitmap_reserve ra b n = Some b1"
    using assms(2) by (auto simp: bitmap_set_bit_def split: option.splits)
  then have n: "n \<le> BITMAP_MAX" using bitmap_reserve_set(1) [OF assms(1), of ra n] by simp
  define w where "w = bm_d b1 ! (n div 32) OR push_bit (n mod 32) 1"
  have wf: "bitmap_wf b1" and bits: "bitmap_bits b1 = bitmap_bits b" and lt: "n div 32 < bm_len b1"
    using bitmap_reserve_set(2) [OF assms(1) b1] by auto
  have d': "bm_d b' = (bm_d b1)[n div 32 := w]" and len': "bm_len b' = bm_len b1"
    and top': "bm_top b' = max (bm_top b1) (n div 32)"
    using assms(2) b1 by (auto simp: bitmap_set_bit_def Let_def w_def max_def)
  have lt': "n div 32 < length (bm_d b1)" using wf lt by (simp add: bitmap_wf_def)
  have "words_bit (bm_d b') m \<longleftrightarrow> m = n \<or> words_bit (bm_d b1) m" for m
    unfolding d' words_bit_update [OF lt'] using lt' div_mod_32_eq [of m n]
    by (auto simp: words_bit_def w_def bit_simps)
  then have bits': "bitmap_bits b' = insert n (bitmap_bits b)"
    using bits by (auto simp: bitmap_bits_def)
  then show ?thesis
    using wf lt n bits unfolding bitmap_wf_def d' len' top' by (auto simp: nth_list_update)
qed

lemma retop_set:
  assumes "bitmap_wf b"
  shows "bitmap_wf (retop b)" "bitmap_bits (retop b) = bitmap_bits b" "bm_d (retop b) = bm_d b"
    and "bm_top (retop b) = 0 \<or> bm_d b ! bm_top (retop b) \<noteq> 0"
proof -
  have "retop_loop d t \<le> t \<and> (retop_loop d t = 0 \<or> d ! retop_loop d t \<noteq> 0) \<and>
      (\<forall>i. retop_loop d t < i \<longrightarrow> i \<le> t \<longrightarrow> d ! i = 0)" for d t
    by (induction t) (auto simp: le_Suc_eq)
  from this [of "bm_d b" "bm_top b"] assms
  show "bitmap_wf (retop b)" "bitmap_bits (retop b) = bitmap_bits b" "bm_d (retop b) = bm_d b"
    "bm_top (retop b) = 0 \<or> bm_d b ! bm_top (retop b) \<noteq> 0"
    by (auto simp: retop_def bitmap_wf_def bitmap_bits_def)
qed

lemma bitmap_clear_bit_set:
  assumes "bitmap_wf b"
  shows "bitmap_wf (bitmap_clear_bit b n) \<and> bitmap_bits (bitmap_clear_bit b n) = bitmap_bits b - {n}"
proof (cases "n \<le> BITMAP_MAX \<and> n div 32 \<le> bm_top b")
  case True
  then have lt: "n div 32 < length (bm_d b)" using assms by (auto simp: bitmap_wf_def)
  define w where "w = bm_d b ! (n div 32) AND NOT (push_bit (n mod 32) 1)"
  define b1 where "b1 = b\<lparr>bm_d := (bm_d b)[n div 32 := w]\<rparr>"
  have "words_bit (bm_d b1) m \<longleftrightarrow> m \<noteq> n \<and> words_bit (bm_d b) m" for m
    unfolding b1_def using lt words_bit_update [OF lt, of w m] div_mod_32_eq [of m n]
    by (auto simp: words_bit_def w_def bit_simps)
  then have bits: "bitmap_bits b1 = bitmap_bits b - {n}" by (auto simp: bitmap_bits_def)
  have "bitmap_wf b1"
    using assms True bits unfolding bitmap_wf_def by (auto simp: b1_def)
  moreover have "bitmap_clear_bit b n = retop b1"
    using True assms by (auto simp: bitmap_clear_bit_def bitmap_wf_def Let_def b1_def w_def)
  ultimately show ?thesis using retop_set bits by auto
next
  case False
  then have "bitmap_clear_bit b n = b" by (auto simp: bitmap_clear_bit_def Let_def)
  moreover have "n \<notin> bitmap_bits b"
    using False assms by (auto simp: bitmap_wf_def bitmap_bits_def words_bit_def not_le)
  ultimately show ?thesis using assms by auto
qed


subsection \<open>A set of bounded numbers\<close>

text \<open>
  The contract of a bit vector: its operations are those of a set of numbers up to a bound.
  The client's lemma is about any sequence of operations.
\<close>

datatype set_op = Set_bit nat | Clear_bit nat | Zero_all

fun set_run :: "nat \<Rightarrow> nat set \<Rightarrow> set_op list \<Rightarrow> nat set" where
  "set_run N A [] = A"
| "set_run N A (Set_bit n # ops) = set_run N (if n \<le> N then insert n A else A) ops"
| "set_run N A (Clear_bit n # ops) = set_run N (A - {n}) ops"
| "set_run N A (Zero_all # ops) = set_run N {} ops"

fun op_run :: "('s \<Rightarrow> nat \<Rightarrow> 's option) \<Rightarrow> ('s \<Rightarrow> nat \<Rightarrow> 's) \<Rightarrow> ('s \<Rightarrow> 's) \<Rightarrow> 's \<Rightarrow> set_op list \<Rightarrow> 's" where
  "op_run ins del clr s [] = s"
| "op_run ins del clr s (Set_bit n # ops) =
     op_run ins del clr (case ins s n of None \<Rightarrow> s | Some s' \<Rightarrow> s') ops"
| "op_run ins del clr s (Clear_bit n # ops) = op_run ins del clr (del s n) ops"
| "op_run ins del clr s (Zero_all # ops) = op_run ins del clr (clr s) ops"

locale bounded_set =
  fixes inv :: "'s \<Rightarrow> bool" and abs :: "'s \<Rightarrow> nat set" and bound :: nat
    and ins :: "'s \<Rightarrow> nat \<Rightarrow> 's option" and del :: "'s \<Rightarrow> nat \<Rightarrow> 's" and clr :: "'s \<Rightarrow> 's"
    and mem :: "'s \<Rightarrow> nat \<Rightarrow> bool"
  assumes ins_total: "inv s \<Longrightarrow> ins s n \<noteq> None \<longleftrightarrow> n \<le> bound"
    and ins_set: "inv s \<Longrightarrow> ins s n = Some s' \<Longrightarrow> inv s' \<and> abs s' = insert n (abs s)"
    and del_set: "inv s \<Longrightarrow> inv (del s n) \<and> abs (del s n) = abs s - {n}"
    and clr_set: "inv s \<Longrightarrow> inv (clr s) \<and> abs (clr s) = {}"
    and mem_set: "inv s \<Longrightarrow> mem s n \<longleftrightarrow> n \<in> abs s"
begin

lemma run_set: "inv s \<Longrightarrow> inv (op_run ins del clr s ops) \<and> abs (op_run ins del clr s ops) = set_run bound (abs s) ops"
proof (induction ops arbitrary: s)
  case (Cons op ops)
  show ?case
  proof (cases op)
    case (Set_bit n)
    then show ?thesis
      using Cons ins_total [OF Cons.prems, of n] ins_set [OF Cons.prems, of n]
      by (cases "ins s n") auto
  next
    case (Clear_bit n)
    then show ?thesis using Cons.IH [of "del s n"] del_set [OF Cons.prems, of n] by simp
  next
    case Zero_all
    then show ?thesis using Cons.IH [of "clr s"] clr_set [OF Cons.prems] by simp
  qed
qed simp

lemma run_mem: "inv s \<Longrightarrow> mem (op_run ins del clr s ops) n \<longleftrightarrow> n \<in> set_run bound (abs s) ops"
  using run_set mem_set by blast

end

interpretation bm: bounded_set bitmap_wf bitmap_bits BITMAP_MAX "bitmap_set_bit True"
    bitmap_clear_bit bitmap_zero bitmap_test_bit
proof
  show "bitmap_set_bit True b n \<noteq> None \<longleftrightarrow> n \<le> BITMAP_MAX" if "bitmap_wf b" for b n
    using bitmap_reserve_set(1) [OF that, of True n]
    by (auto simp: bitmap_set_bit_def Let_def split: option.splits)
qed (simp_all add: bitmap_set_bit_set bitmap_clear_bit_set bitmap_zero_set bitmap_test_bit_set)

subsection \<open>The number of bits\<close>

lemma msb_loop_finds:
  "m \<le> 31 \<Longrightarrow> bit w m \<Longrightarrow> (\<And>k. m < k \<Longrightarrow> \<not> bit w k) \<Longrightarrow> msb_loop w bits = Some (bits - (31 - m))"
proof (induction "31 - m" arbitrary: m w bits)
  case 0
  then have "bit w 31" "m = 31" by simp_all
  moreover have "bit (push_bit 31 1 :: 32 word) 31" by (simp only: bit_push_bit_iff) simp
  ultimately have "bit (w AND push_bit 31 1) 31" by (simp only: bit_and_iff)
  then have "w AND push_bit 31 1 \<noteq> 0" by (metis bit_0_eq bot_apply bot_bool_def)
  then show ?case using \<open>m = 31\<close> by (subst msb_loop.simps) simp
next
  case (Suc n)
  then have m: "m < 31" by simp
  have top: "w AND push_bit 31 1 = 0"
  proof (rule bit_word_eqI)
    fix k
    show "bit (w AND push_bit 31 1) k \<longleftrightarrow> bit (0 :: 32 word) k"
      using Suc.prems(3) [of k] m
      by (simp only: bit_and_iff bit_push_bit_iff bit_1_iff) auto
  qed
  have pb: "bit (push_bit 1 w) k \<longleftrightarrow> 1 \<le> k \<and> k < 32 \<and> bit w (k - 1)" for k
    by (simp only: bit_push_bit_iff possible_bit_word) simp
  have "msb_loop (push_bit 1 w) (bits - 1) = Some (bits - 1 - (31 - Suc m))"
  proof (rule Suc.hyps(1))
    show "bit (push_bit 1 w) (Suc m)" using m Suc.prems(2) by (simp only: pb) simp
    show "\<not> bit (push_bit 1 w) k" if "Suc m < k" for k
      using that Suc.prems(3) [of "k - 1"] by (simp only: pb) auto
  qed (use Suc.hyps(2) m in simp_all)
  then show ?case using m top by (subst msb_loop.simps) (simp add: Suc_diff_Suc)
qed


lemma bitmap_nbits_set:
  assumes "bitmap_wf b"
  shows "\<exists>b'. bitmap_nbits b = Some (if bitmap_bits b = {} then 0 else Max (bitmap_bits b) + 1, b') \<and>
    bitmap_wf b' \<and> bm_d b' = bm_d b \<and> bitmap_bits b' = bitmap_bits b"
proof -
  define b' where "b' = retop b"
  have wf: "bitmap_wf b'" and bits: "bitmap_bits b' = bitmap_bits b" and d: "bm_d b' = bm_d b"
    and top: "bm_top b' = 0 \<or> bm_d b ! bm_top b' \<noteq> 0"
    using retop_set [OF assms] by (auto simp: b'_def)
  have le: "n div 32 \<le> bm_top b'" if "n \<in> bitmap_bits b'" for n
    using that wf by (auto simp: bitmap_bits_def words_bit_def bitmap_wf_def not_le [symmetric])
  show ?thesis
  proof (cases "bm_d b ! bm_top b' = 0")
    case True
    with top have t: "bm_top b' = 0" by simp
    have "n \<notin> bitmap_bits b'" for n
    proof
      assume n: "n \<in> bitmap_bits b'"
      then have "n div 32 = 0" using le t by fastforce
      with n True t d show False by (simp add: bitmap_bits_def words_bit_def)
    qed
    then have "bitmap_bits b = {}" using bits by blast
    then show ?thesis
      using True t wf d bits by (auto simp: bitmap_nbits_def Let_def b'_def [symmetric] bitmap_wf_def)
  next
    case False
    define w where "w = bm_d b ! bm_top b'"
    define m where "m = Max {k. bit w k}"
    have fin: "finite {k. bit w k}" by (rule finite_subset [of _ "{..<32}"]) (auto dest: bit_imp_le_length)
    have ne: "{k. bit w k} \<noteq> {}" using False by (auto simp: w_def bit_eq_iff)
    have m: "bit w m" "\<And>k. m < k \<Longrightarrow> \<not> bit w k"
      using Max_in [OF fin ne] Max_ge [OF fin] by (auto simp: m_def not_le [symmetric])
    have m31: "m \<le> 31" using bit_imp_le_length [OF m(1)] by simp
    have loop: "msb_loop w ((bm_top b' + 1) * BITMAP_BITS) = Some (bm_top b' * 32 + m + 1)"
      using msb_loop_finds [OF m31 m] m31 by simp
    have "Max (bitmap_bits b') = bm_top b' * 32 + m"
    proof (rule Max_eqI)
      show "finite (bitmap_bits b')" using wf by (auto simp: bitmap_wf_def intro: finite_subset)
      show "bm_top b' * 32 + m \<in> bitmap_bits b'"
        using m(1) m31 wf d by (auto simp: bitmap_bits_def words_bit_def bitmap_wf_def w_def)
      show "n \<le> bm_top b' * 32 + m" if n: "n \<in> bitmap_bits b'" for n
      proof (cases "n div 32 = bm_top b'")
        case True
        then have "bit w (n mod 32)" using n d by (auto simp: bitmap_bits_def words_bit_def w_def)
        then have "n mod 32 \<le> m" using m(2) not_le by blast
        with True show ?thesis by (metis add_le_cancel_left div_mult_mod_eq)
      next
        case False
        with le [OF n] have "n div 32 < bm_top b'" by simp
        then show ?thesis by (metis div_less_iff_less_mult less_imp_le_nat trans_le_add1 zero_less_numeral)
      qed
    qed
    moreover have "bitmap_bits b \<noteq> {}"
      using m(1) m31 wf d bits [symmetric] by (auto simp: bitmap_bits_def words_bit_def bitmap_wf_def w_def
          intro!: exI [of _ "bm_top b' * 32 + m"])
    ultimately show ?thesis
      using False wf d bits loop
      by (auto simp: bitmap_nbits_def Let_def b'_def [symmetric] bitmap_wf_def w_def)
  qed
qed

subsection \<open>Byte strings\<close>

definition put_back :: "nat \<Rightarrow> nat \<Rightarrow> byte \<Rightarrow> nat \<times> byte list \<Rightarrow> nat \<times> byte list" where
  "put_back l need x ks = (case ks of (k, s) \<Rightarrow> if k \<ge> l then (k, s) else (k + 1, s[need - 1 - k := x]))"

definition word_byte :: "32 word list \<Rightarrow> nat \<Rightarrow> nat \<Rightarrow> byte" where
  "word_byte d i j = ucast (drop_bit (j * 8) (d ! i) AND 0xff)"

abbreviation bytes_le :: "32 word list \<Rightarrow> nat \<Rightarrow> byte list" where
  "bytes_le d t \<equiv> concat (map (\<lambda>i. map (word_byte d i) [0..<4]) [0..<t])"

lemma to_string_loops:
  "fold (\<lambda>i. fold (to_string_step d l need i) [0..<BITMAP_BYTES]) [0..<t] = fold (put_back l need) (bytes_le d t)"
proof -
  have fc: "fold f (concat xss) = fold (fold f) xss" for f :: "byte \<Rightarrow> nat \<times> byte list \<Rightarrow> nat \<times> byte list" and xss
    by (induction xss) auto
  have step: "to_string_step d l need i = put_back l need \<circ> word_byte d i" for i
    by (intro ext) (simp add: to_string_step_def put_back_def word_byte_def)
  show ?thesis
    by (simp only: fc fold_map step BITMAP_BYTES_def o_def)
qed

lemma length_bytes_le: "length (bytes_le d t) = 4 * t"
  by (induction t) auto

lemma nth_bytes_le: "k < 4 * t \<Longrightarrow> bytes_le d t ! k = word_byte d (k div 4) (k mod 4)"
proof (induction t)
  case (Suc t)
  show ?case
  proof (cases "k < 4 * t")
    case True
    with Suc.IH show ?thesis by (simp add: nth_append length_bytes_le)
  next
    case False
    define j where "j = k - 4 * t"
    have j: "k = 4 * t + j" "j < 4" using False Suc.prems by (auto simp: j_def)
    then have "bytes_le d (Suc t) ! k = map (word_byte d t) [0..<4] ! j"
      by (simp add: nth_append length_bytes_le del: upt_rec_numeral)
    also have "\<dots> = word_byte d t j" using j(2) by (simp del: upt_rec_numeral)
    finally show ?thesis using j by simp
  qed
qed simp

lemma put_back_fold:
  assumes "l \<le> need" "need \<le> length s"
  shows "\<exists>s'. fold (put_back l need) xs (0, s) = (min (length xs) l, s') \<and> length s' = length s \<and>
    (\<forall>i < length s. s' ! i = (if i < need \<and> need - 1 - i < min (length xs) l then xs ! (need - 1 - i) else s ! i))"
proof (induction xs rule: rev_induct)
  case (snoc x xs)
  then obtain s' where s': "fold (put_back l need) xs (0, s) = (min (length xs) l, s')" "length s' = length s"
      "\<forall>i < length s. s' ! i = (if i < need \<and> need - 1 - i < min (length xs) l then xs ! (need - 1 - i) else s ! i)"
    by blast
  show ?case
  proof (cases "length xs < l")
    case False
    then have "fold (put_back l need) (xs @ [x]) (0, s) = (l, s')" "min (length (xs @ [x])) l = l"
      using s'(1) by (simp_all add: put_back_def)
    moreover have "(xs @ [x]) ! (need - 1 - i) = xs ! (need - 1 - i)" if "need - 1 - i < l" for i
      using that False by (simp add: nth_append)
    ultimately show ?thesis using s'(2,3) False by (auto simp: min_def)
  next
    case True
    define p where "p = need - 1 - length xs"
    have p: "p < need" "need - 1 - p = length xs" using True assms by (auto simp: p_def)
    have "fold (put_back l need) (xs @ [x]) (0, s) = (Suc (length xs), s'[p := x])"
      using s'(1) True by (simp add: put_back_def p_def)
    moreover have "s'[p := x] ! i = (if i < need \<and> need - 1 - i < min (length (xs @ [x])) l
        then (xs @ [x]) ! (need - 1 - i) else s ! i)" if i: "i < length s" for i
    proof (cases "i = p")
      case True
      then show ?thesis using p \<open>length xs < l\<close> s'(2) i by simp
    next
      case False
      then have "i < need \<Longrightarrow> need - 1 - i \<noteq> length xs" using p by arith
      then show ?thesis using False s'(2,3) i True by (auto simp: nth_append)
    qed
    ultimately show ?thesis using s'(2) True by (auto simp: min_def)
  qed
qed simp

lemma bit_word_byte: "bit (word_byte d i j) c \<longleftrightarrow> c < 8 \<and> bit (d ! i) (8 * j + c)"
  by (auto simp: word_byte_def bit_simps byte_simps ac_simps)

lemma byte_index:
  assumes "c < 8"
  shows "(8 * k + c) div 32 = k div (4 :: nat)" "(8 * k + c) mod 32 = 8 * (k mod 4) + c"
proof -
  have eq: "8 * k + c = k div 4 * 32 + (8 * (k mod 4) + c)"
    using div_mult_mod_eq [of k 4] by linarith
  have lt: "8 * (k mod 4) + c < 32"
    using assms mod_less_divisor [of 4 k] by linarith
  show "(8 * k + c) div 32 = k div 4" unfolding eq using lt by simp
  show "(8 * k + c) mod 32 = 8 * (k mod 4) + c" unfolding eq using lt by simp
qed

lemma to_string_bits:
  assumes "need \<le> length s" "need \<le> 4 * t" "t \<le> length d"
  shows "\<exists>s'. fold (\<lambda>i. fold (to_string_step d need need i) [0..<BITMAP_BYTES]) [0..<t] (0, s) = (need, s') \<and>
    length s' = length s \<and> drop need s' = drop need s \<and>
    (\<forall>k < need. \<forall>c < 8. bit (s' ! (need - 1 - k)) c \<longleftrightarrow> words_bit d (8 * k + c))"
proof -
  obtain s' where s': "fold (put_back need need) (bytes_le d t) (0, s) = (min (4 * t) need, s')" "length s' = length s"
      "\<forall>i < length s. s' ! i = (if i < need \<and> need - 1 - i < min (4 * t) need then bytes_le d t ! (need - 1 - i) else s ! i)"
    using put_back_fold [of need need s "bytes_le d t"] assms(1) by (auto simp: length_bytes_le)
  have "bit (s' ! (need - 1 - k)) c \<longleftrightarrow> words_bit d (8 * k + c)" if kc: "k < need" "c < 8" for k c
  proof -
    have "s' ! (need - 1 - k) = bytes_le d t ! k" using s'(3) kc(1) assms by auto
    also have "\<dots> = word_byte d (k div 4) (k mod 4)" using kc(1) assms(2) by (intro nth_bytes_le) simp
    moreover have "k div 4 < length d" using kc assms by simp
    ultimately show ?thesis using kc(2) by (simp add: bit_word_byte words_bit_def byte_index)
  qed
  moreover have "drop need s' = drop need s"
    using s'(2,3) by (intro nth_equalityI) auto
  ultimately show ?thesis unfolding to_string_loops using s'(1,2) assms(2) by (auto simp: min_def)
qed

lemma length_from_string_loop [simp]: "length (from_string_loop xs off sh d) = length d"
  by (induction xs off sh d rule: from_string_loop.induct) (auto simp: Let_def)

lemma from_string_loop_bits:
  assumes "xs \<noteq> [] \<Longrightarrow> off = (length xs - 1) div 4 \<and> sh = 8 * ((length xs - 1) mod 4)"
    and "length xs \<le> 4 * length d" "length xs \<le> SIZE_MAX"
  shows "words_bit (from_string_loop xs off sh d) n \<longleftrightarrow>
    words_bit d n \<or> n div 8 < length xs \<and> bit (xs ! (length xs - 1 - n div 8)) (n mod 8)"
  using assms
proof (induction xs arbitrary: off sh d)
  case (Cons x xs)
  define p where "p = length xs"
  have off: "off = p div 4" and sh: "sh = 8 * (p mod 4)" and lt: "p div 4 < length d"
    using Cons.prems by (auto simp: p_def)
  define d' where "d' = d[off := d ! off OR push_bit sh (ucast x)]"
  define off' where "off' = (if sh = 0 then size_sub off 1 else off)"
  define sh' where "sh' = (if sh = 0 then BITMAP_BITS - 8 else sh - 8)"
  have rec: "from_string_loop (x # xs) off sh d = from_string_loop xs off' sh' d'"
    by (simp add: d'_def off'_def sh'_def Let_def)
  have nxt: "off' = (p - 1) div 4 \<and> sh' = 8 * ((p - 1) mod 4)" if "xs \<noteq> []"
  proof (cases "p mod 4 = 0")
    case True
    have "0 < p" using that by (simp add: p_def)
    with True obtain q where q: "p = 4 * Suc q"
      by (metis mod_0_imp_dvd dvd_def mult_0_right not_gr_zero not0_implies_Suc)
    have "p - 1 = q * 4 + 3" using q by simp
    then have "(p - 1) div 4 = q" "(p - 1) mod 4 = 3" by simp_all
    with q have "1 \<le> p div 4" "(p - 1) div 4 = p div 4 - 1" "(p - 1) mod 4 = 3" by simp_all
    moreover have "p div 4 \<le> SIZE_MAX" using Cons.prems(3) by (simp add: p_def)
    ultimately show ?thesis using True by (simp add: off'_def sh'_def off sh size_sub_exact)
  next
    case False
    have "p - 1 = p div 4 * 4 + (p mod 4 - 1)" using False div_mult_mod_eq [of p 4] by linarith
    moreover have "p mod 4 - 1 < 4" using mod_less_divisor [of 4 p] by linarith
    ultimately have "(p - 1) div 4 = p div 4" "(p - 1) mod 4 = p mod 4 - 1" by simp_all
    then show ?thesis using False by (simp add: off'_def sh'_def off sh diff_mult_distrib2)
  qed
  have len: "length d' = length d" by (simp add: d'_def)
  define k where "k = n div 8"
  have n: "n div 32 = k div 4" "n mod 32 = 8 * (k mod 4) + n mod 8"
    using byte_index [of "n mod 8" k] by (simp_all add: k_def)
  have upd: "words_bit d' n \<longleftrightarrow> words_bit d n \<or> k = p \<and> bit x (n mod 8)"
  proof (cases "k div 4 = p div 4")
    case False
    then show ?thesis by (auto simp: d'_def words_bit_def n off)
  next
    case True
    have pb: "bit (push_bit sh (ucast x :: 32 word)) m \<longleftrightarrow> sh \<le> m \<and> m < 32 \<and> bit x (m - sh)" for m
      by (simp only: bit_push_bit_iff bit_ucast_iff possible_bit_word) auto
    have le: "bit x m \<Longrightarrow> m < 8" for m using bit_imp_le_length [of x m] by simp
    have kp: "k = p \<longleftrightarrow> k mod 4 = p mod 4" using True by (metis div_mult_mod_eq)
    have "bit (push_bit sh (ucast x :: 32 word)) (n mod 32) \<longleftrightarrow> k = p \<and> bit x (n mod 8)"
    proof
      assume "bit (push_bit sh (ucast x :: 32 word)) (n mod 32)"
      then have b: "sh \<le> n mod 32" "bit x (n mod 32 - sh)" by (simp_all only: pb)
      then have "n mod 32 - sh < 8" using le by blast
      moreover have "n mod 8 < 8" by simp
      ultimately have "k mod 4 = p mod 4" using b(1) unfolding n sh by linarith
      then show "k = p \<and> bit x (n mod 8)" using b kp unfolding n sh by simp
    next
      assume "k = p \<and> bit x (n mod 8)"
      then show "bit (push_bit sh (ucast x :: 32 word)) (n mod 32)"
        using mod_less_divisor [of 4 p] le [of "n mod 8"] unfolding pb by (simp add: n sh)
    qed
    moreover have "words_bit d' n \<longleftrightarrow> bit (d ! off OR push_bit sh (ucast x)) (n mod 32)"
      using True lt by (simp add: d'_def words_bit_def n off)
    ultimately show ?thesis
      using True lt by (simp add: words_bit_def n(1) off bit_or_iff)
  qed
  have "words_bit (from_string_loop xs off' sh' d') n \<longleftrightarrow>
      words_bit d' n \<or> k < length xs \<and> bit (xs ! (length xs - 1 - k)) (n mod 8)"
    using nxt Cons.prems unfolding k_def by (intro Cons.IH) (auto simp: len p_def)
  moreover have "k < length (x # xs) \<and> bit ((x # xs) ! (length (x # xs) - 1 - k)) (n mod 8) \<longleftrightarrow>
      k = p \<and> bit x (n mod 8) \<or> k < length xs \<and> bit (xs ! (length xs - 1 - k)) (n mod 8)"
    by (auto simp: p_def nth_Cons' less_Suc_eq)
  ultimately show ?case unfolding rec upd k_def by blast
qed simp


lemma bitmap_from_string_set:
  assumes "bitmap_wf b" "bitmap_from_string ra b s = Some b'"
  shows "bitmap_wf b' \<and>
    bitmap_bits b' = {n. n div 8 < length s \<and> bit (s ! (length s - 1 - n div 8)) (n mod 8)}"
proof -
  obtain b1 where b1: "bitmap_reserve ra b (length s * 8) = Some b1" and l: "length s \<le> BITMAP_MAX div 8"
    using assms(2) by (auto simp: bitmap_from_string_def Let_def split: if_splits option.splits)
  define b2 where "b2 = bitmap_zero b1"
  have wf1: "bitmap_wf b1" and lt: "length s * 8 div 32 < bm_len b1"
    using bitmap_reserve_set(2) [OF assms(1) b1] by auto
  have wf2: "bitmap_wf b2" and bits2: "bitmap_bits b2 = {}" using bitmap_zero_set [OF wf1] by (auto simp: b2_def)
  have len: "bm_len b2 = bm_len b1" "length (bm_d b2) = bm_len b1"
    using wf1 by (auto simp: b2_def bitmap_zero_def bitmap_wf_def)
  show ?thesis
  proof (cases "s = []")
    case True
    then have "b' = b2" using assms(2) b1 l by (simp add: bitmap_from_string_def b2_def)
    with True wf2 bits2 show ?thesis by simp
  next
    case False
    define off where "off = (length s - 1) div 4"
    define sh where "sh = 8 * ((length s - 1) mod 4)"
    define b3 where "b3 = b2\<lparr>bm_top := off, bm_d := from_string_loop s off sh (bm_d b2)\<rparr>"
    obtain m where m: "length s = Suc m" using False by (cases s) auto
    have "(length s + 3) div 4 - 1 = off" "(length s + 3) mod 4 * 8 = sh"
      by (simp_all add: off_def sh_def m)
    then have b': "b' = retop b3"
      using assms(2) b1 l False
      by (simp add: bitmap_from_string_def b2_def [symmetric] BITMAP_BYTES_def b3_def Let_def)
    have size: "length s \<le> 4 * length (bm_d b2)" "off < bm_len b1"
      using lt unfolding len off_def by linarith+
    have small: "length s \<le> SIZE_MAX" using l by (simp add: BITMAP_MAX_def SIZE_MAX_def)
    have bits3: "bitmap_bits b3 = {n. n div 8 < length s \<and> bit (s ! (length s - 1 - n div 8)) (n mod 8)}"
      using from_string_loop_bits [of s off sh "bm_d b2"] size small bits2
      by (auto simp: bitmap_bits_def b3_def off_def sh_def)
    have top: "bm_d b3 ! i = 0" if i: "off < i" "i < bm_len b3" for i
    proof (rule bit_word_eqI)
      fix k assume "k < LENGTH(32)"
      then have k: "k < 32" by simp
      have "i * 32 + k \<notin> bitmap_bits b3"
        unfolding bits3 using i(1) m by (auto simp: off_def)
      then show "bit (bm_d b3 ! i) k \<longleftrightarrow> bit (0 :: 32 word) k"
        using i(2) k len by (simp add: bitmap_bits_def words_bit_def b3_def)
    qed
    have "bitmap_bits b3 \<subseteq> {..BITMAP_MAX}"
      unfolding bits3 using l by (auto simp: BITMAP_MAX_def)
    then have "bitmap_wf b3"
      using top size len by (simp add: bitmap_wf_def b3_def)
    with b' retop_set bits3 show ?thesis by auto
  qed
qed

lemma bitmap_to_string_set:
  assumes "bitmap_wf b" "bitmap_nbytes b = Some (need, b1)" "need \<le> length s"
  shows "\<exists>s' b'. bitmap_to_string b s = Some (Some s', b') \<and> length s' = length s \<and>
    drop need s' = drop need s \<and> (\<forall>n \<in> bitmap_bits b. n div 8 < need) \<and>
    (\<forall>k < need. \<forall>c < 8. bit (s' ! (need - 1 - k)) c \<longleftrightarrow> 8 * k + c \<in> bitmap_bits b)"
proof -
  obtain b' where b': "bitmap_nbits b = Some (if bitmap_bits b = {} then 0 else Max (bitmap_bits b) + 1, b')"
      "bitmap_wf b'" "bm_d b' = bm_d b" "bitmap_bits b' = bitmap_bits b"
    using bitmap_nbits_set [OF assms(1)] by blast
  have need: "need = ((if bitmap_bits b = {} then 0 else Max (bitmap_bits b) + 1) + 7) div 8" and b1: "b1 = b'"
    using assms(2) b'(1) by (auto simp: bitmap_nbytes_def)
  have fin: "finite (bitmap_bits b)" using assms(1) by (auto simp: bitmap_wf_def intro: finite_subset)
  have lt: "n div 8 < need" if "n \<in> bitmap_bits b" for n
  proof -
    have "n \<le> Max (bitmap_bits b)" "bitmap_bits b \<noteq> {}" using fin that by auto
    then show ?thesis unfolding need by simp
  qed
  have le: "need \<le> 4 * (bm_top b' + 1)"
  proof (cases "bitmap_bits b = {}")
    case False
    then have "Max (bitmap_bits b) \<in> bitmap_bits b'" using fin b'(4) by simp
    then have "Max (bitmap_bits b) div 32 \<le> bm_top b'"
      using b'(2) by (auto simp: bitmap_bits_def words_bit_def bitmap_wf_def not_le [symmetric])
    then show ?thesis using False unfolding need by simp
  qed (simp add: need)
  have top: "bm_top b' + 1 \<le> length (bm_d b')" "bm_top b' < bm_len b'"
    using b'(2) by (auto simp: bitmap_wf_def)
  from to_string_bits [OF assms(3) le top(1)] obtain s' where
      "fold (\<lambda>i. fold (to_string_step (bm_d b') need need i) [0..<BITMAP_BYTES]) [0..<bm_top b' + 1] (0, s) = (need, s')"
      "length s' = length s" "drop need s' = drop need s"
      "\<forall>k < need. \<forall>c < 8. bit (s' ! (need - 1 - k)) c \<longleftrightarrow> words_bit (bm_d b') (8 * k + c)"
    by blast
  moreover have "(if length s > need then need else length s) = need" using assms(3) by simp
  ultimately show ?thesis
    using assms(2,3) b1 lt top(2) b'(3)
    by (simp add: bitmap_to_string_def Let_def bitmap_bits_def del: upt_Suc)
qed

lemma bitmap_from_string_total:
  assumes "bitmap_wf c" "length s \<le> BITMAP_MAX div 8"
  shows "bitmap_from_string True c s \<noteq> None"
proof -
  have "bitmap_reserve True c (length s * 8) \<noteq> None"
    using bitmap_reserve_set(1) [OF assms(1), of True "length s * 8"] assms(2) by (simp add: BITMAP_MAX_def)
  then show ?thesis using assms(2) by (auto simp: bitmap_from_string_def Let_def)
qed

section \<open>Properties\<close>

text \<open>
  (C23) Whatever bits are set, cleared and zeroed in a new bit vector, with memory available,
  \<^verbatim>\<open>bitmap_test_bit\<close> then answers as a set of the numbers up to \<^verbatim>\<open>BITMAP_MAX\<close> would; setting a
  larger bit fails and changes nothing.
\<close>

theorem bitmap_run_set:
  "bitmap_test_bit (op_run (bitmap_set_bit True) bitmap_clear_bit bitmap_zero
       \<lparr>bm_d = [0], bm_len = 1, bm_top = 0\<rparr> ops) n \<longleftrightarrow>
     n \<in> set_run BITMAP_MAX {} ops"
proof -
  have "bitmap_wf \<lparr>bm_d = [0], bm_len = 1, bm_top = 0\<rparr> \<and> bitmap_bits \<lparr>bm_d = [0], bm_len = 1, bm_top = 0\<rparr> = {}"
    by (rule bitmap_new_set) (simp add: bitmap_new_def)
  then show ?thesis using bm.run_mem by auto
qed

text \<open>
  (C36) \<^verbatim>\<open>bitmap_nbits\<close> always ends, its search for the top bit included, and returns one more
  than the greatest element of the set (0 for the empty set) without changing the set.
\<close>

theorem bitmap_nbits_max:
  assumes "bitmap_wf b"
  shows "\<exists>b'. bitmap_nbits b = Some (if bitmap_bits b = {} then 0 else Max (bitmap_bits b) + 1, b') \<and>
    bitmap_wf b' \<and> bitmap_bits b' = bitmap_bits b"
  using bitmap_nbits_set [OF assms] by blast

theorem bitmap_nbits_max_witness:
  "\<exists>b b'. bitmap_set_bit True \<lparr>bm_d = [0], bm_len = 1, bm_top = 0\<rparr> 70 = Some b \<and>
     bitmap_nbits b = Some (71, b')"
proof -
  let ?b = "\<lparr>bm_d = [0, 0, 64], bm_len = 3, bm_top = 2\<rparr>"
  have b: "bitmap_set_bit True \<lparr>bm_d = [0], bm_len = 1, bm_top = 0\<rparr> 70 = Some ?b"
    by (simp add: bitmap_set_bit_def bitmap_reserve_def BITMAP_MAX_def Let_def numeral_2_eq_2)
  have "bitmap_wf \<lparr>bm_d = [0], bm_len = 1, bm_top = 0\<rparr> \<and> bitmap_bits \<lparr>bm_d = [0], bm_len = 1, bm_top = 0\<rparr> = {}"
    by (rule bitmap_new_set) (simp add: bitmap_new_def)
  then have "bitmap_wf ?b" "bitmap_bits ?b = {70}" using bitmap_set_bit_set [OF _ b] by auto
  with bitmap_nbits_max [of ?b] b show ?thesis by auto
qed



end
