(* ===== verification/Channel.thy ===== *)
theory Channel
  imports Prelude
begin

unbundle bit_operations_syntax

text \<open>
  A channel of the connection protocol, from \<^verbatim>\<open>channels.h\<close>, and its close protocol, from
  \<^verbatim>\<open>nchan.c\<close>: the events update the states of the two halves of the channel and send
  \<^verbatim>\<open>EOF\<close>, \<^verbatim>\<open>CLOSE\<close> and \<^verbatim>\<open>eow\<close> messages.

  The record has the fields of \<^verbatim>\<open>struct Channel\<close> that the modelled code reads or writes.  The
  buffers \<^verbatim>\<open>input\<close>, \<^verbatim>\<open>output\<close> and \<^verbatim>\<open>extended\<close> are the byte sequences they hold (the
  buffer component is shown to be such a queue).  A handler yields the channel as it leaves it
  together with the messages it has sent, or the way the program ends: \<open>Fatal\<close> for \<^verbatim>\<open>fatal\<close> and
  \<open>Disconnect\<close> for \<^verbatim>\<open>ssh_packet_disconnect\<close>.  Whether the packet layer accepts a message is the
  argument \<open>pkt\<close>.
\<close>

section \<open>Channels\<close>

definition SSH_CHANNEL_OPENING :: nat where [simp]: "SSH_CHANNEL_OPENING = 3"
definition SSH_CHANNEL_OPEN :: nat where [simp]: "SSH_CHANNEL_OPEN = 4"
definition SSH_CHANNEL_X11_OPEN :: nat where [simp]: "SSH_CHANNEL_X11_OPEN = 7"
definition SSH_CHANNEL_LARVAL :: nat where [simp]: "SSH_CHANNEL_LARVAL = 10"
definition SSH_CHANNEL_CONNECTING :: nat where [simp]: "SSH_CHANNEL_CONNECTING = 12"
definition SSH_CHANNEL_DYNAMIC :: nat where [simp]: "SSH_CHANNEL_DYNAMIC = 13"
definition SSH_CHANNEL_ZOMBIE :: nat where [simp]: "SSH_CHANNEL_ZOMBIE = 14"
definition SSH_CHANNEL_ABANDONED :: nat where [simp]: "SSH_CHANNEL_ABANDONED = 17"
definition SSH_CHANNEL_MUX_PROXY :: nat where [simp]: "SSH_CHANNEL_MUX_PROXY = 20"
definition SSH_CHANNEL_RDYNAMIC_OPEN :: nat where [simp]: "SSH_CHANNEL_RDYNAMIC_OPEN = 21"
definition SSH_CHANNEL_RDYNAMIC_FINISH :: nat where [simp]: "SSH_CHANNEL_RDYNAMIC_FINISH = 22"

definition CHAN_INPUT_OPEN :: nat where [simp]: "CHAN_INPUT_OPEN = 0"
definition CHAN_INPUT_WAIT_DRAIN :: nat where [simp]: "CHAN_INPUT_WAIT_DRAIN = 1"
definition CHAN_INPUT_WAIT_OCLOSE :: nat where [simp]: "CHAN_INPUT_WAIT_OCLOSE = 2"
definition CHAN_INPUT_CLOSED :: nat where [simp]: "CHAN_INPUT_CLOSED = 3"
definition CHAN_OUTPUT_OPEN :: nat where [simp]: "CHAN_OUTPUT_OPEN = 0"
definition CHAN_OUTPUT_WAIT_DRAIN :: nat where [simp]: "CHAN_OUTPUT_WAIT_DRAIN = 1"
definition CHAN_OUTPUT_WAIT_IEOF :: nat where [simp]: "CHAN_OUTPUT_WAIT_IEOF = 2"
definition CHAN_OUTPUT_CLOSED :: nat where [simp]: "CHAN_OUTPUT_CLOSED = 3"

definition CHAN_CLOSE_SENT :: "32 word" where [simp]: "CHAN_CLOSE_SENT = 0x01"
definition CHAN_CLOSE_RCVD :: "32 word" where [simp]: "CHAN_CLOSE_RCVD = 0x02"
definition CHAN_EOF_SENT :: "32 word" where [simp]: "CHAN_EOF_SENT = 0x04"
definition CHAN_EOF_RCVD :: "32 word" where [simp]: "CHAN_EOF_RCVD = 0x08"
definition CHAN_LOCAL :: "32 word" where [simp]: "CHAN_LOCAL = 0x10"

definition CHAN_EXTENDED_IGNORE :: int where [simp]: "CHAN_EXTENDED_IGNORE = 0"
definition CHAN_EXTENDED_READ :: int where [simp]: "CHAN_EXTENDED_READ = 1"
definition CHAN_EXTENDED_WRITE :: int where [simp]: "CHAN_EXTENDED_WRITE = 2"

definition SSH_CHAN_IO_RFD :: "32 word" where [simp]: "SSH_CHAN_IO_RFD = 0x01"
definition SSH_CHAN_IO_WFD :: "32 word" where [simp]: "SSH_CHAN_IO_WFD = 0x02"
definition SSH_CHAN_IO_EFD_R :: "32 word" where [simp]: "SSH_CHAN_IO_EFD_R = 0x04"
definition SSH_CHAN_IO_EFD_W :: "32 word" where [simp]: "SSH_CHAN_IO_EFD_W = 0x08"
definition SSH_CHAN_IO_EFD :: "32 word" where [simp]: "SSH_CHAN_IO_EFD = SSH_CHAN_IO_EFD_R OR SSH_CHAN_IO_EFD_W"
definition SSH_CHAN_IO_SOCK_R :: "32 word" where [simp]: "SSH_CHAN_IO_SOCK_R = 0x10"
definition SSH_CHAN_IO_SOCK_W :: "32 word" where [simp]: "SSH_CHAN_IO_SOCK_W = 0x20"
definition SSH_CHAN_IO_SOCK :: "32 word" where [simp]: "SSH_CHAN_IO_SOCK = SSH_CHAN_IO_SOCK_R OR SSH_CHAN_IO_SOCK_W"

definition SSH_BUG_EXTEOF :: "32 word" where "SSH_BUG_EXTEOF = 0x00200000"
definition SSH_NEW_OPENSSH :: "32 word" where "SSH_NEW_OPENSSH = 0x04000000"

record channel =
  c_type :: nat
  c_self :: int
  c_remote_id :: "32 word"
  c_have_remote_id :: bool
  c_istate :: nat
  c_ostate :: nat
  c_flags :: "32 word"
  c_rfd :: int
  c_wfd :: int
  c_efd :: int
  c_sock :: int
  c_io_want :: "32 word"
  c_io_ready :: "32 word"
  c_pfds :: "int list"
  c_isatty :: bool
  c_detach_close :: bool
  c_force_drain :: bool
  c_input :: "byte list"
  c_output :: "byte list"
  c_extended :: "byte list"
  c_remote_window :: "32 word"
  c_remote_maxpacket :: "32 word"
  c_local_window :: "32 word"
  c_local_window_exceeded :: "32 word"
  c_local_window_max :: "32 word"
  c_local_consumed :: "32 word"
  c_local_maxpacket :: "32 word"
  c_extended_usage :: int
  c_ctype :: string
  c_datagram :: bool

abbreviation has_flag :: "channel \<Rightarrow> 32 word \<Rightarrow> bool" where
  "has_flag c f \<equiv> c_flags c AND f \<noteq> 0"

text \<open>The messages of a channel, each with the recipient's channel number.\<close>

datatype chan_msg =
    Msg_data "32 word" "byte list"
  | Msg_extended_data "32 word" "byte list"
  | Msg_eof "32 word"
  | Msg_close "32 word"
  | Msg_eow "32 word"
  | Msg_window_adjust "32 word" "32 word"
  | Msg_ignore nat

datatype stop = Fatal | Disconnect

type_synonym chan_result = "stop + channel \<times> chan_msg list"

abbreviation quiet :: "channel \<Rightarrow> chan_result" where
  "quiet c \<equiv> Inr (c, [])"

definition chan_seq :: "chan_result \<Rightarrow> (channel \<Rightarrow> chan_result) \<Rightarrow> chan_result" where
  "chan_seq r f =
     (case r of
        Inl e \<Rightarrow> Inl e
      | Inr (c, ms) \<Rightarrow> (case f c of Inl e \<Rightarrow> Inl e | Inr (c', ms') \<Rightarrow> Inr (c', ms @ ms')))"

section \<open>File descriptors\<close>

text \<open>The field of the channel a pointer to a descriptor refers to.\<close>

datatype fd_slot = Rfd | Wfd | Efd | Sock

fun slot_fd :: "fd_slot \<Rightarrow> channel \<Rightarrow> int" where
  "slot_fd Rfd c = c_rfd c"
| "slot_fd Wfd c = c_wfd c"
| "slot_fd Efd c = c_efd c"
| "slot_fd Sock c = c_sock c"

fun set_slot :: "fd_slot \<Rightarrow> int \<Rightarrow> channel \<Rightarrow> channel" where
  "set_slot Rfd x c = c\<lparr>c_rfd := x\<rparr>"
| "set_slot Wfd x c = c\<lparr>c_wfd := x\<rparr>"
| "set_slot Efd x c = c\<lparr>c_efd := x\<rparr>"
| "set_slot Sock x c = c\<lparr>c_sock := x\<rparr>"

definition clear_io :: "32 word \<Rightarrow> nat \<Rightarrow> channel \<Rightarrow> channel" where
  "clear_io io i c =
     c\<lparr>c_io_want := c_io_want c AND NOT io, c_io_ready := c_io_ready c AND NOT io, c_pfds := (c_pfds c)[i := -1]\<rparr>"

text \<open>
  \<^verbatim>\<open>channel_close_fd\<close> compares the descriptor behind its pointer with each field in turn, after
  the fields before it have been written; the second component is the descriptor given to
  \<^verbatim>\<open>close\<close>.
\<close>

definition channel_close_fd :: "fd_slot \<Rightarrow> channel \<Rightarrow> channel \<times> int list" where
  "channel_close_fd fdp c =
     (let fd = slot_fd fdp c in
      if fd = -1 then (c, [])
      else let c1 = (if slot_fd fdp c = c_rfd c then (clear_io SSH_CHAN_IO_RFD 0 c)\<lparr>c_rfd := -1\<rparr> else c);
               c2 = (if slot_fd fdp c1 = c_wfd c1 then (clear_io SSH_CHAN_IO_WFD 1 c1)\<lparr>c_wfd := -1\<rparr> else c1);
               c3 = (if slot_fd fdp c2 = c_efd c2 then (clear_io SSH_CHAN_IO_EFD 2 c2)\<lparr>c_efd := -1\<rparr> else c2);
               c4 = (if slot_fd fdp c3 = c_sock c3 then (clear_io SSH_CHAN_IO_SOCK 3 c3)\<lparr>c_sock := -1\<rparr> else c3)
           in (set_slot fdp (-1) c4, [fd]))"

definition channel_close_fds :: "channel \<Rightarrow> channel \<times> int list" where
  "channel_close_fds c =
     (let sock = c_sock c; rfd = c_rfd c; wfd = c_wfd c; efd = c_efd c;
          (c1, l1) = channel_close_fd Sock c;
          (c2, l2) = (if rfd \<noteq> sock then channel_close_fd Rfd c1 else (c1, []));
          (c3, l3) = (if wfd \<noteq> sock \<and> wfd \<noteq> rfd then channel_close_fd Wfd c2 else (c2, []));
          (c4, l4) = (if efd \<noteq> sock \<and> efd \<noteq> rfd \<and> efd \<noteq> wfd then channel_close_fd Efd c3 else (c3, []))
      in (c4, l1 @ l2 @ l3 @ l4))"

end
