(* ===== verification/Nchan.thy ===== *)
theory Nchan
  imports Channel
begin

unbundle bit_operations_syntax

text \<open>
  The close protocol of channels, from \<^verbatim>\<open>nchan.c\<close>.  Its specification is a monitor of the
  messages one side may send on a channel: data until \<^verbatim>\<open>EOF\<close>, which is sent at most once, and
  nothing after \<^verbatim>\<open>CLOSE\<close>.
\<close>

section \<open>The functions\<close>

definition chan_set_istate :: "channel \<Rightarrow> nat \<Rightarrow> chan_result" where
  "chan_set_istate c nxt =
     (if c_istate c > CHAN_INPUT_CLOSED \<or> nxt > CHAN_INPUT_CLOSED then Inl Fatal
      else quiet (c\<lparr>c_istate := nxt\<rparr>))"

definition chan_set_ostate :: "channel \<Rightarrow> nat \<Rightarrow> chan_result" where
  "chan_set_ostate c nxt =
     (if c_ostate c > CHAN_OUTPUT_CLOSED \<or> nxt > CHAN_OUTPUT_CLOSED then Inl Fatal
      else quiet (c\<lparr>c_ostate := nxt\<rparr>))"

text \<open>\<^verbatim>\<open>shutdown\<close> on a socket has no effect on the channel.\<close>

definition chan_shutdown_write :: "channel \<Rightarrow> channel" where
  "chan_shutdown_write c0 =
     (let c = c0\<lparr>c_output := []\<rparr> in
      if c_type c = SSH_CHANNEL_LARVAL then c
      else if c_sock c \<noteq> -1 then c
      else fst (channel_close_fd Wfd c))"

definition chan_shutdown_read :: "channel \<Rightarrow> channel" where
  "chan_shutdown_read c =
     (if c_type c = SSH_CHANNEL_LARVAL then c
      else if c_sock c \<noteq> -1 then c
      else fst (channel_close_fd Rfd c))"

definition chan_shutdown_extended_read :: "channel \<Rightarrow> channel" where
  "chan_shutdown_extended_read c =
     (if c_type c = SSH_CHANNEL_LARVAL \<or> c_efd c = -1 then c
      else if c_extended_usage c \<noteq> CHAN_EXTENDED_READ \<and> c_extended_usage c \<noteq> CHAN_EXTENDED_IGNORE then c
      else fst (channel_close_fd Efd c))"

definition chan_send_eof2 :: "bool \<Rightarrow> channel \<Rightarrow> chan_result" where
  "chan_send_eof2 pkt c =
     (if c_istate c = CHAN_INPUT_WAIT_DRAIN
      then if \<not> c_have_remote_id c then Inl Fatal
           else if \<not> pkt then Inl Fatal
           else Inr (c\<lparr>c_flags := c_flags c OR CHAN_EOF_SENT\<rparr>, [Msg_eof (c_remote_id c)])
      else quiet c)"

definition chan_send_close2 :: "bool \<Rightarrow> channel \<Rightarrow> chan_result" where
  "chan_send_close2 pkt c =
     (if c_ostate c \<noteq> CHAN_OUTPUT_CLOSED \<or> c_istate c \<noteq> CHAN_INPUT_CLOSED then quiet c
      else if has_flag c CHAN_CLOSE_SENT then quiet c
      else if \<not> c_have_remote_id c then Inl Fatal
      else if \<not> pkt then Inl Fatal
      else Inr (c\<lparr>c_flags := c_flags c OR CHAN_CLOSE_SENT\<rparr>, [Msg_close (c_remote_id c)]))"

definition chan_send_eow2 :: "bool \<Rightarrow> 32 word \<Rightarrow> channel \<Rightarrow> chan_result" where
  "chan_send_eow2 pkt cmpt c =
     (if c_ostate c = CHAN_OUTPUT_CLOSED then quiet c
      else if cmpt AND SSH_NEW_OPENSSH = 0 then quiet c
      else if \<not> c_have_remote_id c then Inl Fatal
      else if \<not> pkt then Inl Fatal
      else Inr (c, [Msg_eow (c_remote_id c)]))"

definition chan_read_failed :: "channel \<Rightarrow> chan_result" where
  "chan_read_failed c =
     (if c_istate c = CHAN_INPUT_OPEN
      then chan_set_istate (chan_shutdown_read c) CHAN_INPUT_WAIT_DRAIN
      else quiet c)"

definition chan_ibuf_empty :: "bool \<Rightarrow> channel \<Rightarrow> chan_result" where
  "chan_ibuf_empty pkt c =
     (if length (c_input c) \<noteq> 0 then quiet c
      else if c_istate c = CHAN_INPUT_WAIT_DRAIN
      then chan_seq
             (if \<not> has_flag c (CHAN_CLOSE_SENT OR CHAN_LOCAL) then chan_send_eof2 pkt c else quiet c)
             (\<lambda>c. chan_set_istate c CHAN_INPUT_CLOSED)
      else quiet c)"

definition chan_obuf_empty :: "channel \<Rightarrow> chan_result" where
  "chan_obuf_empty c =
     (if length (c_output c) \<noteq> 0 then quiet c
      else if c_ostate c = CHAN_OUTPUT_WAIT_DRAIN
      then chan_set_ostate (chan_shutdown_write c) CHAN_OUTPUT_CLOSED
      else quiet c)"

definition chan_rcvd_eow :: "channel \<Rightarrow> chan_result" where
  "chan_rcvd_eow c =
     (if c_istate c = CHAN_INPUT_OPEN
      then chan_set_istate (chan_shutdown_read c) CHAN_INPUT_CLOSED
      else quiet c)"

definition CHANNEL_EFD_INPUT_ACTIVE :: "channel \<Rightarrow> bool" where
  "CHANNEL_EFD_INPUT_ACTIVE c \<longleftrightarrow>
     c_extended_usage c = CHAN_EXTENDED_READ \<and> (c_efd c \<noteq> -1 \<or> length (c_extended c) > 0)"

definition CHANNEL_EFD_OUTPUT_ACTIVE :: "channel \<Rightarrow> bool" where
  "CHANNEL_EFD_OUTPUT_ACTIVE c \<longleftrightarrow>
     c_extended_usage c = CHAN_EXTENDED_WRITE \<and> c_efd c \<noteq> -1 \<and>
     (\<not> has_flag c (CHAN_EOF_RCVD OR CHAN_CLOSE_RCVD) \<or> length (c_extended c) > 0)"

definition chan_rcvd_ieof :: "channel \<Rightarrow> chan_result" where
  "chan_rcvd_ieof c0 =
     chan_seq
       (let c = c0\<lparr>c_flags := c_flags c0 OR CHAN_EOF_RCVD\<rparr> in
        if c_ostate c = CHAN_OUTPUT_OPEN then chan_set_ostate c CHAN_OUTPUT_WAIT_DRAIN else quiet c)
       (\<lambda>c. if c_ostate c = CHAN_OUTPUT_WAIT_DRAIN \<and> length (c_output c) = 0 \<and> \<not> CHANNEL_EFD_OUTPUT_ACTIVE c
             then chan_obuf_empty c else quiet c)"

definition chan_rcvd_oclose :: "bool \<Rightarrow> channel \<Rightarrow> chan_result" where
  "chan_rcvd_oclose pkt c0 =
     (let c = (if \<not> has_flag c0 CHAN_LOCAL then c0\<lparr>c_flags := c_flags c0 OR CHAN_CLOSE_RCVD\<rparr> else c0) in
      if c_type c = SSH_CHANNEL_LARVAL
      then chan_seq (chan_set_ostate c CHAN_OUTPUT_CLOSED) (\<lambda>c. chan_set_istate c CHAN_INPUT_CLOSED)
      else chan_seq
             (if c_ostate c = CHAN_OUTPUT_OPEN then chan_set_ostate c CHAN_OUTPUT_WAIT_DRAIN else quiet c)
             (\<lambda>c. if c_istate c = CHAN_INPUT_OPEN
                   then chan_set_istate (chan_shutdown_extended_read (chan_shutdown_read c)) CHAN_INPUT_CLOSED
                   else if c_istate c = CHAN_INPUT_WAIT_DRAIN
                   then chan_seq (if \<not> has_flag c CHAN_LOCAL then chan_send_eof2 pkt c else quiet c)
                          (\<lambda>c. chan_set_istate (chan_shutdown_extended_read c) CHAN_INPUT_CLOSED)
                   else quiet c))"

definition chan_write_failed :: "bool \<Rightarrow> 32 word \<Rightarrow> channel \<Rightarrow> chan_result" where
  "chan_write_failed pkt cmpt c =
     (if c_ostate c = CHAN_OUTPUT_OPEN \<or> c_ostate c = CHAN_OUTPUT_WAIT_DRAIN
      then chan_seq
             (let c1 = chan_shutdown_write c in
              if c_ctype c1 = ''session'' then chan_send_eow2 pkt cmpt c1 else quiet c1)
             (\<lambda>c. chan_set_ostate c CHAN_OUTPUT_CLOSED)
      else quiet c)"

definition chan_mark_dead :: "channel \<Rightarrow> channel" where
  "chan_mark_dead c = c\<lparr>c_type := SSH_CHANNEL_ZOMBIE\<rparr>"

text \<open>\<^verbatim>\<open>chan_is_dead\<close> also returns whether the channel is dead.\<close>

definition chan_is_dead :: "bool \<Rightarrow> 32 word \<Rightarrow> channel \<Rightarrow> bool \<Rightarrow> stop + bool \<times> channel \<times> chan_msg list" where
  "chan_is_dead pkt cmpt c do_send =
     (if c_type c = SSH_CHANNEL_ZOMBIE then Inr (True, c, [])
      else if c_istate c \<noteq> CHAN_INPUT_CLOSED \<or> c_ostate c \<noteq> CHAN_OUTPUT_CLOSED then Inr (False, c, [])
      else if cmpt AND SSH_BUG_EXTEOF \<noteq> 0 \<and> c_extended_usage c = CHAN_EXTENDED_WRITE \<and>
              c_efd c \<noteq> -1 \<and> length (c_extended c) > 0 then Inr (False, c, [])
      else if has_flag c CHAN_LOCAL then Inr (True, c, [])
      else if \<not> has_flag c CHAN_CLOSE_SENT \<and> \<not> do_send \<and> has_flag c CHAN_CLOSE_RCVD then Inr (True, c, [])
      else case (if \<not> has_flag c CHAN_CLOSE_SENT \<and> do_send then chan_send_close2 pkt c else quiet c) of
        Inl e \<Rightarrow> Inl e
      | Inr (c', ms) \<Rightarrow> Inr (has_flag c' CHAN_CLOSE_SENT \<and> has_flag c' CHAN_CLOSE_RCVD, c', ms))"

end
