(* ===== verification/Wire.thy ===== *)
theory Wire
  imports Sshbuf_GetPut
begin

text \<open>
  Buffers as the byte sequences they hold, for the components that use buffers as queues: the
  channels and the packet layer.  The lemmas relate these views to the buffer operations.
\<close>

text \<open>Appending to a buffer fails when its maximum size would be exceeded.\<close>

definition buf_put :: "nat \<Rightarrow> byte list \<Rightarrow> byte list \<Rightarrow> byte list option" where
  "buf_put maxlen buf v = (if length buf + length v > maxlen then None else Some (buf @ v))"

text \<open>\<^verbatim>\<open>sshbuf_get_string_direct\<close> on the bytes of a buffer: the string and the rest.\<close>

definition bytes_get_string :: "byte list \<Rightarrow> (byte list \<times> byte list) option" where
  "bytes_get_string b =
     (if length b < 4 then None
      else let len = unat (PEEK_U32 b) in
        if len > SSHBUF_SIZE_MAX - 4 then None
        else if length b - 4 < len then None
        else Some (take len (drop 4 b), drop (4 + len) b))"

text \<open>
  Fallible steps in sequence, and reading typed fields off the front of a byte sequence.  On a
  byte sequence the reads fail as they do on a buffer, with the allocations of strings succeeding.
\<close>

definition rbind :: "'x + 'a \<Rightarrow> ('a \<Rightarrow> 'x + 'b) \<Rightarrow> 'x + 'b" where
  "rbind r f = (case r of Inl e \<Rightarrow> Inl e | Inr a \<Rightarrow> f a)"

lemma rbind_simps [simp]: "rbind (Inl e) f = Inl e" "rbind (Inr a) f = f a"
  by (simp_all add: rbind_def)

lemma rbind_eq_Inr: "rbind r f = Inr b \<longleftrightarrow> (\<exists>a. r = Inr a \<and> f a = Inr b)"
  by (cases r) simp_all

type_synonym 'a reader = "byte list \<Rightarrow> ssh_err + 'a \<times> byte list"

definition bytes_get :: "nat \<Rightarrow> byte list reader" where
  "bytes_get n b = (if length b < n then Inl SSH_ERR_MESSAGE_INCOMPLETE else Inr (take n b, drop n b))"

definition bytes_get_u8 :: "byte reader" where
  "bytes_get_u8 b = rbind (bytes_get 1 b) (\<lambda>(v, b). Inr (v ! 0, b))"

definition bytes_get_u32 :: "32 word reader" where
  "bytes_get_u32 b = rbind (bytes_get 4 b) (\<lambda>(v, b). Inr (PEEK_U32 v, b))"

definition bytes_get_u64 :: "64 word reader" where
  "bytes_get_u64 b = rbind (bytes_get 8 b) (\<lambda>(v, b). Inr (PEEK_U64 v, b))"

definition bytes_get_str :: "byte list reader" where
  "bytes_get_str b =
     (if length b < 4 then Inl SSH_ERR_MESSAGE_INCOMPLETE
      else let len = unat (PEEK_U32 b) in
        if len > SSHBUF_SIZE_MAX - 4 then Inl SSH_ERR_STRING_TOO_LARGE
        else if length b - 4 < len then Inl SSH_ERR_MESSAGE_INCOMPLETE
        else Inr (take len (drop 4 b), drop (4 + len) b))"

definition bytes_get_cstring :: "byte list reader" where
  "bytes_get_cstring b =
     rbind (bytes_get_str b) (\<lambda>(v, rest). if valid_cstring v then Inr (v, rest) else Inl SSH_ERR_INVALID_FORMAT)"

text \<open>C strings as bytes, and decimal numbers as the \<^verbatim>\<open>printf\<close> family writes them.\<close>

definition str_bytes :: "string \<Rightarrow> byte list" where
  "str_bytes cs = map of_char cs"

definition bytes_str :: "byte list \<Rightarrow> string" where
  "bytes_str bs = map (\<lambda>b. char_of (unat b)) bs"

text \<open>The string that starts at a pointer to bytes ends before the first \<^verbatim>\<open>NUL\<close>.\<close>

definition cstring_of :: "byte list \<Rightarrow> string" where
  "cstring_of bs = bytes_str (takeWhile (\<lambda>b. b \<noteq> 0) bs)"

fun decimal_str :: "nat \<Rightarrow> string" where
  "decimal_str n = (if n < 10 then [char_of (48 + n)] else decimal_str (n div 10) @ [char_of (48 + n mod 10)])"

lemma unat_of_char: "unat (of_char c :: byte) = (of_char c :: nat)"
proof -
  have "(of_char c :: byte) = of_nat (of_char c :: nat)" by (simp add: of_char_def)
  moreover have "(of_char c :: nat) < 2 ^ 8" using nat_of_char_less_256 [of c] by simp
  ultimately show ?thesis by (simp add: unat_of_nat take_bit_nat_eq_self)
qed

lemma bytes_str_str_bytes [simp]: "bytes_str (str_bytes cs) = cs"
  by (induction cs) (simp_all add: bytes_str_def str_bytes_def unat_of_char)

lemma cstring_of_str_bytes: "0 \<notin> set (str_bytes cs) \<Longrightarrow> cstring_of (str_bytes cs) = cs"
  by (subst cstring_of_def, subst takeWhile_eq_all_conv [THEN iffD2]) auto

lemma length_str_bytes [simp]: "length (str_bytes cs) = length cs"
  by (simp add: str_bytes_def)

text \<open>A sequence of appends to a buffer of the default maximum size.\<close>

fun buf_appends :: "byte list \<Rightarrow> byte list list \<Rightarrow> ssh_err + byte list" where
  "buf_appends b [] = Inr b"
| "buf_appends b (v # vs) =
     (case buf_put SSHBUF_SIZE_MAX b v of None \<Rightarrow> Inl SSH_ERR_NO_BUFFER_SPACE | Some b \<Rightarrow> buf_appends b vs)"

lemma buf_appends_eq:
  "buf_appends b vs =
    (if length b + length (concat vs) > SSHBUF_SIZE_MAX \<and> vs \<noteq> [] then Inl SSH_ERR_NO_BUFFER_SPACE else Inr (b @ concat vs))"
  by (induction vs arbitrary: b) (auto simp: buf_put_def)

lemma bytes_get_encoded [simp]:
  "bytes_get_u8 (x # rest) = Inr (x, rest)"
  "bytes_get_u32 (POKE_U32 y @ rest) = Inr (y, rest)"
  "bytes_get_u64 (POKE_U64 z @ rest) = Inr (z, rest)"
  using PEEK_POKE_U32 [of y "[]"] PEEK_POKE_U64 [of z "[]"]
  by (simp_all add: bytes_get_u8_def bytes_get_u32_def bytes_get_u64_def bytes_get_def)

lemma bytes_get_str_enc:
  assumes "length v \<le> SSHBUF_SIZE_MAX - 4"
  shows "bytes_get_str (enc_string v @ rest) = Inr (v, rest)"
proof -
  have "unat (of_nat (length v) :: 32 word) = length v"
    using assms by (intro unat_of_nat_32) (simp add: SSHBUF_SIZE_MAX_def)
  then show ?thesis using assms by (simp add: bytes_get_str_def enc_string_def)
qed

lemma bytes_get_cstring_enc:
  assumes "length v \<le> SSHBUF_SIZE_MAX - 4" "valid_cstring v"
  shows "bytes_get_cstring (enc_string v @ rest) = Inr (v, rest)"
  using assms by (simp add: bytes_get_cstring_def bytes_get_str_enc)

lemma get_enc_str: "length p \<le> SSHBUF_SIZE_MAX - 4 \<Longrightarrow> bytes_get_string (enc_string p) = Some (p, [])"
proof -
  assume "length p \<le> SSHBUF_SIZE_MAX - 4"
  moreover then have "unat (of_nat (length p) :: 32 word) = length p"
    by (intro unat_of_nat_32) (simp add: SSHBUF_SIZE_MAX_def)
  ultimately show ?thesis by (simp add: bytes_get_string_def enc_string_def)
qed

text \<open>The two views are what the operations on a well-formed buffer do.\<close>

lemma buf_put_refines:
  assumes "sshbuf_wf b" "sshbuf_writable b" "ra \<noteq> None"
  shows "buf_put (buf_max_size b) (buf_data b) v =
    (case sshbuf_put ra b v of (Inl e, b') \<Rightarrow> None | (Inr u, b') \<Rightarrow> Some (buf_data b'))"
proof -
  obtain r b' where put: "sshbuf_put ra b v = (r, b')" by fastforce
  from put_spec [OF assms(1) put] put_result [OF assms(1,3), of v] assms(2) put show ?thesis
    by (auto simp: buf_put_def split: sum.splits)
qed

lemma bytes_get_refines:
  assumes "sshbuf_wf b"
  shows "bytes_get n (buf_data b) = (case sshbuf_get b n of (Inl e, b') \<Rightarrow> Inl e | (Inr v, b') \<Rightarrow> Inr (v, buf_data b'))"
proof -
  obtain r b' where get: "sshbuf_get b n = (r, b')" by fastforce
  from get_spec [OF assms get] get show ?thesis by (auto simp: bytes_get_def split: if_splits)
qed

lemma bytes_get_ints_refine:
  assumes "sshbuf_wf b"
  shows "bytes_get_u8 (buf_data b) = (case sshbuf_get_u8 b of (Inl e, b') \<Rightarrow> Inl e | (Inr v, b') \<Rightarrow> Inr (v, buf_data b'))"
    and "bytes_get_u32 (buf_data b) = (case sshbuf_get_u32 b of (Inl e, b') \<Rightarrow> Inl e | (Inr w, b') \<Rightarrow> Inr (w, buf_data b'))"
    and "bytes_get_u64 (buf_data b) = (case sshbuf_get_u64 b of (Inl e, b') \<Rightarrow> Inl e | (Inr x, b') \<Rightarrow> Inr (x, buf_data b'))"
  unfolding bytes_get_u8_def bytes_get_u32_def bytes_get_u64_def get_ints bytes_get_refines [OF assms]
  by (auto split: prod.splits sum.splits)

lemma bytes_get_string_eq:
  "bytes_get_string b = (case bytes_get_str b of Inl e \<Rightarrow> None | Inr r \<Rightarrow> Some r)"
  by (simp add: bytes_get_string_def bytes_get_str_def Let_def)

lemma bytes_get_string_refines:
  assumes wf: "sshbuf_wf b"
  shows "bytes_get_string (buf_data b) =
    (case sshbuf_get_string_direct b of
       (Inl e, b') \<Rightarrow> None
     | (Inr ((p, bytes), len), b') \<Rightarrow> Some (take len bytes, buf_data b'))"
proof -
  obtain p where ptr: "sshbuf_ptr b = Some (p, drop (buf_off b) (buf_mem b))"
    by (rule sshbuf_ptr_wf [OF wf])
  let ?m = "drop (buf_off b) (buf_mem b)" and ?d = "buf_data b"
  define len where "len = unat (PEEK_U32 ?d)"
  have peek: "PEEK_U32 ?m = PEEK_U32 ?d" if "4 \<le> length ?d"
    using ptr_take [of 4 b] that PEEK_take(2) [of ?m] PEEK_take(2) [of ?d] by simp
  show ?thesis
  proof (cases "4 \<le> length ?d \<and> len \<le> SSHBUF_SIZE_MAX - 4 \<and> len \<le> length ?d - 4")
    case True
    then have "sshbuf_peek_string_direct b = Inr ((p + 4, drop 4 ?m), len)"
      using wf peek by (simp add: sshbuf_peek_string_direct_def ptr Let_def len_def)
    moreover have le: "size_add len 4 = 4 + len"
      using True size_max_large by (subst size_add_exact) (auto simp: sshbuf_consts)
    moreover obtain r1 b1 where cs: "sshbuf_consume b (4 + len) = (r1, b1)" by fastforce
    moreover have "r1 = Inr () \<and> buf_data b1 = drop (4 + len) ?d" using consume_spec [OF wf cs] True by auto
    moreover have "take len (drop 4 ?m) = take len (drop 4 ?d)"
      using ptr_take [of "4 + len" b] True by (metis le_diff_conv2 add.commute drop_take add_diff_cancel_left')
    ultimately show ?thesis
      using True by (simp add: bytes_get_string_def sshbuf_get_string_direct_def Let_def len_def)
  next
    case False
    then show ?thesis
      using wf peek by (auto simp: bytes_get_string_def sshbuf_get_string_direct_def sshbuf_peek_string_direct_def ptr Let_def len_def)
  qed
qed

end
