(* ===== verification/Channel_IO.thy ===== *)
theory Channel_IO
  imports Nchan Wire
begin

unbundle bit_operations_syntax

text \<open>
  Data transfer and flow control of channels, from \<^verbatim>\<open>channels.c\<close>: reading and writing the
  descriptors of a channel, enqueueing \<^verbatim>\<open>DATA\<close> within the window of the peer, accepting
  \<^verbatim>\<open>DATA\<close> within the own window, and window adjustments.

  What a system call does is an argument: the bytes read or the number of bytes written, a
  temporary error (\<^verbatim>\<open>EINTR\<close> or \<^verbatim>\<open>EAGAIN\<close>) or a failure.  The handlers of incoming messages take
  the rest of the packet after the channel number.  Channels with an input or output filter and
  the callbacks of \<^verbatim>\<open>open_confirm\<close> are not modelled; \<open>mux\<close> tells whether a multiplexing client
  is attached to a proxy channel, whose messages are passed on unread.
\<close>

section \<open>Parameters and helpers\<close>

definition CHAN_INPUT_MAX :: nat where "CHAN_INPUT_MAX = 16 * 1024 * 1024"
definition CHANNEL_MAX_READ :: nat where "CHANNEL_MAX_READ = 32 * 1024"
definition CHAN_RBUF :: nat where "CHAN_RBUF = 16 * 1024"
definition SSH2_EXTENDED_DATA_STDERR :: "32 word" where "SSH2_EXTENDED_DATA_STDERR = 1"

datatype read_result = Read_intr | Read_again | Read_failed | Read_data "byte list"
datatype write_result = Write_again | Write_failed | Wrote nat

section \<open>Sending data\<close>

definition channel_output_poll_input_open :: "bool \<Rightarrow> channel \<Rightarrow> chan_result" where
  "channel_output_poll_input_open pkt c =
     (if length (c_input c) = 0
      then if c_istate c = CHAN_INPUT_WAIT_DRAIN
           then if CHANNEL_EFD_INPUT_ACTIVE c then quiet c else chan_ibuf_empty pkt c
           else quiet c
      else if \<not> c_have_remote_id c then Inl Fatal
      else if c_datagram c
      then (case bytes_get_string (c_input c) of
              None \<Rightarrow> Inl Fatal
            | Some (p, rest) \<Rightarrow>
                let c1 = c\<lparr>c_input := rest\<rparr>; plen = length p in
                if plen > unat (c_remote_window c1) \<or> plen > unat (c_remote_maxpacket c1) then quiet c1
                else if \<not> pkt then Inl Fatal
                else Inr (c1\<lparr>c_remote_window := c_remote_window c1 - of_nat plen\<rparr>,
                          [Msg_data (c_remote_id c1) p]))
      else let len0 = length (c_input c);
               len1 = (if len0 > unat (c_remote_window c) then unat (c_remote_window c) else len0);
               len = (if len1 > unat (c_remote_maxpacket c) then unat (c_remote_maxpacket c) else len1)
           in if len = 0 then quiet c
              else if \<not> pkt then Inl Fatal
              else Inr (c\<lparr>c_input := drop len (c_input c),
                          c_remote_window := c_remote_window c - of_nat len\<rparr>,
                        [Msg_data (c_remote_id c) (take len (c_input c))]))"

definition channel_output_poll_extended_read :: "bool \<Rightarrow> channel \<Rightarrow> chan_result" where
  "channel_output_poll_extended_read pkt c =
     (let len0 = length (c_extended c);
          len1 = (if len0 > unat (c_remote_window c) then unat (c_remote_window c) else len0);
          len = (if len1 > unat (c_remote_maxpacket c) then unat (c_remote_maxpacket c) else len1)
      in if len = 0 then quiet c
         else if \<not> c_have_remote_id c then Inl Fatal
         else if \<not> pkt then Inl Fatal
         else Inr (c\<lparr>c_extended := drop len (c_extended c),
                     c_remote_window := c_remote_window c - of_nat len\<rparr>,
                   [Msg_extended_data (c_remote_id c) (take len (c_extended c))]))"

text \<open>The body of the loop of \<^verbatim>\<open>channel_output_poll\<close>, for one channel, and the loop.\<close>

definition channel_output_poll1 :: "bool \<Rightarrow> channel \<Rightarrow> chan_result" where
  "channel_output_poll1 pkt c =
     (if c_type c \<noteq> SSH_CHANNEL_OPEN then quiet c
      else if has_flag c (CHAN_CLOSE_SENT OR CHAN_CLOSE_RCVD) then quiet c
      else chan_seq
             (if c_istate c = CHAN_INPUT_OPEN \<or> c_istate c = CHAN_INPUT_WAIT_DRAIN
              then channel_output_poll_input_open pkt c else quiet c)
             (\<lambda>c. if \<not> has_flag c CHAN_EOF_SENT \<and> c_extended_usage c = CHAN_EXTENDED_READ
                   then channel_output_poll_extended_read pkt c else quiet c))"

fun channel_output_poll :: "bool \<Rightarrow> channel option list \<Rightarrow> stop + channel option list \<times> chan_msg list" where
  "channel_output_poll pkt [] = Inr ([], [])"
| "channel_output_poll pkt (None # cs) =
     (case channel_output_poll pkt cs of Inl e \<Rightarrow> Inl e | Inr (cs', ms) \<Rightarrow> Inr (None # cs', ms))"
| "channel_output_poll pkt (Some c # cs) =
     (case channel_output_poll1 pkt c of
        Inl e \<Rightarrow> Inl e
      | Inr (c', ms) \<Rightarrow>
          (case channel_output_poll pkt cs of
             Inl e \<Rightarrow> Inl e
           | Inr (cs', ms') \<Rightarrow> Inr (Some c' # cs', ms @ ms')))"

section \<open>Receiving data\<close>

definition proxied :: "bool \<Rightarrow> channel \<Rightarrow> bool" where
  "proxied mux c \<longleftrightarrow> c_type c = SSH_CHANNEL_MUX_PROXY \<and> mux"

definition channel_input_data :: "bool \<Rightarrow> byte list \<Rightarrow> channel \<Rightarrow> chan_result" where
  "channel_input_data mux body c =
     (if proxied mux c then quiet c
      else if c_type c \<notin> {SSH_CHANNEL_OPEN, SSH_CHANNEL_RDYNAMIC_OPEN, SSH_CHANNEL_RDYNAMIC_FINISH,
                           SSH_CHANNEL_X11_OPEN} then quiet c
      else case bytes_get_string body of
        None \<Rightarrow> Inl Fatal
      | Some (dat, rest) \<Rightarrow>
          if rest \<noteq> [] then Inl Fatal
          else let win_len = (if c_datagram c then length dat + 4 else length dat) in
            if c_ostate c \<noteq> CHAN_OUTPUT_OPEN
            then quiet (c\<lparr>c_local_window := (if win_len > unat (c_local_window c) then 0
                                             else c_local_window c - of_nat win_len),
                          c_local_consumed := c_local_consumed c + of_nat win_len\<rparr>)
            else if win_len > unat (c_local_maxpacket c) then quiet c
            else case (if win_len > unat (c_local_window c)
                       then let ex = c_local_window_exceeded c + of_nat (win_len - unat (c_local_window c));
                                c1 = c\<lparr>c_local_window_exceeded := ex, c_local_window := 0\<rparr>
                            in if ex > c_local_window_max c div 10 then Inl Disconnect else quiet c1
                       else quiet (c\<lparr>c_local_window := c_local_window c - of_nat win_len,
                                     c_local_window_exceeded := 0\<rparr>)) of
              Inl e \<Rightarrow> Inl e
            | Inr (c1, ms) \<Rightarrow>
                (case buf_put SSHBUF_SIZE_MAX (c_output c1) (if c_datagram c1 then enc_string dat else dat) of
                   None \<Rightarrow> Inl Fatal
                 | Some out \<Rightarrow> quiet (c1\<lparr>c_output := out\<rparr>)))"

definition channel_input_extended_data :: "bool \<Rightarrow> 32 word \<Rightarrow> byte list \<Rightarrow> channel \<Rightarrow> chan_result" where
  "channel_input_extended_data mux cmpt body c =
     (if proxied mux c then quiet c
      else if c_type c \<noteq> SSH_CHANNEL_OPEN then quiet c
      else if has_flag c CHAN_EOF_RCVD \<and> cmpt AND SSH_BUG_EXTEOF = 0 then Inl Disconnect
      else if length body < 4 then Inl Disconnect
      else let tcode = PEEK_U32 body; body = drop 4 body in
        if c_efd c = -1 \<or> c_extended_usage c \<noteq> CHAN_EXTENDED_WRITE \<or> tcode \<noteq> SSH2_EXTENDED_DATA_STDERR
        then quiet c
        else case bytes_get_string body of
          None \<Rightarrow> Inl Disconnect
        | Some (dat, rest) \<Rightarrow>
            if rest \<noteq> [] then Inl Disconnect
            else if length dat > unat (c_local_window c) then quiet c
            else quiet (c\<lparr>c_extended := (case buf_put SSHBUF_SIZE_MAX (c_extended c) dat of
                                           None \<Rightarrow> c_extended c | Some b \<Rightarrow> b),
                          c_local_window := c_local_window c - of_nat (length dat)\<rparr>))"

definition channel_input_ieof :: "bool \<Rightarrow> bool \<Rightarrow> byte list \<Rightarrow> channel \<Rightarrow> chan_result" where
  "channel_input_ieof pkt mux body c =
     (if body \<noteq> [] then Inl Disconnect
      else if proxied mux c then quiet c
      else chan_seq (chan_rcvd_ieof c)
             (\<lambda>c. if c_force_drain c \<and> c_istate c = CHAN_INPUT_OPEN
                   then let c1 = c\<lparr>c_istate := CHAN_INPUT_WAIT_DRAIN\<rparr> in
                        if length (c_input c1) = 0 then chan_ibuf_empty pkt c1 else quiet c1
                   else quiet c))"

definition channel_input_oclose :: "bool \<Rightarrow> bool \<Rightarrow> byte list \<Rightarrow> channel \<Rightarrow> chan_result" where
  "channel_input_oclose pkt mux body c =
     (if proxied mux c then quiet c
      else if body \<noteq> [] then Inl Disconnect
      else chan_rcvd_oclose pkt c)"

definition channel_input_open_confirmation :: "bool \<Rightarrow> byte list \<Rightarrow> channel \<Rightarrow> chan_result" where
  "channel_input_open_confirmation mux body c =
     (if proxied mux c then quiet c
      else if c_type c \<noteq> SSH_CHANNEL_OPENING then Inl Disconnect
      else if length body \<noteq> 12 then Inl Disconnect
      else quiet (c\<lparr>c_remote_id := PEEK_U32 body, c_have_remote_id := True,
                    c_remote_window := PEEK_U32 (drop 4 body),
                    c_remote_maxpacket := PEEK_U32 (drop 8 body),
                    c_type := SSH_CHANNEL_OPEN\<rparr>))"

definition channel_input_window_adjust :: "bool \<Rightarrow> byte list \<Rightarrow> channel \<Rightarrow> chan_result" where
  "channel_input_window_adjust mux body c =
     (if proxied mux c then quiet c
      else if length body \<noteq> 4 then Inl Disconnect
      else let new_rwin = c_remote_window c + PEEK_U32 body in
        if new_rwin < c_remote_window c then Inl Fatal
        else quiet (c\<lparr>c_remote_window := new_rwin\<rparr>))"

section \<open>Descriptors\<close>

definition read_fail :: "channel \<Rightarrow> chan_result" where
  "read_fail c = (if c_type c \<noteq> SSH_CHANNEL_OPEN then quiet (chan_mark_dead c) else chan_read_failed c)"

text \<open>
  \<^verbatim>\<open>channel_handle_rfd\<close>; \<open>rd\<close> is what \<^verbatim>\<open>sshbuf_read\<close> or \<^verbatim>\<open>read\<close> does when asked for at most
  the given number of bytes.  A read of no bytes is the end of the input.
\<close>

definition channel_handle_rfd :: "(nat \<Rightarrow> read_result) \<Rightarrow> channel \<Rightarrow> chan_result" where
  "channel_handle_rfd rd c =
     (let force = c_isatty c \<and> c_detach_close c \<and> c_istate c \<noteq> CHAN_INPUT_CLOSED;
          avail = CHAN_INPUT_MAX - length (c_input c) in
      if \<not> force \<and> c_io_ready c AND SSH_CHAN_IO_RFD = 0 then quiet c
      else if avail = 0 then quiet c
      else if \<not> c_datagram c
      then let have = length (c_input c); rwin = unat (c_remote_window c) in
        if c_type c = SSH_CHANNEL_OPEN \<and> have \<ge> rwin then quiet c
        else let m0 = (if c_type c = SSH_CHANNEL_OPEN \<and> CHANNEL_MAX_READ > rwin - have
                       then rwin - have else CHANNEL_MAX_READ);
                 maxlen = (if m0 > avail then avail else m0)
             in (case rd maxlen of
                   Read_intr \<Rightarrow> quiet c
                 | Read_again \<Rightarrow> if force then read_fail c else quiet c
                 | Read_failed \<Rightarrow> read_fail c
                 | Read_data d \<Rightarrow> if d = [] then read_fail c
                                  else quiet (c\<lparr>c_input := c_input c @ take maxlen d\<rparr>))
      else (case rd CHAN_RBUF of
              Read_intr \<Rightarrow> quiet c
            | Read_again \<Rightarrow> if force then read_fail c else quiet c
            | Read_failed \<Rightarrow> read_fail c
            | Read_data d \<Rightarrow>
                if d = [] then read_fail c
                else (case buf_put CHAN_INPUT_MAX (c_input c) (enc_string (take CHAN_RBUF d)) of
                        None \<Rightarrow> Inl Fatal
                      | Some b \<Rightarrow> quiet (c\<lparr>c_input := b\<rparr>))))"

definition write_fail :: "bool \<Rightarrow> 32 word \<Rightarrow> channel \<Rightarrow> chan_result" where
  "write_fail pkt cmpt c =
     (if c_type c \<noteq> SSH_CHANNEL_OPEN then quiet (chan_mark_dead c) else chan_write_failed pkt cmpt c)"

text \<open>
  \<^verbatim>\<open>channel_handle_wfd\<close>; \<open>wr\<close> is what \<^verbatim>\<open>write\<close> does with the given bytes (it never writes more
  than there are), \<open>noecho\<close> whether the terminal of the channel has echo off in line mode.
\<close>

definition channel_handle_wfd ::
    "bool \<Rightarrow> 32 word \<Rightarrow> (byte list \<Rightarrow> write_result) \<Rightarrow> bool \<Rightarrow> channel \<Rightarrow> chan_result" where
  "channel_handle_wfd pkt cmpt wr noecho c =
     (if c_io_ready c AND SSH_CHAN_IO_WFD = 0 then quiet c
      else if length (c_output c) = 0 then quiet c
      else let olen = length (c_output c) in
        if c_datagram c
        then (case bytes_get_string (c_output c) of
                None \<Rightarrow> Inl Fatal
              | Some (d, rest) \<Rightarrow>
                  let c1 = c\<lparr>c_output := rest\<rparr> in
                  (case wr d of
                     Write_again \<Rightarrow> quiet c1
                   | Write_failed \<Rightarrow> write_fail pkt cmpt c1
                   | Wrote 0 \<Rightarrow> write_fail pkt cmpt c1
                   | Wrote (Suc n) \<Rightarrow>
                       quiet (c1\<lparr>c_local_consumed := c_local_consumed c1 + of_nat (olen - length (c_output c1))\<rparr>)))
        else (case wr (c_output c) of
                Write_again \<Rightarrow> quiet c
              | Write_failed \<Rightarrow> write_fail pkt cmpt c
              | Wrote 0 \<Rightarrow> write_fail pkt cmpt c
              | Wrote (Suc n) \<Rightarrow>
                  let len = min (Suc n) olen;
                      echo = (c_isatty c \<and> c_output c ! 0 \<noteq> 13 \<and> noecho) in
                  if echo \<and> \<not> pkt then Inl Fatal
                  else Inr (c\<lparr>c_output := drop len (c_output c),
                              c_local_consumed := c_local_consumed c + of_nat (olen - length (drop len (c_output c)))\<rparr>,
                            if echo then [Msg_ignore (4 + len)] else [])))"

definition channel_handle_efd_write :: "(byte list \<Rightarrow> write_result) \<Rightarrow> channel \<Rightarrow> chan_result" where
  "channel_handle_efd_write wr c =
     (if c_io_ready c AND SSH_CHAN_IO_EFD_W = 0 then quiet c
      else if length (c_extended c) = 0 then quiet c
      else case wr (c_extended c) of
        Write_again \<Rightarrow> quiet c
      | Write_failed \<Rightarrow> quiet (fst (channel_close_fd Efd c))
      | Wrote 0 \<Rightarrow> quiet (fst (channel_close_fd Efd c))
      | Wrote (Suc n) \<Rightarrow>
          let len = min (Suc n) (length (c_extended c)) in
          quiet (c\<lparr>c_extended := drop len (c_extended c),
                   c_local_consumed := c_local_consumed c + of_nat len\<rparr>))"

definition channel_handle_efd_read :: "(nat \<Rightarrow> read_result) \<Rightarrow> channel \<Rightarrow> chan_result" where
  "channel_handle_efd_read rd c =
     (let force = c_isatty c \<and> c_detach_close c \<and> c_istate c \<noteq> CHAN_INPUT_CLOSED in
      if \<not> force \<and> c_io_ready c AND SSH_CHAN_IO_EFD_R = 0 then quiet c
      else case rd CHAN_RBUF of
        Read_intr \<Rightarrow> quiet c
      | Read_again \<Rightarrow> if force then quiet (fst (channel_close_fd Efd c)) else quiet c
      | Read_failed \<Rightarrow> quiet (fst (channel_close_fd Efd c))
      | Read_data d \<Rightarrow>
          if d = [] then quiet (fst (channel_close_fd Efd c))
          else if c_extended_usage c = CHAN_EXTENDED_IGNORE then quiet c
          else (case buf_put SSHBUF_SIZE_MAX (c_extended c) (take CHAN_RBUF d) of
                  None \<Rightarrow> Inl Fatal
                | Some b \<Rightarrow> quiet (c\<lparr>c_extended := b\<rparr>)))"

definition channel_handle_efd ::
    "(nat \<Rightarrow> read_result) \<Rightarrow> (byte list \<Rightarrow> write_result) \<Rightarrow> channel \<Rightarrow> chan_result" where
  "channel_handle_efd rd wr c =
     (if c_efd c = -1 then quiet c
      else if c_extended_usage c = CHAN_EXTENDED_WRITE then channel_handle_efd_write wr c
      else if c_extended_usage c = CHAN_EXTENDED_READ \<or> c_extended_usage c = CHAN_EXTENDED_IGNORE
      then channel_handle_efd_read rd c
      else quiet c)"

definition channel_check_window :: "bool \<Rightarrow> channel \<Rightarrow> chan_result" where
  "channel_check_window pkt c =
     (if c_type c = SSH_CHANNEL_OPEN \<and> \<not> has_flag c (CHAN_CLOSE_SENT OR CHAN_CLOSE_RCVD) \<and>
         (c_local_window_max c - c_local_window c > c_local_maxpacket c * 3 \<or>
          c_local_window c < c_local_window_max c div 2) \<and>
         c_local_consumed c > 0
      then if \<not> c_have_remote_id c then Inl Fatal
           else if \<not> pkt then Inl Fatal
           else Inr (c\<lparr>c_local_window := c_local_window c + c_local_consumed c, c_local_consumed := 0\<rparr>,
                     [Msg_window_adjust (c_remote_id c) (c_local_consumed c)])
      else quiet c)"

text \<open>The four steps of \<^verbatim>\<open>channel_post_open\<close>, with what each of the system calls does.\<close>

definition channel_post_open ::
    "bool \<Rightarrow> 32 word \<Rightarrow> (nat \<Rightarrow> read_result) \<Rightarrow> (byte list \<Rightarrow> write_result) \<Rightarrow> bool \<Rightarrow>
     (nat \<Rightarrow> read_result) \<Rightarrow> (byte list \<Rightarrow> write_result) \<Rightarrow> channel \<Rightarrow> chan_result" where
  "channel_post_open pkt cmpt rd wr noecho erd ewr c =
     chan_seq (chan_seq (chan_seq (channel_handle_rfd rd c)
       (channel_handle_wfd pkt cmpt wr noecho))
       (channel_handle_efd erd ewr))
       (channel_check_window pkt)"

definition channel_pre_open :: "channel \<Rightarrow> chan_result" where
  "channel_pre_open c0 =
     (let c = c0\<lparr>c_io_want := 0\<rparr>;
          c1 = (if c_istate c = CHAN_INPUT_OPEN \<and> c_remote_window c > 0 \<and>
                   length (c_input c) < unat (c_remote_window c) \<and> length (c_input c) + CHAN_RBUF \<le> CHAN_INPUT_MAX
                then c\<lparr>c_io_want := c_io_want c OR SSH_CHAN_IO_RFD\<rparr> else c)
      in chan_seq
           (if c_ostate c1 = CHAN_OUTPUT_OPEN \<or> c_ostate c1 = CHAN_OUTPUT_WAIT_DRAIN
            then if length (c_output c1) > 0 then quiet (c1\<lparr>c_io_want := c_io_want c1 OR SSH_CHAN_IO_WFD\<rparr>)
                 else if c_ostate c1 = CHAN_OUTPUT_WAIT_DRAIN
                 then if CHANNEL_EFD_OUTPUT_ACTIVE c1 then quiet c1 else chan_obuf_empty c1
                 else quiet c1
            else quiet c1)
           (\<lambda>c. if c_efd c \<noteq> -1 \<and> \<not> (c_istate c = CHAN_INPUT_CLOSED \<and> c_ostate c = CHAN_OUTPUT_CLOSED)
                 then if c_extended_usage c = CHAN_EXTENDED_WRITE \<and> length (c_extended c) > 0
                      then quiet (c\<lparr>c_io_want := c_io_want c OR SSH_CHAN_IO_EFD_W\<rparr>)
                      else if c_efd c \<noteq> -1 \<and> \<not> has_flag c CHAN_EOF_SENT \<and>
                              (c_extended_usage c = CHAN_EXTENDED_READ \<or> c_extended_usage c = CHAN_EXTENDED_IGNORE) \<and>
                              length (c_extended c) < unat (c_remote_window c)
                      then quiet (c\<lparr>c_io_want := c_io_want c OR SSH_CHAN_IO_EFD_R\<rparr>)
                      else quiet c
                 else quiet c))"

section \<open>What may be sent on a channel\<close>

datatype monitor = M_open | M_eof | M_closed

fun mon_step :: "monitor \<Rightarrow> chan_msg \<Rightarrow> monitor option" where
  "mon_step m (Msg_data _ _) = (if m = M_open then Some m else None)"
| "mon_step m (Msg_extended_data _ _) = (if m = M_open then Some m else None)"
| "mon_step m (Msg_eof _) = (if m = M_open then Some M_eof else None)"
| "mon_step m (Msg_close _) = (if m = M_closed then None else Some M_closed)"
| "mon_step m (Msg_eow _) = (if m = M_closed then None else Some m)"
| "mon_step m (Msg_window_adjust _ _) = (if m = M_closed then None else Some m)"
| "mon_step m (Msg_ignore _) = Some m"

fun mon_run :: "monitor \<Rightarrow> chan_msg list \<Rightarrow> monitor option" where
  "mon_run m [] = Some m"
| "mon_run m (x # xs) = (case mon_step m x of None \<Rightarrow> None | Some m' \<Rightarrow> mon_run m' xs)"

lemma mon_run_append:
  "mon_run m (xs @ ys) = (case mon_run m xs of None \<Rightarrow> None | Some m' \<Rightarrow> mon_run m' ys)"
  by (induction xs arbitrary: m) (auto split: option.split)

text \<open>How the state of a channel reflects what has been sent.\<close>

definition chan_inv :: "channel \<Rightarrow> monitor \<Rightarrow> bool" where
  "chan_inv c m \<longleftrightarrow>
     c_istate c \<le> CHAN_INPUT_CLOSED \<and> c_ostate c \<le> CHAN_OUTPUT_CLOSED \<and>
     (has_flag c CHAN_CLOSE_SENT \<longrightarrow> c_istate c = CHAN_INPUT_CLOSED \<and> c_ostate c = CHAN_OUTPUT_CLOSED) \<and>
     (has_flag c CHAN_EOF_SENT \<longrightarrow> c_istate c = CHAN_INPUT_CLOSED) \<and>
     m = (if has_flag c CHAN_CLOSE_SENT then M_closed else if has_flag c CHAN_EOF_SENT then M_eof else M_open)"

definition sends_well :: "monitor \<Rightarrow> chan_result \<Rightarrow> bool" where
  "sends_well m r = (case r of Inl e \<Rightarrow> True
     | Inr (c, ms) \<Rightarrow> (case mon_run m ms of None \<Rightarrow> False | Some m' \<Rightarrow> chan_inv c m'))"

lemma sends_well_simps [simp]:
  "sends_well m (Inl e)" "sends_well m (quiet c) \<longleftrightarrow> chan_inv c m"
  by (simp_all add: sends_well_def)

lemma sends_well_one [simp]:
  "sends_well m (Inr (c, [x])) \<longleftrightarrow> (case mon_step m x of None \<Rightarrow> False | Some m' \<Rightarrow> chan_inv c m')"
  by (simp add: sends_well_def split: option.split)

lemma sends_well_cases:
  "(P \<Longrightarrow> sends_well m x) \<Longrightarrow> (\<not> P \<Longrightarrow> sends_well m y) \<Longrightarrow> sends_well m (if P then x else y)"
  "sends_well m x \<Longrightarrow> (\<And>z. sends_well m (f z)) \<Longrightarrow> sends_well m (case opt of None \<Rightarrow> x | Some z \<Rightarrow> f z)"
  "(\<And>u v. sends_well m (g u v)) \<Longrightarrow> sends_well m (case p of (u, v) \<Rightarrow> g u v)"
  "sends_well m x \<Longrightarrow> (\<And>k. sends_well m (h k)) \<Longrightarrow> sends_well m (case n of 0 \<Rightarrow> x | Suc k \<Rightarrow> h k)"
  "sends_well m i \<Longrightarrow> sends_well m x \<Longrightarrow> sends_well m y \<Longrightarrow> (\<And>d. sends_well m (k d)) \<Longrightarrow>
     sends_well m (case rd of Read_intr \<Rightarrow> i | Read_again \<Rightarrow> x | Read_failed \<Rightarrow> y | Read_data d \<Rightarrow> k d)"
  "sends_well m x \<Longrightarrow> sends_well m y \<Longrightarrow> (\<And>n. sends_well m (h n)) \<Longrightarrow>
     sends_well m (case wr of Write_again \<Rightarrow> x | Write_failed \<Rightarrow> y | Wrote n \<Rightarrow> h n)"
  by (auto split: option.split prod.split nat.split read_result.split write_result.split)

lemma sends_well_seq:
  assumes "sends_well m r" "\<And>c m'. chan_inv c m' \<Longrightarrow> sends_well m' (f c)"
  shows "sends_well m (chan_seq r f)"
proof (cases r)
  case (Inr x)
  then obtain c ms where r: "r = Inr (c, ms)" by (cases x) auto
  with assms(1) obtain m' where m': "mon_run m ms = Some m'" "chan_inv c m'"
    by (auto simp: sends_well_def split: option.splits)
  show ?thesis
    using assms(2) [OF m'(2)] m'(1)
    by (auto simp: r chan_seq_def sends_well_def mon_run_append split: sum.splits)
qed (simp add: chan_seq_def)

lemma or_and_distrib: "(w OR f) AND g = ((w AND g) OR (f AND g) :: 32 word)"
  by (rule bit_word_eqI) (auto simp: bit_simps)

lemma and_or_distrib: "w AND (f OR g) = ((w AND f) OR (w AND g) :: 32 word)"
  by (rule bit_word_eqI) (auto simp: bit_simps)

lemma flag_masks [simp]:
  "(w :: 32 word) AND 3 = 0 \<longleftrightarrow> w AND 1 = 0 \<and> w AND 2 = 0"
  "w AND 17 = 0 \<longleftrightarrow> w AND 1 = 0 \<and> w AND 16 = 0"
  "w AND 10 = 0 \<longleftrightarrow> w AND 8 = 0 \<and> w AND 2 = 0"
proof -
  have eq: "(3 :: 32 word) = 1 OR 2" "(17 :: 32 word) = 1 OR 16" "(10 :: 32 word) = 8 OR 2" by simp_all
  show "w AND 3 = 0 \<longleftrightarrow> w AND 1 = 0 \<and> w AND 2 = 0" "w AND 17 = 0 \<longleftrightarrow> w AND 1 = 0 \<and> w AND 16 = 0"
    "w AND 10 = 0 \<longleftrightarrow> w AND 8 = 0 \<and> w AND 2 = 0"
    unfolding eq by (simp_all only: and_or_distrib or_eq_0_iff)
qed

text \<open>Closing descriptors changes neither the states nor the flags of a channel.\<close>

lemma close_fd_frame [simp]:
  "c_istate (fst (channel_close_fd s c)) = c_istate c" "c_ostate (fst (channel_close_fd s c)) = c_ostate c"
  "c_flags (fst (channel_close_fd s c)) = c_flags c" "c_type (fst (channel_close_fd s c)) = c_type c"
  "c_ctype (fst (channel_close_fd s c)) = c_ctype c"
  "c_have_remote_id (fst (channel_close_fd s c)) = c_have_remote_id c"
  "c_remote_id (fst (channel_close_fd s c)) = c_remote_id c"
  "c_input (fst (channel_close_fd s c)) = c_input c" "c_output (fst (channel_close_fd s c)) = c_output c"
  "c_extended (fst (channel_close_fd s c)) = c_extended c"
  by (cases s; simp add: channel_close_fd_def clear_io_def Let_def)+

lemma shutdown_frame [simp]:
  "c_istate (chan_shutdown_write c) = c_istate c" "c_ostate (chan_shutdown_write c) = c_ostate c"
  "c_flags (chan_shutdown_write c) = c_flags c" "c_type (chan_shutdown_write c) = c_type c"
  "c_ctype (chan_shutdown_write c) = c_ctype c"
  "c_istate (chan_shutdown_read c) = c_istate c" "c_ostate (chan_shutdown_read c) = c_ostate c"
  "c_flags (chan_shutdown_read c) = c_flags c" "c_type (chan_shutdown_read c) = c_type c"
  "c_istate (chan_shutdown_extended_read c) = c_istate c" "c_ostate (chan_shutdown_extended_read c) = c_ostate c"
  "c_flags (chan_shutdown_extended_read c) = c_flags c" "c_type (chan_shutdown_extended_read c) = c_type c"
  "c_have_remote_id (chan_shutdown_write c) = c_have_remote_id c" "c_remote_id (chan_shutdown_write c) = c_remote_id c"
  "c_have_remote_id (chan_shutdown_read c) = c_have_remote_id c" "c_remote_id (chan_shutdown_read c) = c_remote_id c"
  "c_have_remote_id (chan_shutdown_extended_read c) = c_have_remote_id c"
  "c_remote_id (chan_shutdown_extended_read c) = c_remote_id c"
  by (simp_all add: chan_shutdown_write_def chan_shutdown_read_def chan_shutdown_extended_read_def Let_def)

lemma chan_inv_cong:
  "c_istate c = c_istate d \<Longrightarrow> c_ostate c = c_ostate d \<Longrightarrow> c_flags c = c_flags d \<Longrightarrow> chan_inv c m = chan_inv d m"
  by (simp add: chan_inv_def)


lemmas nchan_simps = chan_set_istate_def chan_set_ostate_def chan_send_eof2_def chan_seq_def
  or_and_distrib Let_def

lemma chan_read_failed_sends: "chan_inv c m \<Longrightarrow> sends_well m (chan_read_failed c)"
  by (auto simp: chan_read_failed_def nchan_simps chan_inv_def sends_well_def)

lemma chan_ibuf_empty_sends: "chan_inv c m \<Longrightarrow> sends_well m (chan_ibuf_empty pkt c)"
  by (auto simp: chan_ibuf_empty_def nchan_simps chan_inv_def sends_well_def split: if_splits)

lemma chan_obuf_empty_sends: "chan_inv c m \<Longrightarrow> sends_well m (chan_obuf_empty c)"
  by (auto simp: chan_obuf_empty_def nchan_simps chan_inv_def sends_well_def)

lemma chan_rcvd_eow_sends: "chan_inv c m \<Longrightarrow> sends_well m (chan_rcvd_eow c)"
  by (auto simp: chan_rcvd_eow_def nchan_simps chan_inv_def sends_well_def)

lemma chan_write_failed_sends: "chan_inv c m \<Longrightarrow> sends_well m (chan_write_failed pkt cmpt c)"
  by (auto simp: chan_write_failed_def chan_send_eow2_def nchan_simps chan_inv_def sends_well_def split: if_splits)

lemma chan_inv_flags:
  "f AND 1 = 0 \<Longrightarrow> f AND 4 = 0 \<Longrightarrow> chan_inv (c\<lparr>c_flags := c_flags c OR f\<rparr>) m = chan_inv c m"
  by (simp add: chan_inv_def or_and_distrib)

lemma chan_rcvd_ieof_sends: "chan_inv c m \<Longrightarrow> sends_well m (chan_rcvd_ieof c)"
  unfolding chan_rcvd_ieof_def
proof (rule sends_well_seq)
  assume "chan_inv c m"
  then show "sends_well m (let c = c\<lparr>c_flags := c_flags c OR CHAN_EOF_RCVD\<rparr> in
      if c_ostate c = CHAN_OUTPUT_OPEN then chan_set_ostate c CHAN_OUTPUT_WAIT_DRAIN else quiet c)"
    by (auto simp: nchan_simps chan_inv_def sends_well_def)
qed (simp add: chan_obuf_empty_sends)

lemma chan_rcvd_oclose_sends: "chan_inv c m \<Longrightarrow> sends_well m (chan_rcvd_oclose pkt c)"
proof -
  define d where "d = (if \<not> has_flag c CHAN_LOCAL then c\<lparr>c_flags := c_flags c OR CHAN_CLOSE_RCVD\<rparr> else c)"
  assume "chan_inv c m"
  then have inv: "chan_inv d m" by (simp add: d_def chan_inv_flags)
  show ?thesis
  proof (cases "c_type d = SSH_CHANNEL_LARVAL")
    case True
    then have "chan_rcvd_oclose pkt c =
        chan_seq (chan_set_ostate d CHAN_OUTPUT_CLOSED) (\<lambda>c. chan_set_istate c CHAN_INPUT_CLOSED)"
      by (simp only: chan_rcvd_oclose_def d_def [symmetric] Let_def if_True simp_thms(6))
    then show ?thesis using inv by (auto simp: nchan_simps chan_inv_def sends_well_def)
  next
    case False
    then have eq: "chan_rcvd_oclose pkt c = chan_seq
         (if c_ostate d = CHAN_OUTPUT_OPEN then chan_set_ostate d CHAN_OUTPUT_WAIT_DRAIN else quiet d)
         (\<lambda>c. if c_istate c = CHAN_INPUT_OPEN
               then chan_set_istate (chan_shutdown_extended_read (chan_shutdown_read c)) CHAN_INPUT_CLOSED
               else if c_istate c = CHAN_INPUT_WAIT_DRAIN
               then chan_seq (if \<not> has_flag c CHAN_LOCAL then chan_send_eof2 pkt c else quiet c)
                      (\<lambda>c. chan_set_istate (chan_shutdown_extended_read c) CHAN_INPUT_CLOSED)
               else quiet c)"
      by (simp only: chan_rcvd_oclose_def d_def [symmetric] Let_def if_False)
    show ?thesis
      unfolding eq
    proof (rule sends_well_seq)
      show "sends_well m (if c_ostate d = CHAN_OUTPUT_OPEN then chan_set_ostate d CHAN_OUTPUT_WAIT_DRAIN else quiet d)"
        using inv by (auto simp: nchan_simps chan_inv_def sends_well_def)
    next
      fix c m' assume "chan_inv c m'"
      then show "sends_well m' (if c_istate c = CHAN_INPUT_OPEN
               then chan_set_istate (chan_shutdown_extended_read (chan_shutdown_read c)) CHAN_INPUT_CLOSED
               else if c_istate c = CHAN_INPUT_WAIT_DRAIN
               then chan_seq (if \<not> has_flag c CHAN_LOCAL then chan_send_eof2 pkt c else quiet c)
                      (\<lambda>c. chan_set_istate (chan_shutdown_extended_read c) CHAN_INPUT_CLOSED)
               else quiet c)"
        by (auto simp: nchan_simps chan_inv_def sends_well_def split: if_splits)
    qed
  qed
qed

lemma chan_is_dead_sends:
  "chan_inv c m \<Longrightarrow> chan_is_dead pkt cmpt c do_send = Inr (dead, c', ms) \<Longrightarrow> sends_well m (Inr (c', ms))"
  by (auto simp: chan_is_dead_def chan_send_close2_def chan_inv_def sends_well_def nchan_simps split: if_splits)


subsection \<open>Data\<close>

lemma chan_inv_frame [simp]:
  "chan_inv (c\<lparr>c_input := x\<rparr>) m = chan_inv c m" "chan_inv (c\<lparr>c_output := x\<rparr>) m = chan_inv c m"
  "chan_inv (c\<lparr>c_extended := x\<rparr>) m = chan_inv c m" "chan_inv (c\<lparr>c_remote_window := w\<rparr>) m = chan_inv c m"
  "chan_inv (c\<lparr>c_local_window := w\<rparr>) m = chan_inv c m" "chan_inv (c\<lparr>c_local_consumed := w\<rparr>) m = chan_inv c m"
  "chan_inv (c\<lparr>c_local_window_exceeded := w\<rparr>) m = chan_inv c m" "chan_inv (c\<lparr>c_io_want := w\<rparr>) m = chan_inv c m"
  "chan_inv (c\<lparr>c_type := n\<rparr>) m = chan_inv c m" "chan_inv (fst (channel_close_fd s c)) m = chan_inv c m"
  by (simp_all add: chan_inv_def)

lemma chan_inv_open: "chan_inv c m \<Longrightarrow> c_istate c = 0 \<or> c_istate c = 1 \<Longrightarrow> m = M_open"
  by (auto simp: chan_inv_def)

lemma output_poll_input_open_sends:
  assumes "chan_inv c m" "c_istate c = CHAN_INPUT_OPEN \<or> c_istate c = CHAN_INPUT_WAIT_DRAIN"
  shows "sends_well m (channel_output_poll_input_open pkt c)"
  using assms chan_inv_open [OF assms(1)]
  by (auto simp: channel_output_poll_input_open_def Let_def chan_ibuf_empty_sends split: option.split)

lemma output_poll_extended_read_sends:
  assumes "chan_inv c m" "m = M_open"
  shows "sends_well m (channel_output_poll_extended_read pkt c)"
  using assms by (auto simp: channel_output_poll_extended_read_def  Let_def)

lemma chan_inv_may_send:
  "chan_inv c m \<Longrightarrow> \<not> has_flag c CHAN_EOF_SENT \<Longrightarrow> \<not> has_flag c CHAN_CLOSE_SENT \<Longrightarrow> m = M_open"
  by (simp add: chan_inv_def)

lemma output_poll_no_close:
  "channel_output_poll_input_open pkt c = Inr (c', ms) \<Longrightarrow> \<not> has_flag c CHAN_CLOSE_SENT \<Longrightarrow>
     \<not> has_flag c' CHAN_CLOSE_SENT"
  by (auto simp: channel_output_poll_input_open_def chan_ibuf_empty_def nchan_simps
      split: option.splits if_splits)

lemma output_poll1_sends:
  assumes "chan_inv c m"
  shows "sends_well m (channel_output_poll1 pkt c)"
proof (cases "c_type c \<noteq> SSH_CHANNEL_OPEN \<or> has_flag c (CHAN_CLOSE_SENT OR CHAN_CLOSE_RCVD)")
  case False
  define r where "r = (if c_istate c = CHAN_INPUT_OPEN \<or> c_istate c = CHAN_INPUT_WAIT_DRAIN
    then channel_output_poll_input_open pkt c else quiet c)"
  define f where "f c = (if \<not> has_flag c CHAN_EOF_SENT \<and> c_extended_usage c = CHAN_EXTENDED_READ
    then channel_output_poll_extended_read pkt c else quiet c)" for c
  have eq: "channel_output_poll1 pkt c = chan_seq r f"
    using False unfolding channel_output_poll1_def r_def f_def [abs_def] by simp
  have r: "sends_well m r" using assms output_poll_input_open_sends by (simp add: r_def)
  have no_close: "\<not> has_flag c CHAN_CLOSE_SENT" using False by simp
  show ?thesis
  proof (cases r)
    case (Inl e)
    then show ?thesis by (simp add: eq chan_seq_def)
  next
    case (Inr x)
    then obtain c' ms where x: "r = Inr (c', ms)" by (cases x) auto
    then have nc: "\<not> has_flag c' CHAN_CLOSE_SENT"
      using no_close output_poll_no_close by (auto simp: r_def split: if_splits)
    obtain m' where m': "mon_run m ms = Some m'" "chan_inv c' m'"
      using r x by (auto simp: sends_well_def split: option.splits)
    have "sends_well m' (f c')"
      using m'(2) nc chan_inv_may_send [OF m'(2)] output_poll_extended_read_sends [OF m'(2)]
      by (simp add: f_def)
    with m' show ?thesis
      by (auto simp: eq x chan_seq_def sends_well_def mon_run_append split: sum.splits)
  qed
qed (use assms in \<open>auto simp: channel_output_poll1_def\<close>)

lemma channel_input_data_sends: "chan_inv c m \<Longrightarrow> sends_well m (channel_input_data mux body c)"
  by (auto simp: channel_input_data_def Let_def  split: option.split sum.split)

lemma channel_input_extended_data_sends:
  "chan_inv c m \<Longrightarrow> sends_well m (channel_input_extended_data mux cmpt body c)"
  by (auto simp: channel_input_extended_data_def Let_def  split: option.split)

lemma channel_input_window_adjust_sends:
  "chan_inv c m \<Longrightarrow> sends_well m (channel_input_window_adjust mux body c)"
  by (auto simp: channel_input_window_adjust_def Let_def )

lemma channel_input_ieof_sends: "chan_inv c m \<Longrightarrow> sends_well m (channel_input_ieof pkt mux body c)"
proof -
  have "sends_well m' (if c_force_drain c \<and> c_istate c = CHAN_INPUT_OPEN
      then let c1 = c\<lparr>c_istate := CHAN_INPUT_WAIT_DRAIN\<rparr> in
           if length (c_input c1) = 0 then chan_ibuf_empty pkt c1 else quiet c1
      else quiet c)" if "chan_inv c m'" for c m'
  proof -
    have "c_istate c = 0 \<Longrightarrow> chan_inv (c\<lparr>c_istate := CHAN_INPUT_WAIT_DRAIN\<rparr>) m'"
      using that by (auto simp: chan_inv_def)
    with that show ?thesis by (auto simp: Let_def chan_ibuf_empty_sends)
  qed
  then show "chan_inv c m \<Longrightarrow> ?thesis"
    by (auto simp: channel_input_ieof_def chan_rcvd_ieof_sends intro!: sends_well_seq)
qed

lemma channel_input_oclose_sends: "chan_inv c m \<Longrightarrow> sends_well m (channel_input_oclose pkt mux body c)"
  by (auto simp: channel_input_oclose_def chan_rcvd_oclose_sends)

lemma read_fail_sends: "chan_inv c m \<Longrightarrow> sends_well m (read_fail c)"
  by (auto simp: read_fail_def chan_mark_dead_def chan_read_failed_sends)

lemma write_fail_sends: "chan_inv c m \<Longrightarrow> sends_well m (write_fail pkt cmpt c)"
  by (auto simp: write_fail_def chan_mark_dead_def chan_write_failed_sends)

lemma channel_handle_rfd_sends: "chan_inv c m \<Longrightarrow> sends_well m (channel_handle_rfd rd c)"
  unfolding channel_handle_rfd_def Let_def
  by (intro sends_well_cases) (simp_all only: sends_well_simps chan_inv_frame read_fail_sends)

lemma channel_handle_wfd_sends: "chan_inv c m \<Longrightarrow> sends_well m (channel_handle_wfd pkt cmpt wr noecho c)"
  unfolding channel_handle_wfd_def Let_def
  by (intro sends_well_cases)
    (simp_all only: sends_well_simps chan_inv_frame write_fail_sends, simp_all add: sends_well_def)

lemma channel_handle_efd_sends: "chan_inv c m \<Longrightarrow> sends_well m (channel_handle_efd rd wr c)"
  unfolding channel_handle_efd_def channel_handle_efd_write_def channel_handle_efd_read_def Let_def
  by (intro sends_well_cases) (simp_all only: sends_well_simps chan_inv_frame)

lemma channel_check_window_sends: "chan_inv c m \<Longrightarrow> sends_well m (channel_check_window pkt c)"
  by (auto simp: channel_check_window_def) (auto simp: chan_inv_def split: if_splits)

lemma channel_post_open_sends:
  "chan_inv c m \<Longrightarrow> sends_well m (channel_post_open pkt cmpt rd wr noecho erd ewr c)"
  unfolding channel_post_open_def
  by (intro sends_well_seq channel_handle_rfd_sends channel_handle_wfd_sends channel_handle_efd_sends
      channel_check_window_sends)

lemma channel_pre_open_sends:
  assumes "chan_inv c m"
  shows "sends_well m (channel_pre_open c)"
proof -
  define c0 where "c0 = c\<lparr>c_io_want := 0\<rparr>"
  define c1 where "c1 = (if c_istate c0 = CHAN_INPUT_OPEN \<and> c_remote_window c0 > 0 \<and>
      length (c_input c0) < unat (c_remote_window c0) \<and> length (c_input c0) + CHAN_RBUF \<le> CHAN_INPUT_MAX
    then c0\<lparr>c_io_want := c_io_want c0 OR SSH_CHAN_IO_RFD\<rparr> else c0)"
  have inv: "chan_inv c1 m" using assms by (simp add: c1_def c0_def)
  show ?thesis
    unfolding channel_pre_open_def Let_def c0_def [symmetric] c1_def [symmetric]
    by (intro sends_well_seq sends_well_cases)
      (simp_all only: sends_well_simps chan_inv_frame chan_obuf_empty_sends inv)
qed

subsection \<open>Runs of a channel\<close>

text \<open>Everything that can happen to an open channel, with what the environment does.\<close>

datatype chan_event =
    Ev_rcvd_eow
  | Ev_mark_dead
  | Ev_is_dead bool
  | Ev_output_poll
  | Ev_pre_open
  | Ev_post_open "nat \<Rightarrow> read_result" "byte list \<Rightarrow> write_result" bool "nat \<Rightarrow> read_result" "byte list \<Rightarrow> write_result"
  | Ev_data "byte list"
  | Ev_extended_data "byte list"
  | Ev_eof "byte list"
  | Ev_close "byte list"
  | Ev_window_adjust "byte list"

fun chan_step :: "bool \<Rightarrow> 32 word \<Rightarrow> bool \<Rightarrow> chan_event \<Rightarrow> channel \<Rightarrow> chan_result" where
  "chan_step pkt cmpt mux Ev_rcvd_eow c = chan_rcvd_eow c"
| "chan_step pkt cmpt mux Ev_mark_dead c = quiet (chan_mark_dead c)"
| "chan_step pkt cmpt mux (Ev_is_dead do_send) c =
     (case chan_is_dead pkt cmpt c do_send of Inl e \<Rightarrow> Inl e | Inr (dead, r) \<Rightarrow> Inr r)"
| "chan_step pkt cmpt mux Ev_output_poll c = channel_output_poll1 pkt c"
| "chan_step pkt cmpt mux Ev_pre_open c = channel_pre_open c"
| "chan_step pkt cmpt mux (Ev_post_open rd wr ne erd ewr) c = channel_post_open pkt cmpt rd wr ne erd ewr c"
| "chan_step pkt cmpt mux (Ev_data body) c = channel_input_data mux body c"
| "chan_step pkt cmpt mux (Ev_extended_data body) c = channel_input_extended_data mux cmpt body c"
| "chan_step pkt cmpt mux (Ev_eof body) c = channel_input_ieof pkt mux body c"
| "chan_step pkt cmpt mux (Ev_close body) c = channel_input_oclose pkt mux body c"
| "chan_step pkt cmpt mux (Ev_window_adjust body) c = channel_input_window_adjust mux body c"

fun chan_run :: "bool \<Rightarrow> 32 word \<Rightarrow> bool \<Rightarrow> chan_event list \<Rightarrow> channel \<Rightarrow> chan_result" where
  "chan_run pkt cmpt mux [] c = quiet c"
| "chan_run pkt cmpt mux (e # es) c = chan_seq (chan_step pkt cmpt mux e c) (chan_run pkt cmpt mux es)"

lemma chan_step_sends: "chan_inv c m \<Longrightarrow> sends_well m (chan_step pkt cmpt mux e c)"
proof (cases e)
  case (Ev_is_dead do_send)
  assume "chan_inv c m"
  with chan_is_dead_sends [OF this, of pkt cmpt do_send] Ev_is_dead show ?thesis
    by (auto split: sum.split)
qed (simp_all add: chan_rcvd_eow_sends chan_mark_dead_def output_poll1_sends channel_pre_open_sends
    channel_post_open_sends channel_input_data_sends channel_input_extended_data_sends
    channel_input_ieof_sends channel_input_oclose_sends channel_input_window_adjust_sends)

lemma chan_run_sends: "chan_inv c m \<Longrightarrow> sends_well m (chan_run pkt cmpt mux es c)"
  by (induction es arbitrary: c m) (auto intro: sends_well_seq chan_step_sends)

section \<open>Properties\<close>

definition example_chan :: channel where
  "example_chan = \<lparr>c_type = SSH_CHANNEL_OPEN, c_self = 0, c_remote_id = 7, c_have_remote_id = True,
     c_istate = CHAN_INPUT_OPEN, c_ostate = CHAN_OUTPUT_OPEN, c_flags = 0, c_rfd = 3, c_wfd = 3, c_efd = -1,
     c_sock = 3, c_io_want = 0, c_io_ready = SSH_CHAN_IO_RFD, c_pfds = [-1, -1, -1, -1], c_isatty = False,
     c_detach_close = False, c_force_drain = False, c_input = [1, 2, 3], c_output = [], c_extended = [],
     c_remote_window = 100, c_remote_maxpacket = 50, c_local_window = 100, c_local_window_exceeded = 0,
     c_local_window_max = 100, c_local_consumed = 0, c_local_maxpacket = 50, c_extended_usage = 0,
     c_ctype = ''session'', c_datagram = False\<rparr>"

text \<open>
  (C17) Whatever happens to a channel, the messages sent on it follow the connection protocol:
  data only before \<^verbatim>\<open>EOF\<close>, at most one \<^verbatim>\<open>EOF\<close>, at most one \<^verbatim>\<open>CLOSE\<close>, and after \<^verbatim>\<open>CLOSE\<close>
  neither data nor \<^verbatim>\<open>EOF\<close>, \<^verbatim>\<open>eow\<close> or window adjustments.
\<close>

theorem chan_run_monitor:
  assumes "c_istate c = CHAN_INPUT_OPEN" and "c_ostate c = CHAN_OUTPUT_OPEN"
    and "\<not> has_flag c (CHAN_CLOSE_SENT OR CHAN_EOF_SENT)"
    and "chan_run pkt cmpt mux es c = Inr (c', ms)"
  shows "mon_run M_open ms \<noteq> None"
proof -
  have "c_flags c AND 1 = 0 \<and> c_flags c AND 4 = 0"
  proof -
    have "c_flags c AND (CHAN_CLOSE_SENT OR CHAN_EOF_SENT) = 0" using assms(3) by simp
    then show ?thesis by (simp only: and_or_distrib or_eq_0_iff) simp
  qed
  then have "chan_inv c M_open" using assms(1,2) by (simp add: chan_inv_def)
  from chan_run_sends [OF this, of pkt cmpt mux es] assms(4) show ?thesis
    by (auto simp: sends_well_def split: option.splits)
qed

lemmas chan_eval = channel_output_poll1_def channel_output_poll_input_open_def channel_output_poll_extended_read_def
  channel_input_oclose_def proxied_def chan_rcvd_oclose_def chan_obuf_empty_def chan_is_dead_def chan_send_close2_def
  chan_shutdown_read_def chan_shutdown_extended_read_def chan_shutdown_write_def nchan_simps

theorem chan_run_monitor_witness:
  "\<exists>c'. chan_run True 0 False [Ev_output_poll, Ev_close [], Ev_is_dead True] example_chan =
     Inr (c', [Msg_data 7 [1, 2, 3]]) \<and> mon_run M_open [Msg_data 7 [1, 2, 3]] \<noteq> None"
proof -
  obtain c' where c': "chan_run True 0 False [Ev_output_poll, Ev_close [], Ev_is_dead True] example_chan =
      Inr (c', [Msg_data 7 [1, 2, 3]])"
    by (simp add: example_chan_def chan_eval)
  from chan_run_monitor [OF _ _ _ c'] c' show ?thesis by (auto simp: example_chan_def)
qed

text \<open>
  (C38) A channel whose peer has closed it goes away: after \<^verbatim>\<open>CLOSE\<close> is received, once the output
  is drained, \<^verbatim>\<open>chan_is_dead\<close> answers that the channel is dead, and the own \<^verbatim>\<open>CLOSE\<close> has been
  sent, then or before, but not twice.
\<close>

theorem chan_close_completes:
  assumes "chan_inv c m" and "c_type c \<notin> {SSH_CHANNEL_LARVAL, SSH_CHANNEL_ZOMBIE}" and "c_have_remote_id c"
    and "\<not> has_flag c CHAN_LOCAL" and "c_istate c \<noteq> CHAN_INPUT_WAIT_OCLOSE"
    and "c_ostate c \<noteq> CHAN_OUTPUT_WAIT_IEOF" and "cmpt AND SSH_BUG_EXTEOF = 0"
  shows "\<exists>c1 ms c2 c3. chan_rcvd_oclose True c = Inr (c1, ms) \<and>
    chan_obuf_empty (c1\<lparr>c_output := []\<rparr>) = Inr (c2, []) \<and>
    chan_is_dead True cmpt c2 True =
      Inr (True, c3, if has_flag c CHAN_CLOSE_SENT then [] else [Msg_close (c_remote_id c)])"
proof -
  have "c_istate c \<in> {0, 1, 3}" "c_ostate c \<in> {0, 1, 3}"
    using assms(1,5,6) by (auto simp: chan_inv_def)
  then show ?thesis
    using assms
    by (auto simp: chan_inv_def chan_rcvd_oclose_def chan_obuf_empty_def chan_is_dead_def chan_send_close2_def nchan_simps
        split: if_splits)
qed


theorem chan_close_completes_witness:
  "\<exists>c1 ms c2 c3. chan_rcvd_oclose True example_chan = Inr (c1, ms) \<and>
     chan_obuf_empty (c1\<lparr>c_output := []\<rparr>) = Inr (c2, []) \<and>
     chan_is_dead True 0 c2 True = Inr (True, c3, [Msg_close 7])"
  using chan_close_completes [of example_chan M_open 0]
  by (simp add: example_chan_def chan_inv_def)

lemma close_fd_fields:
  "c_rfd (fst (channel_close_fd s c)) = (if slot_fd s c = c_rfd c then -1 else c_rfd c)"
  "c_wfd (fst (channel_close_fd s c)) = (if slot_fd s c = c_wfd c \<and> s \<noteq> Rfd then -1 else c_wfd c)"
  "c_efd (fst (channel_close_fd s c)) = (if slot_fd s c = c_efd c \<and> s \<noteq> Rfd \<and> s \<noteq> Wfd then -1 else c_efd c)"
  "c_sock (fst (channel_close_fd s c)) = (if slot_fd s c = c_sock c \<and> s = Sock then -1 else c_sock c)"
  "snd (channel_close_fd s c) = (if slot_fd s c = -1 then [] else [slot_fd s c])"
  by (cases s; simp add: channel_close_fd_def clear_io_def Let_def)+

text \<open>
  (C39) \<^verbatim>\<open>channel_close_fds\<close> closes every descriptor of a channel exactly once, shared ones
  included, and marks them closed, with one exception: an extended descriptor that is also the
  read or the write descriptor of a channel without a socket is closed but keeps its number in
  \<^verbatim>\<open>efd\<close>.
\<close>

theorem channel_close_fds_once:
  assumes "c_sock c = (if c_rfd c = c_wfd c then c_rfd c else -1)"
    and "channel_close_fds c = (c', closed)"
  shows "distinct closed \<and> set closed = {c_rfd c, c_wfd c, c_efd c, c_sock c} - {-1} \<and>
    c_rfd c' = -1 \<and> c_wfd c' = -1 \<and> c_sock c' = -1 \<and>
    c_efd c' = (if c_rfd c \<noteq> c_wfd c \<and> (c_efd c = c_rfd c \<or> c_efd c = c_wfd c) then c_efd c else -1)"
proof -
  define c1 where "c1 = fst (channel_close_fd Sock c)"
  define c2 where "c2 = (if c_rfd c \<noteq> c_sock c then fst (channel_close_fd Rfd c1) else c1)"
  define c3 where "c3 = (if c_wfd c \<noteq> c_sock c \<and> c_wfd c \<noteq> c_rfd c then fst (channel_close_fd Wfd c2) else c2)"
  define c4 where "c4 = (if c_efd c \<noteq> c_sock c \<and> c_efd c \<noteq> c_rfd c \<and> c_efd c \<noteq> c_wfd c
    then fst (channel_close_fd Efd c3) else c3)"
  have "c' = c4" "closed = snd (channel_close_fd Sock c) @
      (if c_rfd c \<noteq> c_sock c then snd (channel_close_fd Rfd c1) else []) @
      (if c_wfd c \<noteq> c_sock c \<and> c_wfd c \<noteq> c_rfd c then snd (channel_close_fd Wfd c2) else []) @
      (if c_efd c \<noteq> c_sock c \<and> c_efd c \<noteq> c_rfd c \<and> c_efd c \<noteq> c_wfd c then snd (channel_close_fd Efd c3) else [])"
    using assms(2) unfolding channel_close_fds_def c1_def c2_def c3_def c4_def Let_def
    by (simp_all only: case_prod_beta prod.sel if_distrib [of fst] if_distrib [of snd] prod.inject if_cancel)
  moreover have f1: "c_rfd c1 = (if c_sock c = c_rfd c then -1 else c_rfd c)"
      "c_wfd c1 = (if c_sock c = c_wfd c then -1 else c_wfd c)"
      "c_efd c1 = (if c_sock c = c_efd c then -1 else c_efd c)" "c_sock c1 = -1"
    by (simp_all add: c1_def close_fd_fields)
  moreover have f2: "c_rfd c2 = -1" "c_wfd c2 = c_wfd c1" "c_efd c2 = c_efd c1" "c_sock c2 = -1"
    by (simp_all add: c2_def close_fd_fields f1)
  moreover have f3: "c_rfd c3 = -1" "c_wfd c3 = -1" "c_efd c3 = c_efd c1" "c_sock c3 = -1"
    using assms(1) by (auto simp: c3_def close_fd_fields f1 f2)
  moreover have "c_rfd c4 = -1" "c_wfd c4 = -1" "c_sock c4 = -1"
      "c_efd c4 = (if c_efd c \<noteq> c_sock c \<and> c_efd c \<noteq> c_rfd c \<and> c_efd c \<noteq> c_wfd c then -1 else c_efd c1)"
    by (simp_all add: c4_def close_fd_fields f1 f3)
  ultimately show ?thesis
    using assms(1) by (auto simp: close_fd_fields)
qed

theorem channel_close_fds_once_witness:
  "\<exists>c'. channel_close_fds (example_chan\<lparr>c_rfd := 4, c_wfd := 5, c_efd := 4, c_sock := -1\<rparr>) = (c', [4, 5]) \<and>
     c_efd c' = 4"
proof -
  obtain c' where c': "channel_close_fds (example_chan\<lparr>c_rfd := 4, c_wfd := 5, c_efd := 4, c_sock := -1\<rparr>) = (c', [4, 5])"
    by (simp add: channel_close_fds_def channel_close_fd_def clear_io_def example_chan_def Let_def)
  with channel_close_fds_once [OF _ c'] show ?thesis by simp
qed

end
