(* ===== verification/Channel_Link.thy ===== *)
theory Channel_Link
  imports Channel_IO
begin

unbundle bit_operations_syntax

text \<open>
  Two ends of a channel: the composition of the sending side of one endpoint with the receiving
  side of the other, through messages in flight.  Both ends are the modelled code.
  The flow control of the two ends is shown to agree: the receiver never sees more data than its
  window, no byte is lost, duplicated or reordered, and the sender is never left without window
  while nothing is in flight.
\<close>

section \<open>The system\<close>

record link =
  l_snd :: channel
  l_rcv :: channel
  l_data :: "byte list list"
  l_adj :: "32 word list"
  l_in :: "byte list"
  l_out :: "byte list"

fun msg_data :: "chan_msg \<Rightarrow> byte list list" where
  "msg_data (Msg_data _ p) = [p]"
| "msg_data _ = []"

fun msg_adj :: "chan_msg \<Rightarrow> 32 word list" where
  "msg_adj (Msg_window_adjust _ n) = [n]"
| "msg_adj _ = []"

text \<open>
  The steps: the sender reads its descriptor or sends, the receiver takes the next data message,
  writes to its descriptor or grants window, and the sender takes the next grant.  \<open>l_in\<close> is
  everything read, \<open>l_out\<close> everything written.
\<close>

inductive link_step :: "link \<Rightarrow> link \<Rightarrow> bool" where
  link_read: "channel_handle_rfd rd (l_snd l) = Inr (c, ms) \<Longrightarrow>
    link_step l (l\<lparr>l_snd := c, l_in := l_in l @ drop (length (c_input (l_snd l))) (c_input c)\<rparr>)"
| link_send: "channel_output_poll1 True (l_snd l) = Inr (c, ms) \<Longrightarrow>
    link_step l (l\<lparr>l_snd := c, l_data := l_data l @ concat (map msg_data ms)\<rparr>)"
| link_deliver: "l_data l = p # q \<Longrightarrow> channel_input_data False (enc_string p) (l_rcv l) = Inr (c, ms) \<Longrightarrow>
    link_step l (l\<lparr>l_rcv := c, l_data := q\<rparr>)"
| link_write: "channel_handle_wfd True cmpt wr noecho (l_rcv l) = Inr (c, ms) \<Longrightarrow> c_ostate c = CHAN_OUTPUT_OPEN \<Longrightarrow>
    link_step l (l\<lparr>l_rcv := c,
      l_out := l_out l @ take (length (c_output (l_rcv l)) - length (c_output c)) (c_output (l_rcv l))\<rparr>)"
| link_grant: "channel_check_window True (l_rcv l) = Inr (c, ms) \<Longrightarrow>
    link_step l (l\<lparr>l_rcv := c, l_adj := l_adj l @ concat (map msg_adj ms)\<rparr>)"
| link_adjust: "l_adj l = n # q \<Longrightarrow> channel_input_window_adjust False (POKE_U32 n) (l_snd l) = Inr (c, ms) \<Longrightarrow>
    link_step l (l\<lparr>l_snd := c, l_adj := q\<rparr>)"

definition in_flight :: "link \<Rightarrow> nat" where
  "in_flight l = sum_list (map length (l_data l)) + sum_list (map unat (l_adj l))"

definition link_inv :: "link \<Rightarrow> bool" where
  "link_inv l \<longleftrightarrow>
     c_type (l_snd l) = SSH_CHANNEL_OPEN \<and> \<not> c_datagram (l_snd l) \<and>
     c_extended_usage (l_snd l) \<noteq> CHAN_EXTENDED_READ \<and>
     c_type (l_rcv l) = SSH_CHANNEL_OPEN \<and> \<not> c_datagram (l_rcv l) \<and> c_ostate (l_rcv l) = CHAN_OUTPUT_OPEN \<and>
     c_remote_maxpacket (l_snd l) = c_local_maxpacket (l_rcv l) \<and>
     unat (c_local_maxpacket (l_rcv l)) \<le> SSHBUF_SIZE_MAX - 4 \<and>
     unat (c_local_window_max (l_rcv l)) \<le> SSHBUF_SIZE_MAX \<and>
     (\<forall>p \<in> set (l_data l). length p \<le> unat (c_local_maxpacket (l_rcv l))) \<and>
     unat (c_local_window (l_rcv l)) = unat (c_remote_window (l_snd l)) + in_flight l \<and>
     unat (c_local_window (l_rcv l)) + length (c_output (l_rcv l)) + unat (c_local_consumed (l_rcv l)) =
       unat (c_local_window_max (l_rcv l)) \<and>
     l_in l = l_out l @ c_output (l_rcv l) @ concat (l_data l) @ c_input (l_snd l)"

section \<open>Every step keeps the invariant\<close>

text \<open>What the other end of the link relies on in the sender.\<close>

definition same_window :: "channel \<Rightarrow> channel \<Rightarrow> bool" where
  "same_window c c' \<longleftrightarrow> c_type c' = c_type c \<and> c_datagram c' = c_datagram c \<and>
     c_extended_usage c' = c_extended_usage c \<and> c_remote_maxpacket c' = c_remote_maxpacket c"

lemma close_fd_window_frame [simp]:
  "c_datagram (fst (channel_close_fd s c)) = c_datagram c"
  "c_extended_usage (fst (channel_close_fd s c)) = c_extended_usage c"
  "c_remote_maxpacket (fst (channel_close_fd s c)) = c_remote_maxpacket c"
  "c_remote_window (fst (channel_close_fd s c)) = c_remote_window c"
  by (cases s; simp add: channel_close_fd_def clear_io_def Let_def)+

lemma same_window_refl [simp]: "same_window c c"
  by (simp add: same_window_def)

lemma read_fail_window:
  "read_fail c = Inr (c', ms) \<Longrightarrow> c_type c = SSH_CHANNEL_OPEN \<Longrightarrow>
   same_window c c' \<and> c_input c' = c_input c \<and> c_remote_window c' = c_remote_window c"
  by (auto simp: read_fail_def chan_read_failed_def chan_set_istate_def same_window_def chan_shutdown_read_def
      split: if_splits)

lemma handle_rfd_window:
  "channel_handle_rfd rd c = Inr (c', ms) \<Longrightarrow> c_type c = SSH_CHANNEL_OPEN \<Longrightarrow> \<not> c_datagram c \<Longrightarrow>
   same_window c c' \<and> (\<exists>d. c_input c' = c_input c @ d) \<and> c_remote_window c' = c_remote_window c"
  by (auto simp: channel_handle_rfd_def Let_def same_window_def [of c "c\<lparr>c_input := _\<rparr>"] dest: read_fail_window
      split: if_splits read_result.splits)

lemma link_read_inv:
  assumes "link_inv l" "channel_handle_rfd rd (l_snd l) = Inr (c, ms)"
  shows "link_inv (l\<lparr>l_snd := c, l_in := l_in l @ drop (length (c_input (l_snd l))) (c_input c)\<rparr>)"
  using assms handle_rfd_window [OF assms(2)]
  by (auto simp: link_inv_def in_flight_def same_window_def)

lemma ibuf_empty_window:
  "chan_ibuf_empty pkt c = Inr (c', ms) \<Longrightarrow>
   same_window c c' \<and> c_input c' = c_input c \<and> c_remote_window c' = c_remote_window c \<and> concat (map msg_data ms) = []"
  by (auto simp: chan_ibuf_empty_def nchan_simps same_window_def split: if_splits)

lemma if_less_min: "(if b < a then b else a) = min a (b :: nat)"
  by simp

lemma input_open_cases:
  assumes "channel_output_poll_input_open pkt c = Inr (c', ms)" "\<not> c_datagram c"
  obtains "c' = c" "ms = []" | "chan_ibuf_empty pkt c = Inr (c', ms)"
    | n where "n \<le> unat (c_remote_window c)" "n \<le> unat (c_remote_maxpacket c)" "n \<le> length (c_input c)"
        "c' = c\<lparr>c_input := drop n (c_input c), c_remote_window := c_remote_window c - of_nat n\<rparr>"
        "ms = [Msg_data (c_remote_id c) (take n (c_input c))]"
proof (cases "length (c_input c) = 0")
  case True
  then have "channel_output_poll_input_open pkt c = quiet c \<or> channel_output_poll_input_open pkt c = chan_ibuf_empty pkt c"
    unfolding channel_output_poll_input_open_def by (simp only: if_True split: if_split) simp
  then show thesis using assms(1) that(1,2) by (elim disjE) simp_all
next
  case False
  define n where "n = min (min (length (c_input c)) (unat (c_remote_window c))) (unat (c_remote_maxpacket c))"
  have "channel_output_poll_input_open pkt c =
      (if \<not> c_have_remote_id c then Inl Fatal else if n = 0 then quiet c else if \<not> pkt then Inl Fatal
       else Inr (c\<lparr>c_input := drop n (c_input c), c_remote_window := c_remote_window c - of_nat n\<rparr>,
                 [Msg_data (c_remote_id c) (take n (c_input c))]))"
    unfolding channel_output_poll_input_open_def Let_def if_less_min n_def using False assms(2) by (simp only: if_False)
  with assms(1) have "c' = c \<and> ms = [] \<or>
      c' = c\<lparr>c_input := drop n (c_input c), c_remote_window := c_remote_window c - of_nat n\<rparr> \<and>
      ms = [Msg_data (c_remote_id c) (take n (c_input c))]"
    by (simp only: split: if_split_asm) auto
  moreover have "n \<le> unat (c_remote_window c)" "n \<le> unat (c_remote_maxpacket c)" "n \<le> length (c_input c)"
    by (simp_all add: n_def)
  ultimately show thesis by (elim disjE conjE) (erule (1) that(1), erule (4) that(3))
qed

lemma input_open_window:
  assumes "channel_output_poll_input_open pkt c = Inr (c', ms)" "\<not> c_datagram c"
  obtains (nothing) "same_window c c'" "c_input c' = c_input c" "c_remote_window c' = c_remote_window c"
      "concat (map msg_data ms) = []"
  | (data) n where "same_window c c'" "n \<le> unat (c_remote_window c)" "n \<le> unat (c_remote_maxpacket c)"
      "c_input c' = drop n (c_input c)" "c_remote_window c' = c_remote_window c - of_nat n"
      "concat (map msg_data ms) = [take n (c_input c)]" "n \<le> length (c_input c)"
  using assms
proof (cases rule: input_open_cases)
  case 1
  then show thesis by - (rule nothing; simp)
next
  case 2
  from ibuf_empty_window [OF this] show thesis by (elim conjE) (rule nothing)
next
  case (3 n)
  then show thesis by - (rule data [of n]; simp add: same_window_def)
qed

lemma output_poll1_cases:
  assumes "c_extended_usage c \<noteq> CHAN_EXTENDED_READ" "\<not> c_datagram c" "channel_output_poll1 pkt c = Inr (c', ms)"
  shows "c' = c \<and> ms = [] \<or> channel_output_poll_input_open pkt c = Inr (c', ms)"
proof -
  have *: "channel_output_poll_input_open pkt c = Inr (d, ns) \<Longrightarrow> c_extended_usage d \<noteq> CHAN_EXTENDED_READ" for d ns
    by (erule input_open_window) (use assms(1,2) in \<open>simp_all add: same_window_def\<close>)
  show ?thesis
    using assms(1,3) * by (simp add: channel_output_poll1_def chan_seq_def split: if_split_asm sum.split_asm prod.split_asm)
qed

lemma output_poll1_window:
  assumes "channel_output_poll1 pkt c = Inr (c', ms)" "c_extended_usage c \<noteq> CHAN_EXTENDED_READ" "\<not> c_datagram c"
  obtains (nothing) "same_window c c'" "c_input c' = c_input c" "c_remote_window c' = c_remote_window c"
      "concat (map msg_data ms) = []"
  | (data) n where "same_window c c'" "n \<le> unat (c_remote_window c)" "n \<le> unat (c_remote_maxpacket c)"
      "c_input c' = drop n (c_input c)" "c_remote_window c' = c_remote_window c - of_nat n"
      "concat (map msg_data ms) = [take n (c_input c)]" "n \<le> length (c_input c)"
  using output_poll1_cases [OF assms(2,3,1)]
proof (elim disjE conjE)
  assume "channel_output_poll_input_open pkt c = Inr (c', ms)"
  from this assms(3) show thesis
  proof (cases rule: input_open_window)
    case nothing
    then show thesis by (rule that(1))
  next
    case (data n)
    then show thesis by (rule that(2))
  qed
next
  assume "c' = c" "ms = []"
  then show thesis by - (rule nothing; simp)
qed

lemma link_send_inv:
  assumes "link_inv l" "channel_output_poll1 True (l_snd l) = Inr (c, ms)"
  shows "link_inv (l\<lparr>l_snd := c, l_data := l_data l @ concat (map msg_data ms)\<rparr>)"
proof -
  have "c_extended_usage (l_snd l) \<noteq> CHAN_EXTENDED_READ" "\<not> c_datagram (l_snd l)"
    using assms(1) by (simp_all add: link_inv_def)
  from assms(2) this show ?thesis
  proof (cases rule: output_poll1_window)
    case (data n)
    then show ?thesis using assms(1) unat_sub_nat [OF data(2)]
      by (auto simp: link_inv_def in_flight_def same_window_def)
  qed (use assms(1) in \<open>auto simp: link_inv_def in_flight_def same_window_def\<close>)
qed

lemma link_deliver_inv:
  assumes "link_inv l" "l_data l = p # q"
  shows "\<exists>c. channel_input_data False (enc_string p) (l_rcv l) = Inr (c, []) \<and>
    c_output c = c_output (l_rcv l) @ p \<and> c_local_window_exceeded c = 0 \<and> link_inv (l\<lparr>l_rcv := c, l_data := q\<rparr>)"
proof -
  let ?r = "l_rcv l"
  define out where "out = c_output ?r @ p"
  define c where "c = ?r\<lparr>c_local_window := c_local_window ?r - of_nat (length p), c_local_window_exceeded := 0, c_output := out\<rparr>"
  have p: "length p \<le> unat (c_local_maxpacket ?r)" "length p \<le> SSHBUF_SIZE_MAX - 4" "length p \<le> unat (c_local_window ?r)"
    using assms by (auto simp: link_inv_def in_flight_def)
  have out: "length (c_output ?r) + length p \<le> SSHBUF_SIZE_MAX"
    using assms p by (auto simp: link_inv_def)
  have "channel_input_data False (enc_string p) ?r = Inr (c, [])"
    using assms(1) p out
    by (simp add: channel_input_data_def proxied_def get_enc_str link_inv_def buf_put_def c_def out_def)
  moreover have "link_inv (l\<lparr>l_rcv := c, l_data := q\<rparr>)"
    using assms p(3) by (auto simp: link_inv_def c_def out_def in_flight_def unat_sub_nat)
  ultimately show ?thesis by (intro exI [of _ c]) (simp add: c_def out_def)
qed

lemma link_adjust_inv:
  assumes "link_inv l" "l_adj l = n # q"
  shows "\<exists>c. channel_input_window_adjust False (POKE_U32 n) (l_snd l) = Inr (c, []) \<and>
    unat (c_remote_window c) = unat (c_remote_window (l_snd l)) + unat n \<and> link_inv (l\<lparr>l_snd := c, l_adj := q\<rparr>)"
proof -
  let ?s = "l_snd l"
  define c where "c = ?s\<lparr>c_remote_window := c_remote_window ?s + n\<rparr>"
  have "unat (c_remote_window ?s) + unat n \<le> unat (c_local_window (l_rcv l))"
    using assms by (simp add: link_inv_def in_flight_def)
  also have "\<dots> < 2 ^ 32" by (rule unat_less_32)
  finally have sum: "unat (c_remote_window ?s + n) = unat (c_remote_window ?s) + unat n"
    by (simp add: unat_plus_if')
  then have "\<not> c_remote_window ?s + n < c_remote_window ?s" by (simp add: word_less_nat_alt)
  then have "channel_input_window_adjust False (POKE_U32 n) ?s = Inr (c, [])"
    using PEEK_POKE_U32 [of n "[]"] by (simp add: channel_input_window_adjust_def proxied_def c_def Let_def)
  moreover have "link_inv (l\<lparr>l_snd := c, l_adj := q\<rparr>)"
    using assms sum by (auto simp: link_inv_def c_def in_flight_def)
  ultimately show ?thesis using sum by (intro exI [of _ c]) (simp add: c_def)
qed

lemma link_grant_inv:
  assumes "link_inv l" "channel_check_window True (l_rcv l) = Inr (c, ms)"
  shows "link_inv (l\<lparr>l_rcv := c, l_adj := l_adj l @ concat (map msg_adj ms)\<rparr>)"
proof -
  let ?r = "l_rcv l"
  have "unat (c_local_window ?r) + unat (c_local_consumed ?r) \<le> unat (c_local_window_max ?r)"
    using assms(1) by (simp add: link_inv_def)
  also have "\<dots> < 2 ^ 32" by (rule unat_less_32)
  finally have "unat (c_local_window ?r + c_local_consumed ?r) = unat (c_local_window ?r) + unat (c_local_consumed ?r)"
    by (simp add: unat_plus_if')
  then show ?thesis
    using assms by (auto simp: channel_check_window_def link_inv_def in_flight_def split: if_splits)
qed

definition same_grant :: "channel \<Rightarrow> channel \<Rightarrow> bool" where
  "same_grant c c' \<longleftrightarrow> c_type c' = c_type c \<and> c_datagram c' = c_datagram c \<and> c_ostate c' = c_ostate c \<and>
     c_local_maxpacket c' = c_local_maxpacket c \<and> c_local_window c' = c_local_window c \<and>
     c_local_window_max c' = c_local_window_max c"

lemma write_fail_ostate:
  "write_fail pkt cmpt c = Inr (c', ms) \<Longrightarrow> c_type c = SSH_CHANNEL_OPEN \<Longrightarrow> c_ostate c = CHAN_OUTPUT_OPEN \<Longrightarrow>
   c_ostate c' \<noteq> CHAN_OUTPUT_OPEN"
  by (auto simp: write_fail_def chan_write_failed_def nchan_simps chan_send_eow2_def Let_def
      split: if_splits)

lemma handle_wfd_cases:
  assumes "channel_handle_wfd pkt cmpt wr noecho c = Inr (c', ms)" "\<not> c_datagram c"
  shows "c' = c \<or> write_fail pkt cmpt c = Inr (c', ms) \<or>
    (\<exists>n \<le> length (c_output c). c' = c\<lparr>c_output := drop n (c_output c), c_local_consumed := c_local_consumed c + of_nat n\<rparr>)"
proof (cases "c_io_ready c AND SSH_CHAN_IO_WFD = 0 \<or> length (c_output c) = 0")
  case True
  then have "channel_handle_wfd pkt cmpt wr noecho c = quiet c"
    by (elim disjE) (simp_all add: channel_handle_wfd_def)
  then show ?thesis using assms(1) by simp
next
  case False
  then have eq: "channel_handle_wfd pkt cmpt wr noecho c = (case wr (c_output c) of
      Write_again \<Rightarrow> quiet c | Write_failed \<Rightarrow> write_fail pkt cmpt c | Wrote 0 \<Rightarrow> write_fail pkt cmpt c
    | Wrote (Suc k) \<Rightarrow>
        let n = min (Suc k) (length (c_output c)); echo = (c_isatty c \<and> c_output c ! 0 \<noteq> 13 \<and> noecho) in
        if echo \<and> \<not> pkt then Inl Fatal
        else Inr (c\<lparr>c_output := drop n (c_output c), c_local_consumed := c_local_consumed c + of_nat n\<rparr>,
                  if echo then [Msg_ignore (4 + n)] else []))"
    using assms(2) by (auto simp: channel_handle_wfd_def Let_def split: write_result.split nat.split)
  show ?thesis
  proof (cases "wr (c_output c)")
    case (Wrote k)
    show ?thesis
    proof (cases k)
      case (Suc j)
      define n where "n = min (Suc j) (length (c_output c))"
      have "c' = c\<lparr>c_output := drop n (c_output c), c_local_consumed := c_local_consumed c + of_nat n\<rparr>"
        using assms(1) unfolding eq Wrote Suc by (simp add: Let_def n_def del: min_Suc_Suc split: if_splits)
      then show ?thesis by (intro disjI2 exI [of _ n]) (simp add: n_def)
    qed (use assms(1) Wrote in \<open>simp add: eq\<close>)
  qed (use assms(1) in \<open>simp_all add: eq\<close>)
qed

lemma handle_wfd_window:
  assumes "channel_handle_wfd pkt cmpt wr noecho c = Inr (c', ms)" "c_ostate c' = CHAN_OUTPUT_OPEN"
    "c_type c = SSH_CHANNEL_OPEN" "c_ostate c = CHAN_OUTPUT_OPEN" "\<not> c_datagram c"
  shows "\<exists>n \<le> length (c_output c). same_grant c c' \<and> c_output c' = drop n (c_output c) \<and>
    c_local_consumed c' = c_local_consumed c + of_nat n"
  using handle_wfd_cases [OF assms(1,5)]
proof (elim disjE exE conjE)
  assume "write_fail pkt cmpt c = Inr (c', ms)"
  then show ?thesis using assms(2-4) write_fail_ostate by blast
qed (auto simp: same_grant_def intro: exI [of _ 0])

lemma link_write_inv:
  assumes "link_inv l" "channel_handle_wfd True cmpt wr noecho (l_rcv l) = Inr (c, ms)" "c_ostate c = CHAN_OUTPUT_OPEN"
  shows "link_inv (l\<lparr>l_rcv := c,
      l_out := l_out l @ take (length (c_output (l_rcv l)) - length (c_output c)) (c_output (l_rcv l))\<rparr>)"
proof -
  let ?r = "l_rcv l"
  from assms obtain n where n: "same_grant ?r c" "n \<le> length (c_output ?r)" "c_output c = drop n (c_output ?r)"
    "c_local_consumed c = c_local_consumed ?r + of_nat n"
    using handle_wfd_window [OF assms(2,3)] by (auto simp: link_inv_def)
  have "unat (c_local_consumed ?r) + n \<le> unat (c_local_window_max ?r)" using assms(1) n(2) by (simp add: link_inv_def)
  also have "\<dots> < 2 ^ 32" by (rule unat_less_32)
  finally have "unat (c_local_consumed c) = unat (c_local_consumed ?r) + n" using n(4) unat_add_nat by simp
  then show ?thesis using assms(1) n(1-3) by (auto simp: link_inv_def in_flight_def same_grant_def)
qed

lemma link_step_inv: "link_step l l' \<Longrightarrow> link_inv l \<Longrightarrow> link_inv l'"
proof (induction rule: link_step.induct)
  case (link_deliver l p q c ms)
  then show ?case using link_deliver_inv [of l p q] by auto
next
  case (link_adjust l n q c ms)
  then show ?case using link_adjust_inv [of l n q] by auto
qed (simp_all add: link_read_inv link_send_inv link_write_inv link_grant_inv)

lemma link_reach_inv: "link_step\<^sup>*\<^sup>* l l' \<Longrightarrow> link_inv l \<Longrightarrow> link_inv l'"
  by (induction rule: rtranclp_induct) (auto intro: link_step_inv)

section \<open>Every byte can be delivered\<close>

text \<open>A sender that may still send, a receiver that may still write and grant.\<close>

definition can_send :: "channel \<Rightarrow> bool" where
  "can_send c \<longleftrightarrow> (c_istate c = CHAN_INPUT_OPEN \<or> c_istate c = CHAN_INPUT_WAIT_DRAIN) \<and>
     \<not> has_flag c (CHAN_CLOSE_SENT OR CHAN_CLOSE_RCVD) \<and> c_have_remote_id c \<and> c_remote_maxpacket c > 0"

definition can_write :: "channel \<Rightarrow> bool" where
  "can_write c \<longleftrightarrow> c_io_ready c AND SSH_CHAN_IO_WFD \<noteq> 0 \<and>
     \<not> has_flag c (CHAN_CLOSE_SENT OR CHAN_CLOSE_RCVD) \<and> c_have_remote_id c \<and> c_local_window_max c \<ge> 2"

definition link_live :: "link \<Rightarrow> bool" where
  "link_live l \<longleftrightarrow> link_inv l \<and> can_send (l_snd l) \<and> can_write (l_rcv l)"

definition link_idle :: "link \<Rightarrow> link \<Rightarrow> bool" where
  "link_idle l l' \<longleftrightarrow> link_step\<^sup>*\<^sup>* l l' \<and> link_live l' \<and> l_in l' = l_in l \<and> c_input (l_snd l') = c_input (l_snd l)"

lemma link_idle_trans: "link_idle l l' \<Longrightarrow> link_idle l' l'' \<Longrightarrow> link_idle l l''"
  by (auto simp: link_idle_def)

lemma deliver_all: "link_live l \<Longrightarrow> \<exists>l'. link_idle l l' \<and> l_data l' = []"
proof (induction "l_data l" arbitrary: l)
  case Nil
  then show ?case by (intro exI [of _ l]) (simp add: link_idle_def)
next
  case (Cons p q)
  from Cons.prems Cons.hyps(2) link_deliver_inv [of l p q] obtain c where
    c: "channel_input_data False (enc_string p) (l_rcv l) = Inr (c, [])" "link_inv (l\<lparr>l_rcv := c, l_data := q\<rparr>)"
    by (auto simp: link_live_def)
  define m where "m = l\<lparr>l_rcv := c, l_data := q\<rparr>"
  have "can_write c" using Cons.prems c(1)
    by (auto simp: link_live_def can_write_def channel_input_data_def Let_def split: if_splits option.splits)
  then have "link_idle l m"
    using link_step.link_deliver [OF Cons.hyps(2) [symmetric] c(1)] Cons.prems c(2)
    by (auto simp: link_idle_def link_live_def m_def)
  moreover have "\<exists>l'. link_idle m l' \<and> l_data l' = []"
    using calculation by (intro Cons.hyps(1)) (simp_all add: m_def link_idle_def)
  ultimately show ?case using link_idle_trans by blast
qed

lemma adjust_all: "link_live l \<Longrightarrow> \<exists>l'. link_idle l l' \<and> l_adj l' = [] \<and> l_data l' = l_data l \<and> l_rcv l' = l_rcv l"
proof (induction "l_adj l" arbitrary: l)
  case Nil
  then show ?case by (intro exI [of _ l]) (simp add: link_idle_def)
next
  case (Cons n q)
  from Cons.prems Cons.hyps(2) link_adjust_inv [of l n q] obtain c where
    c: "channel_input_window_adjust False (POKE_U32 n) (l_snd l) = Inr (c, [])" "link_inv (l\<lparr>l_snd := c, l_adj := q\<rparr>)"
    by (auto simp: link_live_def)
  define m where "m = l\<lparr>l_snd := c, l_adj := q\<rparr>"
  have "can_send c \<and> c_input c = c_input (l_snd l)" using Cons.prems c(1)
    by (auto simp: link_live_def can_send_def channel_input_window_adjust_def Let_def split: if_splits)
  then have "link_idle l m"
    using link_step.link_adjust [OF Cons.hyps(2) [symmetric] c(1)] Cons.prems c(2)
    by (auto simp: link_idle_def link_live_def m_def)
  moreover have "\<exists>l'. link_idle m l' \<and> l_adj l' = [] \<and> l_data l' = l_data m \<and> l_rcv l' = l_rcv m"
    using calculation by (intro Cons.hyps(1)) (simp_all add: m_def link_idle_def)
  ultimately show ?case using link_idle_trans by (fastforce simp: m_def)
qed

lemma write_all:
  assumes "link_live l"
  shows "\<exists>l'. link_idle l l' \<and> c_output (l_rcv l') = [] \<and> l_data l' = l_data l"
proof (cases "c_output (l_rcv l) = []")
  case True
  then show ?thesis using assms by (intro exI [of _ l]) (simp add: link_idle_def)
next
  case False
  let ?r = "l_rcv l"
  define c where "c = ?r\<lparr>c_output := [], c_local_consumed := c_local_consumed ?r + of_nat (length (c_output ?r))\<rparr>"
  obtain k where k: "length (c_output ?r) = Suc k" using False by (cases "c_output ?r") auto
  have c: "channel_handle_wfd True 0 (\<lambda>b. Wrote (length b)) False ?r = Inr (c, [])" "c_ostate c = CHAN_OUTPUT_OPEN"
    using assms k by (simp_all add: channel_handle_wfd_def c_def link_live_def link_inv_def can_write_def)
  define m where "m = l\<lparr>l_rcv := c, l_out := l_out l @ take (length (c_output (l_rcv l)) - length (c_output c)) (c_output (l_rcv l))\<rparr>"
  have "link_step l m" unfolding m_def by (rule link_step.link_write [OF c])
  moreover have "can_write c" using assms by (simp add: can_write_def c_def link_live_def)
  ultimately have "link_idle l m"
    using link_write_inv [OF _ c] assms by (auto simp: link_idle_def link_live_def m_def)
  then show ?thesis by (intro exI [of _ m]) (simp add: m_def c_def)
qed

lemma grant_all:
  assumes "link_live l"
  shows "\<exists>l'. link_idle l l' \<and> c_output (l_rcv l') = c_output (l_rcv l) \<and> l_data l' = l_data l \<and>
    (c_local_consumed (l_rcv l') = 0 \<or> c_local_window_max (l_rcv l') div 2 \<le> c_local_window (l_rcv l'))"
proof (cases "c_local_window (l_rcv l) < c_local_window_max (l_rcv l) div 2 \<and> c_local_consumed (l_rcv l) > 0")
  case False
  then show ?thesis using assms by (intro exI [of _ l]) (auto simp: link_idle_def word_gt_0)
next
  case True
  let ?r = "l_rcv l"
  define c where "c = ?r\<lparr>c_local_window := c_local_window ?r + c_local_consumed ?r, c_local_consumed := 0\<rparr>"
  have c: "channel_check_window True ?r = Inr (c, [Msg_window_adjust (c_remote_id ?r) (c_local_consumed ?r)])"
    using assms True by (simp add: channel_check_window_def c_def link_live_def link_inv_def can_write_def)
  define m where "m = l\<lparr>l_rcv := c, l_adj := l_adj l @ concat (map msg_adj [Msg_window_adjust (c_remote_id ?r) (c_local_consumed ?r)])\<rparr>"
  have "link_step l m" unfolding m_def by (rule link_step.link_grant [OF c])
  moreover have "can_write c" using assms by (simp add: can_write_def c_def link_live_def)
  moreover have "link_inv m" unfolding m_def using assms c by (intro link_grant_inv) (simp add: link_live_def)
  ultimately have "link_idle l m" using assms by (auto simp: link_idle_def link_live_def m_def)
  then show ?thesis by (intro exI [of _ m]) (simp add: m_def c_def)
qed

text \<open>When nothing is in flight and the receiver has nothing left to grant, the sender has window.\<close>

lemma window_left:
  assumes "link_live l" "l_data l = []" "l_adj l = []" "c_output (l_rcv l) = []"
    "c_local_consumed (l_rcv l) = 0 \<or> c_local_window_max (l_rcv l) div 2 \<le> c_local_window (l_rcv l)"
  shows "unat (c_remote_window (l_snd l)) > 0"
proof -
  have "unat (c_local_window_max (l_rcv l)) \<ge> 2"
    using assms(1) by (simp add: link_live_def can_write_def word_le_nat_alt)
  then have "unat (c_local_window_max (l_rcv l) div 2) > 0" by (simp add: unat_div)
  then have "unat (c_local_window (l_rcv l)) > 0"
    using assms \<open>unat (c_local_window_max (l_rcv l)) \<ge> 2\<close>
    by (auto simp: link_live_def link_inv_def word_le_nat_alt)
  then show ?thesis using assms by (simp add: link_live_def link_inv_def in_flight_def)
qed

lemma send_some:
  assumes "link_live l" "unat (c_remote_window (l_snd l)) > 0" "c_input (l_snd l) \<noteq> []"
  shows "\<exists>l'. link_step l l' \<and> link_live l' \<and> l_in l' = l_in l \<and>
    length (c_input (l_snd l')) < length (c_input (l_snd l))"
proof -
  let ?s = "l_snd l"
  define n where "n = min (min (length (c_input ?s)) (unat (c_remote_window ?s))) (unat (c_remote_maxpacket ?s))"
  define c where "c = ?s\<lparr>c_input := drop n (c_input ?s), c_remote_window := c_remote_window ?s - of_nat n\<rparr>"
  have s: "c_type ?s = SSH_CHANNEL_OPEN" "\<not> c_datagram ?s" "c_extended_usage ?s \<noteq> CHAN_EXTENDED_READ" "can_send ?s"
    using assms(1) by (simp_all add: link_live_def link_inv_def)
  have n: "n > 0" using assms(2,3) s(4) by (simp add: n_def can_send_def word_less_nat_alt)
  have "channel_output_poll_input_open True ?s = Inr (c, [Msg_data (c_remote_id ?s) (take n (c_input ?s))])"
    unfolding channel_output_poll_input_open_def Let_def if_less_min n_def [symmetric]
    using s n assms(3) by (simp add: c_def can_send_def)
  then have poll: "channel_output_poll1 True ?s = Inr (c, [Msg_data (c_remote_id ?s) (take n (c_input ?s))])"
    using s by (auto simp: channel_output_poll1_def chan_seq_def can_send_def c_def)
  define m where "m = l\<lparr>l_snd := c, l_data := l_data l @ concat (map msg_data [Msg_data (c_remote_id ?s) (take n (c_input ?s))])\<rparr>"
  have "link_step l m" unfolding m_def by (rule link_step.link_send [OF poll])
  moreover have "link_inv m" unfolding m_def using assms(1) by (intro link_send_inv poll) (simp add: link_live_def)
  moreover have "can_send c" using s(4) by (simp add: can_send_def c_def)
  moreover have "length (c_input (l_snd m)) < length (c_input ?s)" using n assms(3) by (simp add: m_def c_def)
  ultimately show ?thesis using assms(1) by (intro exI [of _ m]) (simp add: link_live_def m_def)
qed

lemma link_round:
  assumes "link_live l"
  shows "\<exists>l'. link_idle l l' \<and> l_data l' = [] \<and> c_output (l_rcv l') = [] \<and> unat (c_remote_window (l_snd l')) > 0"
proof -
  from deliver_all [OF assms] obtain l1 where 1: "link_idle l l1" "l_data l1 = []" by blast
  from write_all [of l1] 1 obtain l2 where 2: "link_idle l1 l2" "l_data l2 = []" "c_output (l_rcv l2) = []"
    by (auto simp: link_idle_def)
  from grant_all [of l2] 2 obtain l3 where 3: "link_idle l2 l3" "l_data l3 = []" "c_output (l_rcv l3) = []"
    "c_local_consumed (l_rcv l3) = 0 \<or> c_local_window_max (l_rcv l3) div 2 \<le> c_local_window (l_rcv l3)"
    by (auto simp: link_idle_def)
  from adjust_all [of l3] 3 obtain l4 where 4: "link_idle l3 l4" "l_adj l4 = []" "l_data l4 = []" "l_rcv l4 = l_rcv l3"
    by (auto simp: link_idle_def)
  have "unat (c_remote_window (l_snd l4)) > 0"
    using 3 4 by (intro window_left) (auto simp: link_idle_def)
  moreover have "link_idle l l4" using 1 2 3 4 link_idle_trans by blast
  ultimately show ?thesis using 3 4 by auto
qed

lemma link_drain: "link_live l \<Longrightarrow> \<exists>l'. link_step\<^sup>*\<^sup>* l l' \<and> l_in l' = l_in l \<and> l_out l' = l_in l"
proof (induction "length (c_input (l_snd l))" arbitrary: l rule: less_induct)
  case less
  from link_round [OF less.prems] obtain m where m: "link_idle l m" "l_data m = []" "c_output (l_rcv m) = []"
    "unat (c_remote_window (l_snd m)) > 0" by blast
  show ?case
  proof (cases "c_input (l_snd m) = []")
    case True
    then have "l_in m = l_out m" using m by (simp add: link_idle_def link_live_def link_inv_def)
    then show ?thesis using m(1) by (auto simp: link_idle_def)
  next
    case False
    with m send_some [of m] obtain k where k: "link_step m k" "link_live k" "l_in k = l_in m"
      "length (c_input (l_snd k)) < length (c_input (l_snd l))"
      by (auto simp: link_idle_def)
    from less.hyps [OF k(4,2)] obtain l' where "link_step\<^sup>*\<^sup>* k l'" "l_in l' = l_in k" "l_out l' = l_in k" by blast
    moreover have "link_step\<^sup>*\<^sup>* l k" using m(1) k(1) by (auto simp: link_idle_def)
    ultimately show ?thesis using m(1) k(3) by (auto simp: link_idle_def intro: rtranclp_trans)
  qed
qed

section \<open>The theorems\<close>

text \<open>
  Two ends of a freshly opened channel: the window and packet size the receiver announced are the
  ones the sender recorded, and fit a buffer.
\<close>

definition link_start :: "channel \<Rightarrow> channel \<Rightarrow> link" where
  "link_start s r = \<lparr>l_snd = s, l_rcv = r, l_data = [], l_adj = [], l_in = c_input s, l_out = []\<rparr>"

definition channel_pair :: "channel \<Rightarrow> channel \<Rightarrow> bool" where
  "channel_pair s r \<longleftrightarrow>
     c_type s = SSH_CHANNEL_OPEN \<and> \<not> c_datagram s \<and> c_extended_usage s \<noteq> CHAN_EXTENDED_READ \<and>
     c_type r = SSH_CHANNEL_OPEN \<and> \<not> c_datagram r \<and> c_ostate r = CHAN_OUTPUT_OPEN \<and>
     c_remote_maxpacket s = c_local_maxpacket r \<and> unat (c_local_maxpacket r) \<le> SSHBUF_SIZE_MAX - 4 \<and>
     c_remote_window s = c_local_window_max r \<and> c_local_window r = c_local_window_max r \<and>
     unat (c_local_window_max r) \<le> SSHBUF_SIZE_MAX \<and> c_local_consumed r = 0 \<and> c_output r = []"

lemma link_start_inv: "channel_pair s r \<Longrightarrow> link_inv (link_start s r)"
  by (simp add: channel_pair_def link_inv_def link_start_def in_flight_def)



definition example_rcv :: channel where
  "example_rcv = example_chan\<lparr>c_input := [], c_io_ready := SSH_CHAN_IO_WFD\<rparr>"

lemma example_pair: "channel_pair example_chan example_rcv"
  by (simp add: channel_pair_def example_chan_def example_rcv_def SSHBUF_SIZE_MAX_def)

lemma example_sent:
  "link_step (link_start example_chan example_rcv)
     (link_start example_chan example_rcv\<lparr>l_snd := example_chan\<lparr>c_input := [], c_remote_window := 97\<rparr>, l_data := [[1, 2, 3]]\<rparr>)"
proof -
  have "channel_output_poll1 True example_chan =
      Inr (example_chan\<lparr>c_input := [], c_remote_window := 97\<rparr>, [Msg_data 7 [1, 2, 3]])"
    by (simp add: example_chan_def chan_eval)
  then show ?thesis
    using link_step.link_send [of "link_start example_chan example_rcv"] by (simp add: link_start_def)
qed



end
