(* ===== verification/Mac.thy ===== *)
theory Mac
  imports Hmac Sshbuf_GetPut Match
begin

unbundle bit_operations_syntax

text \<open>
  Message authentication codes of packets, from \<^verbatim>\<open>mac.c\<close>.  The tags of UMAC are an argument next to
  the hash functions.  A MAC that has been set up and given its key checks exactly what it computes.
\<close>

section \<open>The table\<close>

record mac_ops =
  mo_md :: md_ops
  mo_umac :: "byte list \<Rightarrow> byte list \<Rightarrow> byte list \<Rightarrow> byte list"
  mo_umac128 :: "byte list \<Rightarrow> byte list \<Rightarrow> byte list \<Rightarrow> byte list"
  mo_alloc :: bool

datatype mac_type = SSH_DIGEST | SSH_UMAC | SSH_UMAC128

record macalg =
  ma_name :: string
  ma_type :: mac_type
  ma_alg :: int
  ma_truncatebits :: nat
  ma_key_len :: nat
  ma_len :: nat
  ma_etm :: bool

abbreviation mac_row :: "string \<Rightarrow> mac_type \<Rightarrow> int \<Rightarrow> nat \<Rightarrow> nat \<Rightarrow> nat \<Rightarrow> bool \<Rightarrow> macalg" where
  "mac_row n t a tb kl l e \<equiv>
     \<lparr>ma_name = n, ma_type = t, ma_alg = a, ma_truncatebits = tb, ma_key_len = kl, ma_len = l, ma_etm = e\<rparr>"

definition macs :: "macalg list" where
  "macs =
     [mac_row ''hmac-sha1'' SSH_DIGEST SSH_DIGEST_SHA1 0 0 0 False,
      mac_row ''hmac-sha1-96'' SSH_DIGEST SSH_DIGEST_SHA1 96 0 0 False,
      mac_row ''hmac-sha2-256'' SSH_DIGEST SSH_DIGEST_SHA256 0 0 0 False,
      mac_row ''hmac-sha2-512'' SSH_DIGEST SSH_DIGEST_SHA512 0 0 0 False,
      mac_row ''hmac-md5'' SSH_DIGEST SSH_DIGEST_MD5 0 0 0 False,
      mac_row ''hmac-md5-96'' SSH_DIGEST SSH_DIGEST_MD5 96 0 0 False,
      mac_row ''umac-64@openssh.com'' SSH_UMAC 0 0 128 64 False,
      mac_row ''umac-128@openssh.com'' SSH_UMAC128 0 0 128 128 False,
      mac_row ''hmac-sha1-etm@openssh.com'' SSH_DIGEST SSH_DIGEST_SHA1 0 0 0 True,
      mac_row ''hmac-sha1-96-etm@openssh.com'' SSH_DIGEST SSH_DIGEST_SHA1 96 0 0 True,
      mac_row ''hmac-sha2-256-etm@openssh.com'' SSH_DIGEST SSH_DIGEST_SHA256 0 0 0 True,
      mac_row ''hmac-sha2-512-etm@openssh.com'' SSH_DIGEST SSH_DIGEST_SHA512 0 0 0 True,
      mac_row ''hmac-md5-etm@openssh.com'' SSH_DIGEST SSH_DIGEST_MD5 0 0 0 True,
      mac_row ''hmac-md5-96-etm@openssh.com'' SSH_DIGEST SSH_DIGEST_MD5 96 0 0 True,
      mac_row ''umac-64-etm@openssh.com'' SSH_UMAC 0 0 128 64 True,
      mac_row ''umac-128-etm@openssh.com'' SSH_UMAC128 0 0 128 128 True]"

definition mac_alg_list :: "char \<Rightarrow> string" where
  "mac_alg_list sep = (case map ma_name macs of [] \<Rightarrow> [] | n # ns \<Rightarrow> n @ concat (map (\<lambda>m. sep # m) ns))"

section \<open>Setting up\<close>

record sshmac =
  mc_name :: "string option"
  mc_enabled :: bool
  mc_mac_len :: nat
  mc_key :: "byte list option"
  mc_key_len :: nat
  mc_type :: mac_type
  mc_etm :: bool
  mc_hmac_ctx :: "ssh_hmac_ctx option"
  mc_umac_ctx :: "byte list option"

definition mac_setup_by_alg :: "mac_ops \<Rightarrow> sshmac \<Rightarrow> macalg \<Rightarrow> ssh_err + sshmac" where
  "mac_setup_by_alg P mac m =
     (let mac = mac\<lparr>mc_type := ma_type m\<rparr> in
      case (if mc_type mac = SSH_DIGEST
            then (case ssh_hmac_start (mo_md P) (ma_alg m) of
                    None \<Rightarrow> Inl SSH_ERR_ALLOC_FAIL
                  | Some h \<Rightarrow> Inr (mac\<lparr>mc_hmac_ctx := Some h, mc_key_len := ssh_hmac_bytes (ma_alg m),
                                      mc_mac_len := ssh_hmac_bytes (ma_alg m)\<rparr>))
            else Inr (mac\<lparr>mc_mac_len := ma_len m div 8, mc_key_len := ma_key_len m div 8, mc_umac_ctx := None\<rparr>)) of
        Inl e \<Rightarrow> Inl e
      | Inr mac \<Rightarrow>
          let mac = (if ma_truncatebits m \<noteq> 0 then mac\<lparr>mc_mac_len := ma_truncatebits m div 8\<rparr> else mac)
          in Inr (mac\<lparr>mc_etm := ma_etm m\<rparr>))"

fun mac_setup_loop :: "mac_ops \<Rightarrow> sshmac option \<Rightarrow> string \<Rightarrow> macalg list \<Rightarrow> ssh_err + sshmac option" where
  "mac_setup_loop P mac name [] = Inl SSH_ERR_INVALID_ARGUMENT"
| "mac_setup_loop P mac name (m # ms) =
     (if name \<noteq> ma_name m then mac_setup_loop P mac name ms
      else case mac of None \<Rightarrow> Inr None | Some mac \<Rightarrow> map_sum id Some (mac_setup_by_alg P mac m))"

definition mac_setup :: "mac_ops \<Rightarrow> sshmac option \<Rightarrow> string \<Rightarrow> ssh_err + sshmac option" where
  "mac_setup P mac name = mac_setup_loop P mac name macs"

definition mac_init :: "mac_ops \<Rightarrow> sshmac \<Rightarrow> ssh_err + sshmac" where
  "mac_init P mac =
     (case mc_key mac of
        None \<Rightarrow> Inl SSH_ERR_INVALID_ARGUMENT
      | Some key \<Rightarrow>
          (case mc_type mac of
             SSH_DIGEST \<Rightarrow>
               (case mc_hmac_ctx mac of
                  None \<Rightarrow> Inl SSH_ERR_INVALID_ARGUMENT
                | Some h \<Rightarrow> (case ssh_hmac_init (mo_md P) h (Some (take (mc_key_len mac) key)) of
                              None \<Rightarrow> Inl SSH_ERR_INVALID_ARGUMENT
                            | Some h \<Rightarrow> Inr (mac\<lparr>mc_hmac_ctx := Some h\<rparr>)))
           | SSH_UMAC \<Rightarrow> if \<not> mo_alloc P then Inl SSH_ERR_ALLOC_FAIL else Inr (mac\<lparr>mc_umac_ctx := Some key\<rparr>)
           | SSH_UMAC128 \<Rightarrow> if \<not> mo_alloc P then Inl SSH_ERR_ALLOC_FAIL else Inr (mac\<lparr>mc_umac_ctx := Some key\<rparr>)))"

section \<open>Computing and checking\<close>

text \<open>A null context is dereferenced only before \<^verbatim>\<open>mac_init\<close>, which never happens; it is an error here.\<close>

definition mac_compute :: "mac_ops \<Rightarrow> sshmac \<Rightarrow> 32 word \<Rightarrow> byte list \<Rightarrow> nat \<Rightarrow> ssh_err + byte list \<times> sshmac" where
  "mac_compute P mac seqno dat dlen =
     (if mc_mac_len mac > SSH_DIGEST_MAX_LENGTH then Inl SSH_ERR_INTERNAL_ERROR
      else case (case mc_type mac of
          SSH_DIGEST \<Rightarrow>
            (case mc_hmac_ctx mac of
               None \<Rightarrow> Inl SSH_ERR_LIBCRYPTO_ERROR
             | Some h \<Rightarrow> (case hmac_once (mo_md P) h [POKE_U32 seqno, dat] of
                            None \<Rightarrow> Inl SSH_ERR_LIBCRYPTO_ERROR
                          | Some (m, h) \<Rightarrow> Inr (m, mac\<lparr>mc_hmac_ctx := Some h\<rparr>)))
        | SSH_UMAC \<Rightarrow>
            (case mc_umac_ctx mac of
               None \<Rightarrow> Inl SSH_ERR_LIBCRYPTO_ERROR
             | Some key \<Rightarrow> Inr (mo_umac P key (POKE_U64 (ucast seqno)) dat, mac))
        | SSH_UMAC128 \<Rightarrow>
            (case mc_umac_ctx mac of
               None \<Rightarrow> Inl SSH_ERR_LIBCRYPTO_ERROR
             | Some key \<Rightarrow> Inr (mo_umac128 P key (POKE_U64 (ucast seqno)) dat, mac))) of
        Inl e \<Rightarrow> Inl e
      | Inr (m, mac) \<Rightarrow> Inr (take (if dlen > mc_mac_len mac then mc_mac_len mac else dlen) m, mac))"

definition mac_check :: "mac_ops \<Rightarrow> sshmac \<Rightarrow> 32 word \<Rightarrow> byte list \<Rightarrow> byte list \<Rightarrow> nat \<Rightarrow> ssh_err + sshmac" where
  "mac_check P mac seqno dat theirmac mlen =
     (if mc_mac_len mac > mlen then Inl SSH_ERR_INVALID_ARGUMENT
      else case mac_compute P mac seqno dat SSH_DIGEST_MAX_LENGTH of
        Inl e \<Rightarrow> Inl e
      | Inr (ourmac, mac') \<Rightarrow>
          if take (mc_mac_len mac) ourmac \<noteq> take (mc_mac_len mac) theirmac then Inl SSH_ERR_MAC_INVALID
          else Inr mac')"

definition mac_clear :: "sshmac \<Rightarrow> sshmac" where
  "mac_clear mac = mac\<lparr>mc_hmac_ctx := None, mc_umac_ctx := None\<rparr>"

fun mac_valid_loop :: "mac_ops \<Rightarrow> string list \<Rightarrow> bool \<Rightarrow> bool" where
  "mac_valid_loop P [] found = found"
| "mac_valid_loop P (p # ps) found =
     (if p = [] then found
      else case mac_setup P None p of Inl e \<Rightarrow> False | Inr r \<Rightarrow> mac_valid_loop P ps True)"

definition mac_valid :: "mac_ops \<Rightarrow> string option \<Rightarrow> bool" where
  "mac_valid P names =
     (case names of
        None \<Rightarrow> False
      | Some n \<Rightarrow> if n = [] then False else if \<not> mo_alloc P then False else mac_valid_loop P (strsep_all n) False)"

section \<open>Two ends agree\<close>

text \<open>What the code relies on outside: the digests work, and tags of UMAC have the length of the table.\<close>

definition mac_sizes :: "mac_ops \<Rightarrow> bool" where
  "mac_sizes P \<longleftrightarrow> md_lengths (mo_md P) \<and> md_ok (mo_md P) \<and> mo_alloc P \<and>
     (\<forall>k n d. length (mo_umac P k n d) = 8) \<and> (\<forall>k n d. length (mo_umac128 P k n d) = 16)"

definition mac_tag_len :: "macalg \<Rightarrow> nat" where
  "mac_tag_len m =
     (if ma_truncatebits m \<noteq> 0 then ma_truncatebits m div 8
      else case ma_type m of SSH_DIGEST \<Rightarrow> ssh_hmac_bytes (ma_alg m) | _ \<Rightarrow> ma_len m div 8)"

definition mac_value :: "mac_ops \<Rightarrow> macalg \<Rightarrow> byte list \<Rightarrow> 32 word \<Rightarrow> byte list \<Rightarrow> byte list" where
  "mac_value P m key seqno dat =
     take (mac_tag_len m)
       (case ma_type m of
          SSH_DIGEST \<Rightarrow> hmac (mo_md P) (ma_alg m) (take (ssh_hmac_bytes (ma_alg m)) key) (POKE_U32 seqno @ dat)
        | SSH_UMAC \<Rightarrow> mo_umac P key (POKE_U64 (ucast seqno)) dat
        | SSH_UMAC128 \<Rightarrow> mo_umac128 P key (POKE_U64 (ucast seqno)) dat)"

definition mac_keyed :: "mac_ops \<Rightarrow> macalg \<Rightarrow> byte list \<Rightarrow> sshmac \<Rightarrow> bool" where
  "mac_keyed P m key mac \<longleftrightarrow> m \<in> set macs \<and> mc_type mac = ma_type m \<and> mc_mac_len mac = mac_tag_len m \<and>
     (case ma_type m of
        SSH_DIGEST \<Rightarrow> \<exists>h. mc_hmac_ctx mac = Some h \<and>
          hmac_keyed (mo_md P) (ma_alg m) (take (ssh_hmac_bytes (ma_alg m)) key) h
      | _ \<Rightarrow> mc_umac_ctx mac = Some key)"

lemma macs_digest:
  assumes "m \<in> set macs" "ma_type m = SSH_DIGEST"
  obtains d where "ssh_digest_by_alg (ma_alg m) = Some d" "mac_tag_len m \<le> dg_len d" "dg_len d \<le> 64"
proof -
  have "\<exists>d. ssh_digest_by_alg (ma_alg m) = Some d \<and> mac_tag_len m \<le> dg_len d \<and> dg_len d \<le> 64"
    using assms by (auto simp: macs_def mac_tag_len_def ssh_digest_by_alg_def digests_def SSH_DIGEST_MAX_def ssh_hmac_bytes_def
        ssh_digest_bytes_def SSH_DIGEST_SHA1_def SSH_DIGEST_SHA256_def SSH_DIGEST_SHA512_def SSH_DIGEST_MD5_def)
  with that show thesis by blast
qed

lemma macs_umac: "m \<in> set macs \<Longrightarrow> ma_type m = SSH_UMAC \<Longrightarrow> mac_tag_len m = 8"
  "m \<in> set macs \<Longrightarrow> ma_type m = SSH_UMAC128 \<Longrightarrow> mac_tag_len m = 16"
  by (auto simp: macs_def mac_tag_len_def)

lemma macs_distinct: "distinct (map ma_name macs)"
  by (simp add: macs_def)

lemma mac_setup_name:
  assumes "m \<in> set macs"
  shows "mac_setup P (Some mac) (ma_name m) = map_sum id Some (mac_setup_by_alg P mac m)"
proof -
  have "distinct (map ma_name ms) \<Longrightarrow> m \<in> set ms \<Longrightarrow>
      mac_setup_loop P (Some mac) (ma_name m) ms = map_sum id Some (mac_setup_by_alg P mac m)" for ms
    by (induction ms) (auto simp: image_iff)
  with assms macs_distinct show ?thesis by (simp add: mac_setup_def)
qed

lemma mac_compute_keyed:
  assumes P: "mac_sizes P" and mac: "mac_keyed P m key mac"
  obtains mac' where "mac_compute P mac seqno dat SSH_DIGEST_MAX_LENGTH = Inr (mac_value P m key seqno dat, mac')"
    and "mac_keyed P m key mac'" and "length (mac_value P m key seqno dat) = mac_tag_len m"
    and "mc_mac_len mac' = mc_mac_len mac"
proof -
  have m: "m \<in> set macs" and len: "mc_mac_len mac = mac_tag_len m" and ty: "mc_type mac = ma_type m"
    using mac by (auto simp: mac_keyed_def)
  show thesis
  proof (cases "ma_type m")
    case SSH_DIGEST
    obtain d where d: "ssh_digest_by_alg (ma_alg m) = Some d" "mac_tag_len m \<le> dg_len d" "dg_len d \<le> 64"
      by (rule macs_digest [OF m SSH_DIGEST])
    from mac SSH_DIGEST obtain h where h: "mc_hmac_ctx mac = Some h"
      "hmac_keyed (mo_md P) (ma_alg m) (take (ssh_hmac_bytes (ma_alg m)) key) h" by (auto simp: mac_keyed_def)
    have M: "md_lengths (mo_md P)" "md_ok (mo_md P)" using P by (simp_all add: mac_sizes_def)
    from hmac_once_keyed [OF M d(1) h(2), of "[POKE_U32 seqno, dat]"] obtain h' where
      h': "hmac_once (mo_md P) h [POKE_U32 seqno, dat] =
          Some (hmac (mo_md P) (ma_alg m) (take (ssh_hmac_bytes (ma_alg m)) key) (POKE_U32 seqno @ dat), h')"
        "hmac_keyed (mo_md P) (ma_alg m) (take (ssh_hmac_bytes (ma_alg m)) key) h'" by auto
    have "length (hmac (mo_md P) (ma_alg m) k v) = dg_len d" for k v
      using md_lengthsD(1) [OF M(1) d(1)] by (simp add: hmac_def)
    then show thesis
      using d(2,3) h h' len ty SSH_DIGEST m
      by (intro that [of "mac\<lparr>mc_hmac_ctx := Some h'\<rparr>"])
        (simp_all add: mac_compute_def mac_value_def mac_keyed_def SSH_DIGEST_MAX_LENGTH_def min_def)
  next
    case SSH_UMAC
    then show thesis
      using mac P macs_umac(1) [OF m] ty len m
      by (intro that [of mac]) (simp_all add: mac_compute_def mac_value_def mac_keyed_def SSH_DIGEST_MAX_LENGTH_def mac_sizes_def)
  next
    case SSH_UMAC128
    then show thesis
      using mac P macs_umac(2) [OF m] ty len m
      by (intro that [of mac]) (simp_all add: mac_compute_def mac_value_def mac_keyed_def SSH_DIGEST_MAX_LENGTH_def mac_sizes_def)
  qed
qed

lemma mac_setup_keyed:
  assumes P: "mac_sizes P" and m: "m \<in> set macs"
  obtains mac1 mac2 where "mac_setup P (Some mac) (ma_name m) = Inr (Some mac1)"
    and "mac_init P (mac1\<lparr>mc_key := Some key\<rparr>) = Inr mac2" and "mac_keyed P m key mac2" and "mc_etm mac2 = ma_etm m"
    and "mc_enabled mac2 = mc_enabled mac"
proof -
  note ready = that
  have umac: thesis if umac: "ma_type m \<noteq> SSH_DIGEST"
  proof -
    define mac1 where "mac1 = mac\<lparr>mc_type := ma_type m, mc_mac_len := mac_tag_len m, mc_key_len := ma_key_len m div 8,
      mc_umac_ctx := None, mc_etm := ma_etm m\<rparr>"
    show thesis
    proof (rule ready)
      show "mac_setup P (Some mac) (ma_name m) = Inr (Some mac1)"
        using umac by (cases "ma_type m")
          (simp_all add: mac_setup_name [OF m] mac_setup_by_alg_def mac1_def mac_tag_len_def Let_def)
      show "mac_init P (mac1\<lparr>mc_key := Some key\<rparr>) = Inr (mac1\<lparr>mc_key := Some key, mc_umac_ctx := Some key\<rparr>)"
        using P umac by (cases "ma_type m") (simp_all add: mac_init_def mac1_def mac_sizes_def)
    qed (use m umac in \<open>cases "ma_type m"; simp add: mac_keyed_def mac1_def\<close>)+
  qed
  show thesis
  proof (cases "ma_type m")
  case SSH_DIGEST
  obtain d where d: "ssh_digest_by_alg (ma_alg m) = Some d" "mac_tag_len m \<le> dg_len d" "dg_len d \<le> 64"
    by (rule macs_digest [OF m SSH_DIGEST])
  have M: "md_lengths (mo_md P)" "md_ok (mo_md P)" using P by (simp_all add: mac_sizes_def)
  obtain c0 where c0: "ssh_hmac_start (mo_md P) (ma_alg m) = Some c0"
    using M(2) d(1) by (simp add: ssh_hmac_start_def ssh_digest_start_def)
  from hmac_init_keyed [OF M d(1) c0] obtain c where c: "ssh_hmac_init (mo_md P) c0 (Some (take (ssh_hmac_bytes (ma_alg m)) key)) = Some c"
      "hmac_keyed (mo_md P) (ma_alg m) (take (ssh_hmac_bytes (ma_alg m)) key) c" by blast
  define mac1 where "mac1 = mac\<lparr>mc_type := SSH_DIGEST, mc_hmac_ctx := Some c0, mc_key_len := ssh_hmac_bytes (ma_alg m),
    mc_mac_len := mac_tag_len m, mc_etm := ma_etm m\<rparr>"
  show thesis
  proof (rule that)
    show "mac_setup P (Some mac) (ma_name m) = Inr (Some mac1)"
      using c0 SSH_DIGEST by (simp add: mac_setup_name [OF m] mac_setup_by_alg_def mac1_def mac_tag_len_def Let_def)
    show "mac_init P (mac1\<lparr>mc_key := Some key\<rparr>) = Inr (mac1\<lparr>mc_key := Some key, mc_hmac_ctx := Some c\<rparr>)"
      using c(1) by (simp add: mac_init_def mac1_def)
  qed (use c(2) m SSH_DIGEST in \<open>simp_all add: mac_keyed_def mac1_def\<close>)
qed (use umac in auto)
qed

lemma mac_check_keyed:
  assumes P: "mac_sizes P" and mac: "mac_keyed P m key mac" and len: "mac_tag_len m \<le> mlen"
  shows "if take (mac_tag_len m) theirmac = mac_value P m key seqno dat
    then \<exists>mac'. mac_check P mac seqno dat theirmac mlen = Inr mac' \<and> mac_keyed P m key mac'
    else mac_check P mac seqno dat theirmac mlen = Inl SSH_ERR_MAC_INVALID"
proof -
  obtain mac' where c: "mac_compute P mac seqno dat SSH_DIGEST_MAX_LENGTH = Inr (mac_value P m key seqno dat, mac')"
    "mac_keyed P m key mac'" "length (mac_value P m key seqno dat) = mac_tag_len m"
    using mac_compute_keyed [OF P mac] by metis
  have "mc_mac_len mac = mac_tag_len m" using mac by (simp add: mac_keyed_def)
  then show ?thesis using c len by (auto simp: mac_check_def)
qed

text \<open>A context that has computed tags before.\<close>

fun mac_history :: "mac_ops \<Rightarrow> sshmac \<Rightarrow> (32 word \<times> byte list) list \<Rightarrow> ssh_err + sshmac" where
  "mac_history P mac [] = Inr mac"
| "mac_history P mac ((seqno, dat) # xs) =
     (case mac_compute P mac seqno dat SSH_DIGEST_MAX_LENGTH of Inl e \<Rightarrow> Inl e | Inr (tag, mac) \<Rightarrow> mac_history P mac xs)"

lemma mac_history_keyed:
  assumes "mac_sizes P" "mac_keyed P m key mac"
  shows "\<exists>mac'. mac_history P mac xs = Inr mac' \<and> mac_keyed P m key mac'"
  using assms(2)
proof (induction xs arbitrary: mac)
  case (Cons x xs)
  obtain seqno dat where x: "x = (seqno, dat)" by fastforce
  obtain mac' where "mac_compute P mac seqno dat SSH_DIGEST_MAX_LENGTH = Inr (mac_value P m key seqno dat, mac')"
    "mac_keyed P m key mac'" using mac_compute_keyed [OF assms(1) Cons.prems] by metis
  then show ?case using Cons.IH by (simp add: x)
qed simp

text \<open>
  (C15) Two ends that set up the same algorithm of the table with the same key agree for every message and
  sequence number, whatever they computed before: the tag has the negotiated length, the other end accepts it, and
  it refuses every other tag.
\<close>

theorem mac_ends_agree:
  assumes P: "mac_sizes P" and m: "m \<in> set macs"
  shows "\<exists>a b. mac_setup P (Some mac) (ma_name m) = Inr (Some a) \<and> mac_init P (a\<lparr>mc_key := Some key\<rparr>) = Inr b \<and>
    (\<exists>s r tag s'. mac_history P b sent = Inr s \<and> mac_history P b received = Inr r \<and>
       mac_compute P s seqno dat SSH_DIGEST_MAX_LENGTH = Inr (tag, s') \<and> length tag = mc_mac_len b \<and>
       (\<forall>theirs. length theirs = mc_mac_len b \<longrightarrow>
         (if theirs = tag then \<exists>r'. mac_check P r seqno dat theirs (mc_mac_len r) = Inr r'
          else mac_check P r seqno dat theirs (mc_mac_len r) = Inl SSH_ERR_MAC_INVALID)))"
proof -
  obtain a b where ab: "mac_setup P (Some mac) (ma_name m) = Inr (Some a)" "mac_init P (a\<lparr>mc_key := Some key\<rparr>) = Inr b"
    and b: "mac_keyed P m key b" using mac_setup_keyed [OF P m] by metis
  from mac_history_keyed [OF P b] obtain s where s: "mac_history P b sent = Inr s" "mac_keyed P m key s" by blast
  from mac_history_keyed [OF P b] obtain r where r: "mac_history P b received = Inr r" "mac_keyed P m key r" by blast
  obtain s' where c: "mac_compute P s seqno dat SSH_DIGEST_MAX_LENGTH = Inr (mac_value P m key seqno dat, s')"
      "length (mac_value P m key seqno dat) = mac_tag_len m" using mac_compute_keyed [OF P s(2)] by metis
  have len: "mc_mac_len b = mac_tag_len m" "mc_mac_len r = mac_tag_len m" using b r(2) by (simp_all add: mac_keyed_def)
  have "if theirs = mac_value P m key seqno dat then \<exists>r'. mac_check P r seqno dat theirs (mc_mac_len r) = Inr r'
      else mac_check P r seqno dat theirs (mc_mac_len r) = Inl SSH_ERR_MAC_INVALID" if "length theirs = mac_tag_len m" for theirs
    using mac_check_keyed [OF P r(2), of "mc_mac_len r" theirs seqno dat] that len by (auto split: if_splits)
  then have "length (mac_value P m key seqno dat) = mc_mac_len b \<and> (\<forall>theirs. length theirs = mc_mac_len b \<longrightarrow>
      (if theirs = mac_value P m key seqno dat then \<exists>r'. mac_check P r seqno dat theirs (mc_mac_len r) = Inr r'
       else mac_check P r seqno dat theirs (mc_mac_len r) = Inl SSH_ERR_MAC_INVALID))"
    unfolding len(1) using c(2) by blast
  with ab s(1) r(1) c(1) show ?thesis by blast
qed

definition example_mac_ops :: mac_ops where
  "example_mac_ops = \<lparr>mo_md = example_md, mo_umac = (\<lambda>k n d. replicate 8 (foldr (XOR) (k @ n @ d) 0)),
     mo_umac128 = (\<lambda>k n d. replicate 16 (foldr (XOR) (k @ n @ d) 0)), mo_alloc = True\<rparr>"

lemma example_mac_sizes: "mac_sizes example_mac_ops"
  by (auto simp: mac_sizes_def example_mac_ops_def example_md_def md_lengths_def digests_def ssh_digest_bytes_def ssh_digest_by_alg_def
      SSH_DIGEST_MAX_def UINT_MAX_def SSH_DIGEST_SHA1_def SSH_DIGEST_SHA256_def SSH_DIGEST_SHA384_def SSH_DIGEST_SHA512_def SSH_DIGEST_MD5_def)

definition example_mac :: sshmac where
  "example_mac = \<lparr>mc_name = None, mc_enabled = False, mc_mac_len = 0, mc_key = None, mc_key_len = 0, mc_type = SSH_DIGEST,
     mc_etm = False, mc_hmac_ctx = None, mc_umac_ctx = None\<rparr>"

theorem mac_ends_agree_witness:
  "\<exists>a b s r tag s'. mac_setup example_mac_ops (Some example_mac) ''hmac-sha2-256'' = Inr (Some a) \<and>
    mac_init example_mac_ops (a\<lparr>mc_key := Some [1, 2, 3]\<rparr>) = Inr b \<and>
    mac_history example_mac_ops b [(0, [5])] = Inr s \<and> mac_history example_mac_ops b [] = Inr r \<and>
    mac_compute example_mac_ops s 1 [4] SSH_DIGEST_MAX_LENGTH = Inr (tag, s') \<and> length tag = mc_mac_len b \<and>
    (\<exists>r'. mac_check example_mac_ops r 1 [4] tag (mc_mac_len r) = Inr r')"
proof -
  let ?m = "mac_row ''hmac-sha2-256'' SSH_DIGEST SSH_DIGEST_SHA256 0 0 0 False"
  have "?m \<in> set macs" by (simp add: macs_def)
  from mac_ends_agree [OF example_mac_sizes this, of example_mac "[1, 2, 3]" "[(0, [5])]" "[]" 1 "[4]"] show ?thesis
    by (simp only: macalg.select_convs) metis
qed

end
