(* ===== verification/Chacha.thy ===== *)
theory Chacha
  imports Prelude
begin

unbundle bit_operations_syntax

text \<open>
  The stream cipher ChaCha, from \<^verbatim>\<open>chacha.c\<close>.  The state is the array \<^verbatim>\<open>input\<close> of 16 words.
  Encryption is shown to be the exclusive or with a key stream that depends on the state only, so
  that decryption is the same operation.
\<close>

section \<open>The code\<close>

record chacha_ctx =
  input :: "32 word list"

definition U8TO32_LITTLE :: "byte list \<Rightarrow> 32 word" where
  "U8TO32_LITTLE p =
     ucast (p ! 0) OR push_bit 8 (ucast (p ! 1)) OR push_bit 16 (ucast (p ! 2)) OR push_bit 24 (ucast (p ! 3))"

definition U32TO8_LITTLE :: "32 word \<Rightarrow> byte list" where
  "U32TO8_LITTLE v = [ucast v, ucast (drop_bit 8 v), ucast (drop_bit 16 v), ucast (drop_bit 24 v)]"

definition ROTL32 :: "32 word \<Rightarrow> nat \<Rightarrow> 32 word" where
  "ROTL32 v n = push_bit n v OR drop_bit (32 - n) v"

definition QUARTERROUND :: "nat \<Rightarrow> nat \<Rightarrow> nat \<Rightarrow> nat \<Rightarrow> 32 word list \<Rightarrow> 32 word list" where
  "QUARTERROUND a b c d x =
     (let x = x[a := x ! a + x ! b]; x = x[d := ROTL32 (x ! d XOR x ! a) 16];
          x = x[c := x ! c + x ! d]; x = x[b := ROTL32 (x ! b XOR x ! c) 12];
          x = x[a := x ! a + x ! b]; x = x[d := ROTL32 (x ! d XOR x ! a) 8];
          x = x[c := x ! c + x ! d]
      in x[b := ROTL32 (x ! b XOR x ! c) 7])"

definition sigma :: "byte list" where
  "sigma = [101, 120, 112, 97, 110, 100, 32, 51, 50, 45, 98, 121, 116, 101, 32, 107]"

definition tau :: "byte list" where
  "tau = [101, 120, 112, 97, 110, 100, 32, 49, 54, 45, 98, 121, 116, 101, 32, 107]"

definition chacha_keysetup :: "chacha_ctx \<Rightarrow> byte list \<Rightarrow> nat \<Rightarrow> chacha_ctx" where
  "chacha_keysetup x k kbits =
     (let i = input x;
          i = i[4 := U8TO32_LITTLE k, 5 := U8TO32_LITTLE (drop 4 k), 6 := U8TO32_LITTLE (drop 8 k),
                7 := U8TO32_LITTLE (drop 12 k)];
          (k, constants) = (if kbits = 256 then (drop 16 k, sigma) else (k, tau));
          i = i[8 := U8TO32_LITTLE k, 9 := U8TO32_LITTLE (drop 4 k), 10 := U8TO32_LITTLE (drop 8 k),
                11 := U8TO32_LITTLE (drop 12 k)];
          i = i[0 := U8TO32_LITTLE constants, 1 := U8TO32_LITTLE (drop 4 constants),
                2 := U8TO32_LITTLE (drop 8 constants), 3 := U8TO32_LITTLE (drop 12 constants)]
      in x\<lparr>input := i\<rparr>)"

definition chacha_ivsetup :: "chacha_ctx \<Rightarrow> byte list \<Rightarrow> byte list option \<Rightarrow> chacha_ctx" where
  "chacha_ivsetup x iv counter =
     x\<lparr>input := (input x)
         [12 := (case counter of None \<Rightarrow> 0 | Some c \<Rightarrow> U8TO32_LITTLE c),
          13 := (case counter of None \<Rightarrow> 0 | Some c \<Rightarrow> U8TO32_LITTLE (drop 4 c)),
          14 := U8TO32_LITTLE iv, 15 := U8TO32_LITTLE (drop 4 iv)]\<rparr>"

text \<open>The body of \<^verbatim>\<open>for (i = 20; i > 0; i -= 2)\<close>.\<close>

definition double_round :: "32 word list \<Rightarrow> 32 word list" where
  "double_round x =
     QUARTERROUND 3 4 9 14 (QUARTERROUND 2 7 8 13 (QUARTERROUND 1 6 11 12 (QUARTERROUND 0 5 10 15
       (QUARTERROUND 3 7 11 15 (QUARTERROUND 2 6 10 14 (QUARTERROUND 1 5 9 13 (QUARTERROUND 0 4 8 12 x)))))))"

text \<open>The words \<^verbatim>\<open>x0\<close> to \<^verbatim>\<open>x15\<close> of a block, before and after the exclusive or with the message.\<close>

definition chacha_block :: "32 word list \<Rightarrow> 32 word list" where
  "chacha_block j = map2 (+) ((double_round ^^ 10) j) j"

definition chacha_xor :: "32 word list \<Rightarrow> byte list \<Rightarrow> byte list" where
  "chacha_xor x m = concat (map (\<lambda>i. U32TO8_LITTLE (x ! i XOR U8TO32_LITTLE (drop (4 * i) m))) [0..<16])"

definition next_block :: "32 word list \<Rightarrow> 32 word list" where
  "next_block j =
     (let j12 = j ! 12 + 1 in
      if j12 = 0 then j[12 := j12, 13 := j ! 13 + 1] else j[12 := j12])"

text \<open>
  The loop, on the words \<^verbatim>\<open>j0\<close> to \<^verbatim>\<open>j15\<close>.  A block of fewer than 64 bytes is copied to \<^verbatim>\<open>tmp\<close>, of
  which only the bytes of the message are used afterwards.
\<close>

function chacha_loop :: "32 word list \<Rightarrow> byte list \<Rightarrow> 32 word list \<times> byte list" where
  "chacha_loop j m =
     (let bytes = length m;
          c = chacha_xor (chacha_block j) (if bytes < 64 then m @ replicate (64 - bytes) 0 else take 64 m);
          j' = next_block j
      in if bytes \<le> 64 then (j', take bytes c)
         else let (j'', c') = chacha_loop j' (drop 64 m) in (j'', c @ c'))"
  by pat_completeness auto
termination
  by (relation "measure (\<lambda>(j, m). length m)") auto

declare chacha_loop.simps [simp del]

definition chacha_encrypt_bytes :: "chacha_ctx \<Rightarrow> byte list \<Rightarrow> chacha_ctx \<times> byte list" where
  "chacha_encrypt_bytes x m =
     (if length m = 0 then (x, [])
      else let (j, c) = chacha_loop (input x) m
           in (x\<lparr>input := (input x)[12 := j ! 12, 13 := j ! 13]\<rparr>, c))"

section \<open>The key stream\<close>

definition chacha_stream :: "32 word list \<Rightarrow> nat \<Rightarrow> byte" where
  "chacha_stream j n = concat (map U32TO8_LITTLE (chacha_block ((next_block ^^ (n div 64)) j))) ! (n mod 64)"

lemma length_QUARTERROUND [simp]: "length (QUARTERROUND a b c d x) = length x"
  by (simp only: QUARTERROUND_def Let_def length_list_update)

lemma length_double_round [simp]: "length (double_round x) = length x"
  by (simp add: double_round_def)

lemma length_rounds [simp]: "length ((double_round ^^ n) x) = length x"
  by (induction n) simp_all

lemma length_chacha_block [simp]: "length (chacha_block j) = length j"
  by (simp add: chacha_block_def)

lemma length_next_block [simp]: "length (next_block j) = length j"
  by (simp add: next_block_def Let_def)

lemma length_U32TO8 [simp]: "length (U32TO8_LITTLE v) = 4"
  by (simp add: U32TO8_LITTLE_def)

lemma byte_of_word:
  "(ucast (U8TO32_LITTLE m) :: byte) = m ! 0" "(ucast (drop_bit 8 (U8TO32_LITTLE m)) :: byte) = m ! 1"
  "(ucast (drop_bit 16 (U8TO32_LITTLE m)) :: byte) = m ! 2" "(ucast (drop_bit 24 (U8TO32_LITTLE m)) :: byte) = m ! 3"
  unfolding U8TO32_LITTLE_def by (rule bit_word_eqI; auto simp: bit_simps dest: bit_imp_le_length)+

lemma U32TO8_xor: "U32TO8_LITTLE (v XOR U8TO32_LITTLE m) =
   [U32TO8_LITTLE v ! 0 XOR m ! 0, U32TO8_LITTLE v ! 1 XOR m ! 1, U32TO8_LITTLE v ! 2 XOR m ! 2, U32TO8_LITTLE v ! 3 XOR m ! 3]"
  by (simp add: U32TO8_LITTLE_def drop_bit_xor unsigned_xor_eq byte_of_word)

lemma concat_nth_4:
  "(\<And>x. length (f x) = 4) \<Longrightarrow> n < 4 * length xs \<Longrightarrow> concat (map f xs) ! n = f (xs ! (n div 4)) ! (n mod 4)"
proof (induction xs arbitrary: n)
  case (Cons x xs)
  show ?case
  proof (cases "n < 4")
    case False
    then have "n div 4 = Suc ((n - 4) div 4)" "n mod 4 = (n - 4) mod 4" by (simp_all add: le_div_geq le_mod_geq)
    then show ?thesis using Cons False by (simp add: nth_append)
  qed (use Cons.prems in \<open>simp add: nth_append\<close>)
qed simp

lemma length_concat_4: "(\<And>x. length (f x) = 4) \<Longrightarrow> length (concat (map f xs)) = 4 * length xs"
  by (induction xs) simp_all

lemma U32TO8_xor_nth:
  assumes "i < 4"
  shows "U32TO8_LITTLE (v XOR U8TO32_LITTLE m) ! i = U32TO8_LITTLE v ! i XOR m ! i"
proof -
  have "i = 0 \<or> i = 1 \<or> i = 2 \<or> i = 3" using assms by linarith
  then show ?thesis unfolding U32TO8_xor by (elim disjE) simp_all
qed

lemma length_chacha_xor [simp]: "length (chacha_xor x m) = 64"
  unfolding chacha_xor_def by (subst length_concat_4) simp_all

lemma chacha_xor_nth:
  assumes "n < 64" "length x = 16" "64 \<le> length m"
  shows "chacha_xor x m ! n = concat (map U32TO8_LITTLE x) ! n XOR m ! n"
proof -
  have "n div 4 < 16" "n mod 4 < 4" "4 * (n div 4) + n mod 4 = n" using assms(1) by simp_all
  moreover have "chacha_xor x m ! n = U32TO8_LITTLE (x ! (n div 4) XOR U8TO32_LITTLE (drop (4 * (n div 4)) m)) ! (n mod 4)"
    unfolding chacha_xor_def using assms by (subst concat_nth_4) simp_all
  moreover have "concat (map U32TO8_LITTLE x) ! n = U32TO8_LITTLE (x ! (n div 4)) ! (n mod 4)"
    using assms by (subst concat_nth_4) simp_all
  moreover have "drop (4 * (n div 4)) m ! (n mod 4) = m ! n" using assms by (simp add: calculation(3))
  ultimately show ?thesis by (simp add: U32TO8_xor_nth)
qed

lemma chacha_stream_next: "chacha_stream (next_block j) n = chacha_stream j (64 + n)"
proof -
  have "(64 + n) div 64 = Suc (n div 64)" by simp
  then show ?thesis by (simp only: chacha_stream_def) (simp add: funpow_swap1)
qed

lemma chacha_loop_stream:
  "length j = 16 \<Longrightarrow>
   length (fst (chacha_loop j m)) = 16 \<and>
   snd (chacha_loop j m) = map (\<lambda>n. chacha_stream j n XOR m ! n) [0..<length m]"
proof (induction j m rule: chacha_loop.induct)
  case (1 j m)
  define mp where "mp = (if length m < 64 then m @ replicate (64 - length m) 0 else take 64 m)"
  define c where "c = chacha_xor (chacha_block j) mp"
  have mp: "length mp = 64" "\<And>n. n < 64 \<Longrightarrow> n < length m \<Longrightarrow> mp ! n = m ! n"
    by (auto simp: mp_def nth_append)
  have c: "c ! n = chacha_stream j n XOR m ! n" if "n < 64" "n < length m" for n
    using that mp "1.prems" chacha_xor_nth [of n "chacha_block j" mp] by (simp add: c_def chacha_stream_def)
  have len: "length c = 64" by (simp add: c_def)
  show ?case
  proof (cases "length m \<le> 64")
    case True
    have "take (length m) c = map (\<lambda>n. chacha_stream j n XOR m ! n) [0..<length m]"
      using True c len by (intro nth_equalityI) simp_all
    then show ?thesis
      using True "1.prems" by (simp add: chacha_loop.simps [of j m] Let_def c_def [symmetric] mp_def [symmetric])
  next
    case False
    have IH: "length (fst (chacha_loop (next_block j) (drop 64 m))) = 16"
      "snd (chacha_loop (next_block j) (drop 64 m)) = map (\<lambda>n. chacha_stream j (64 + n) XOR m ! (64 + n)) [0..<length m - 64]"
      using "1.IH" [OF refl refl refl False] "1.prems" False by (simp_all add: chacha_stream_next)
    have "c @ map (\<lambda>n. chacha_stream j (64 + n) XOR m ! (64 + n)) [0..<length m - 64] =
        map (\<lambda>n. chacha_stream j n XOR m ! n) [0..<length m]"
      using False c len by (intro nth_equalityI) (auto simp: nth_append)
    then show ?thesis
      using False IH by (simp add: chacha_loop.simps [of j m] Let_def c_def mp_def case_prod_beta)
  qed
qed

lemma chacha_encrypt_stream:
  assumes "length (input x) = 16"
  shows "snd (chacha_encrypt_bytes x m) = map (\<lambda>n. chacha_stream (input x) n XOR m ! n) [0..<length m]"
  using chacha_loop_stream [OF assms, of m] by (simp add: chacha_encrypt_bytes_def case_prod_beta Let_def)

lemma chacha_encrypt_ctx [simp]:
  "length (input (fst (chacha_encrypt_bytes x m))) = length (input x)"
  "i \<noteq> 12 \<Longrightarrow> i \<noteq> 13 \<Longrightarrow> input (fst (chacha_encrypt_bytes x m)) ! i = input x ! i"
  by (simp_all add: chacha_encrypt_bytes_def case_prod_beta Let_def)

text \<open>Encrypting twice from the same state gives the message back; the key stream does not depend on its length.\<close>

lemma chacha_encrypt_length [simp]: "length (input x) = 16 \<Longrightarrow> length (snd (chacha_encrypt_bytes x m)) = length m"
  by (simp add: chacha_encrypt_stream)

lemma chacha_encrypt_twice:
  assumes "length (input x) = 16"
  shows "snd (chacha_encrypt_bytes x (snd (chacha_encrypt_bytes x m))) = m"
  using assms by (simp add: chacha_encrypt_stream) (rule nth_equalityI; simp add: xor.assoc [symmetric])

lemma chacha_encrypt_take:
  assumes "length (input x) = 16"
  shows "snd (chacha_encrypt_bytes x (take k m)) = take k (snd (chacha_encrypt_bytes x m))"
  using assms by (simp add: chacha_encrypt_stream) (rule nth_equalityI; simp)

end
