(* ===== verification/Poly1305.thy ===== *)
theory Poly1305
  imports Prelude
begin

unbundle bit_operations_syntax

text \<open>
  The one-time authenticator Poly1305, from \<^verbatim>\<open>poly1305.c\<close>: the unrolled implementation on five
  26-bit limbs in 32-bit words with 64-bit products and delayed carries.  It is shown to compute
  the polynomial of the definition of Poly1305 modulo \<open>2 ^ 130 - 5\<close>; the proof bounds every
  intermediate value, so no sum or product of the C code wraps where it must not.
\<close>

section \<open>The code\<close>

type_synonym limbs = "32 word \<times> 32 word \<times> 32 word \<times> 32 word \<times> 32 word"

definition mul32x32_64 :: "32 word \<Rightarrow> 32 word \<Rightarrow> 64 word" where
  "mul32x32_64 a b = ucast a * ucast b"

definition U8TO32_LE :: "byte list \<Rightarrow> 32 word" where
  "U8TO32_LE p =
     ucast (p ! 0) OR push_bit 8 (ucast (p ! 1)) OR push_bit 16 (ucast (p ! 2)) OR push_bit 24 (ucast (p ! 3))"

definition U32TO8_LE :: "64 word \<Rightarrow> byte list" where
  "U32TO8_LE v = [ucast v, ucast (drop_bit 8 v), ucast (drop_bit 16 v), ucast (drop_bit 24 v)]"

text \<open>The multipliers, from the clamped first half of the key.\<close>

definition poly1305_clamp :: "byte list \<Rightarrow> limbs" where
  "poly1305_clamp key =
     (let t0 = U8TO32_LE key; t1 = U8TO32_LE (drop 4 key); t2 = U8TO32_LE (drop 8 key); t3 = U8TO32_LE (drop 12 key);
          r0 = t0 AND 0x3ffffff; t0 = drop_bit 26 t0 OR push_bit 6 t1;
          r1 = t0 AND 0x3ffff03; t1 = drop_bit 20 t1 OR push_bit 12 t2;
          r2 = t1 AND 0x3ffc0ff; t2 = drop_bit 14 t2 OR push_bit 18 t3;
          r3 = t2 AND 0x3f03fff; t3 = drop_bit 8 t3;
          r4 = t3 AND 0x00fffff
      in (r0, r1, r2, r3, r4))"

text \<open>Adding a block of 16 bytes; \<open>hibit\<close> is \<^verbatim>\<open>1 << 24\<close> for a full block.\<close>

definition poly1305_add :: "32 word \<Rightarrow> byte list \<Rightarrow> limbs \<Rightarrow> limbs" where
  "poly1305_add hibit m h =
     (let (h0, h1, h2, h3, h4) = h;
          t0 = U8TO32_LE m; t1 = U8TO32_LE (drop 4 m); t2 = U8TO32_LE (drop 8 m); t3 = U8TO32_LE (drop 12 m)
      in (h0 + (t0 AND 0x3ffffff),
          h1 + ucast (drop_bit 26 (push_bit 32 (ucast t1) OR ucast t0 :: 64 word) AND 0x3ffffff),
          h2 + ucast (drop_bit 20 (push_bit 32 (ucast t2) OR ucast t1 :: 64 word) AND 0x3ffffff),
          h3 + ucast (drop_bit 14 (push_bit 32 (ucast t3) OR ucast t2 :: 64 word) AND 0x3ffffff),
          h4 + (drop_bit 8 t3 OR hibit)))"

text \<open>The five sums of \<^verbatim>\<open>t[]\<close>, the product with the multipliers.\<close>

definition poly1305_sums :: "limbs \<Rightarrow> limbs \<Rightarrow> 64 word \<times> 64 word \<times> 64 word \<times> 64 word \<times> 64 word" where
  "poly1305_sums r h =
     (let (r0, r1, r2, r3, r4) = r; (h0, h1, h2, h3, h4) = h; s1 = r1 * 5; s2 = r2 * 5; s3 = r3 * 5; s4 = r4 * 5
      in (mul32x32_64 h0 r0 + mul32x32_64 h1 s4 + mul32x32_64 h2 s3 + mul32x32_64 h3 s2 + mul32x32_64 h4 s1,
          mul32x32_64 h0 r1 + mul32x32_64 h1 r0 + mul32x32_64 h2 s4 + mul32x32_64 h3 s3 + mul32x32_64 h4 s2,
          mul32x32_64 h0 r2 + mul32x32_64 h1 r1 + mul32x32_64 h2 r0 + mul32x32_64 h3 s4 + mul32x32_64 h4 s3,
          mul32x32_64 h0 r3 + mul32x32_64 h1 r2 + mul32x32_64 h2 r1 + mul32x32_64 h3 r0 + mul32x32_64 h4 s4,
          mul32x32_64 h0 r4 + mul32x32_64 h1 r3 + mul32x32_64 h2 r2 + mul32x32_64 h3 r1 + mul32x32_64 h4 r0))"

text \<open>\<^verbatim>\<open>poly1305_donna_mul\<close>: the product and a partial carry.\<close>

definition poly1305_donna_mul :: "limbs \<Rightarrow> limbs \<Rightarrow> limbs" where
  "poly1305_donna_mul r h =
     (let (t0, t1, t2, t3, t4) = poly1305_sums r h;
          h0 = ucast t0 AND 0x3ffffff; c = drop_bit 26 t0;
          t1 = t1 + c; h1 = ucast t1 AND 0x3ffffff; b = ucast (drop_bit 26 t1) :: 32 word;
          t2 = t2 + ucast b; h2 = ucast t2 AND 0x3ffffff; b = ucast (drop_bit 26 t2) :: 32 word;
          t3 = t3 + ucast b; h3 = ucast t3 AND 0x3ffffff; b = ucast (drop_bit 26 t3) :: 32 word;
          t4 = t4 + ucast b; h4 = ucast t4 AND 0x3ffffff; b = ucast (drop_bit 26 t4) :: 32 word
      in (h0 + b * 5, h1, h2, h3, h4))"

text \<open>The loop over full blocks, and the last block of at most 15 bytes with its padding.\<close>

function poly1305_donna_16bytes :: "limbs \<Rightarrow> byte list \<Rightarrow> limbs \<Rightarrow> limbs \<times> byte list" where
  "poly1305_donna_16bytes r m h =
     (if length m < 16 then (h, m)
      else poly1305_donna_16bytes r (drop 16 m) (poly1305_donna_mul r (poly1305_add (push_bit 24 1) m h)))"
  by pat_completeness auto
termination
  by (relation "measure (\<lambda>(r, m, h). length m)") auto

declare poly1305_donna_16bytes.simps [simp del]

definition poly1305_donna_atmost15bytes :: "limbs \<Rightarrow> byte list \<Rightarrow> limbs \<Rightarrow> limbs" where
  "poly1305_donna_atmost15bytes r m h =
     (if length m = 0 then h
      else let mp = m @ [1] @ replicate (15 - length m) 0 in poly1305_donna_mul r (poly1305_add 0 mp h))"

text \<open>
  \<^verbatim>\<open>poly1305_donna_finish\<close> in three parts: the full carry, the conditional subtraction of
  \<open>2 ^ 130 - 5\<close>, and the addition of the second half of the key modulo \<open>2 ^ 128\<close>.
\<close>

definition poly1305_carry :: "limbs \<Rightarrow> limbs" where
  "poly1305_carry h =
     (let (h0, h1, h2, h3, h4) = h;
          b = drop_bit 26 h0; h0 = h0 AND 0x3ffffff;
          h1 = h1 + b; b = drop_bit 26 h1; h1 = h1 AND 0x3ffffff;
          h2 = h2 + b; b = drop_bit 26 h2; h2 = h2 AND 0x3ffffff;
          h3 = h3 + b; b = drop_bit 26 h3; h3 = h3 AND 0x3ffffff;
          h4 = h4 + b; b = drop_bit 26 h4; h4 = h4 AND 0x3ffffff;
          h0 = h0 + b * 5; b = drop_bit 26 h0; h0 = h0 AND 0x3ffffff;
          h1 = h1 + b
      in (h0, h1, h2, h3, h4))"

definition poly1305_reduce :: "limbs \<Rightarrow> limbs" where
  "poly1305_reduce h =
     (let (h0, h1, h2, h3, h4) = h;
          g0 = h0 + 5; b = drop_bit 26 g0; g0 = g0 AND 0x3ffffff;
          g1 = h1 + b; b = drop_bit 26 g1; g1 = g1 AND 0x3ffffff;
          g2 = h2 + b; b = drop_bit 26 g2; g2 = g2 AND 0x3ffffff;
          g3 = h3 + b; b = drop_bit 26 g3; g3 = g3 AND 0x3ffffff;
          g4 = h4 + b - push_bit 26 1;
          b = drop_bit 31 g4 - 1; nb = NOT b
      in ((h0 AND nb) OR (g0 AND b), (h1 AND nb) OR (g1 AND b), (h2 AND nb) OR (g2 AND b),
          (h3 AND nb) OR (g3 AND b), (h4 AND nb) OR (g4 AND b)))"

definition poly1305_out :: "byte list \<Rightarrow> limbs \<Rightarrow> byte list" where
  "poly1305_out key h =
     (let (h0, h1, h2, h3, h4) = h;
          f0 = ucast (h0 OR push_bit 26 h1) + ucast (U8TO32_LE (drop 16 key)) :: 64 word;
          f1 = ucast (drop_bit 6 h1 OR push_bit 20 h2) + ucast (U8TO32_LE (drop 20 key));
          f2 = ucast (drop_bit 12 h2 OR push_bit 14 h3) + ucast (U8TO32_LE (drop 24 key));
          f3 = ucast (drop_bit 18 h3 OR push_bit 8 h4) + ucast (U8TO32_LE (drop 28 key));
          f1 = f1 + drop_bit 32 f0; f2 = f2 + drop_bit 32 f1; f3 = f3 + drop_bit 32 f2
      in U32TO8_LE f0 @ U32TO8_LE f1 @ U32TO8_LE f2 @ U32TO8_LE f3)"

definition poly1305_donna_finish :: "byte list \<Rightarrow> limbs \<Rightarrow> byte list" where
  "poly1305_donna_finish key h = poly1305_out key (poly1305_reduce (poly1305_carry h))"

definition poly1305_auth :: "byte list \<Rightarrow> byte list \<Rightarrow> byte list" where
  "poly1305_auth m key =
     (let r = poly1305_clamp key; (h, m) = poly1305_donna_16bytes r m (0, 0, 0, 0, 0)
      in poly1305_donna_finish key (poly1305_donna_atmost15bytes r m h))"

section \<open>The definition of Poly1305\<close>

fun le_nat :: "byte list \<Rightarrow> nat" where
  "le_nat [] = 0"
| "le_nat (b # bs) = unat b + 256 * le_nat bs"

definition le_bytes :: "nat \<Rightarrow> nat \<Rightarrow> byte list" where
  "le_bytes n x = map (\<lambda>i. of_nat (x div 256 ^ i)) [0..<n]"

definition poly_p :: nat where
  "poly_p = 2 ^ 130 - 5"

definition poly_r :: "byte list \<Rightarrow> nat" where
  "poly_r key = le_nat (take 16 key) AND 0x0ffffffc0ffffffc0ffffffc0fffffff"

function poly_eval :: "nat \<Rightarrow> byte list \<Rightarrow> nat \<Rightarrow> nat" where
  "poly_eval r m a =
     (if m = [] then a
      else poly_eval r (drop 16 m) ((a + le_nat (take 16 m) + 2 ^ (8 * length (take 16 m))) * r mod poly_p))"
  by pat_completeness auto
termination
  by (relation "measure (\<lambda>(r, m, a). length m)") auto

declare poly_eval.simps [simp del]

definition poly1305_mac :: "byte list \<Rightarrow> byte list \<Rightarrow> byte list" where
  "poly1305_mac m key = le_bytes 16 ((poly_eval (poly_r key) m 0 + le_nat (take 16 (drop 16 key))) mod 2 ^ 128)"

section \<open>Limbs as numbers\<close>

fun limbs_val :: "limbs \<Rightarrow> nat" where
  "limbs_val (h0, h1, h2, h3, h4) = unat h0 + 2 ^ 26 * unat h1 + 2 ^ 52 * unat h2 + 2 ^ 78 * unat h3 + 2 ^ 104 * unat h4"

text \<open>The bounds between blocks, after adding a block, and of the multipliers.\<close>

fun limbs_ok :: "limbs \<Rightarrow> bool" where
  "limbs_ok (h0, h1, h2, h3, h4) \<longleftrightarrow>
     unat h0 \<le> 0xa7000000 \<and> unat h1 < 2 ^ 26 \<and> unat h2 < 2 ^ 26 \<and> unat h3 < 2 ^ 26 \<and> unat h4 < 2 ^ 26"

fun limbs_sum_ok :: "limbs \<Rightarrow> bool" where
  "limbs_sum_ok (h0, h1, h2, h3, h4) \<longleftrightarrow>
     unat h0 \<le> 0xaaffffff \<and> unat h1 \<le> 0x7fffffe \<and> unat h2 \<le> 0x7fffffe \<and> unat h3 \<le> 0x7fffffe \<and> unat h4 \<le> 0x5fffffe"

fun limbs_r_ok :: "limbs \<Rightarrow> bool" where
  "limbs_r_ok (r0, r1, r2, r3, r4) \<longleftrightarrow>
     unat r0 \<le> 0x3ffffff \<and> unat r1 \<le> 0x3ffff03 \<and> unat r2 \<le> 0x3ffc0ff \<and> unat r3 \<le> 0x3f03fff \<and> unat r4 \<le> 0xfffff"

lemma unat_and_mask26: "unat (w AND 0x3ffffff :: 32 word) = unat w mod 2 ^ 26"
proof -
  have "w AND 0x3ffffff = take_bit 26 w" by (simp add: take_bit_eq_mask mask_eq_exp_minus_1)
  then have "unat (w AND 0x3ffffff) = take_bit 26 (unat w)" by (simp only: unsigned_take_bit_eq)
  then show ?thesis by (simp only: take_bit_eq_mod)
qed

lemma unat_drop_bit: "unat (drop_bit n w) = unat w div 2 ^ n"
proof -
  have "unat (drop_bit n w) = drop_bit n (unat w)"
    by (simp only: unsigned_drop_bit_eq) (simp add: take_bit_nat_eq_self)
  then show ?thesis by (simp only: drop_bit_eq_div)
qed

lemma unat_ucast_32: "unat (ucast (x :: 64 word) :: 32 word) = unat x mod 2 ^ 32"
  by (simp add: unsigned_ucast_eq take_bit_eq_mod)

lemma unat_ucast_64: "unat (ucast (x :: 32 word) :: 64 word) = unat x"
  using unat_less_32 [of x] by (simp add: unsigned_ucast_eq take_bit_nat_eq_self)

lemma unat_mul32x32_64: "unat (mul32x32_64 a b) = unat a * unat b"
proof -
  have "unat a * unat b < 2 ^ 32 * 2 ^ 32"
    using unat_less_32 [of a] unat_less_32 [of b] by (rule mult_strict_mono) simp_all
  then show ?thesis by (simp add: mul32x32_64_def unat_mult_lem [THEN iffD1] unat_ucast_64)
qed

lemma unat_add_64: "unat a + unat b < 2 ^ 64 \<Longrightarrow> unat (a + b :: 64 word) = unat a + unat b"
  by (simp add: unat_plus_if')

lemma unat_add_32: "unat a + unat b < 2 ^ 32 \<Longrightarrow> unat (a + b :: 32 word) = unat a + unat b"
  by (simp add: unat_plus_if')

lemma unat_times5: "unat w \<le> 0x33333333 \<Longrightarrow> unat (w * 5 :: 32 word) = unat w * 5"
  by (subst unat_mult_lem [THEN iffD1]) simp_all

lemma unat_sum5:
  assumes "unat a0 * unat b0 + unat a1 * unat b1 + unat a2 * unat b2 + unat a3 * unat b3 + unat a4 * unat b4 < 2 ^ 64"
  shows "unat (mul32x32_64 a0 b0 + mul32x32_64 a1 b1 + mul32x32_64 a2 b2 + mul32x32_64 a3 b3 + mul32x32_64 a4 b4) =
    unat a0 * unat b0 + unat a1 * unat b1 + unat a2 * unat b2 + unat a3 * unat b3 + unat a4 * unat b4"
  using assms by (simp add: unat_add_64 unat_mul32x32_64)

text \<open>The carries of the product.\<close>

lemma carry_low: "unat (ucast (t :: 64 word) AND 0x3ffffff :: 32 word) = unat t mod 2 ^ 26"
  unfolding unat_and_mask26 unat_ucast_32 by (simp add: mod_mod_cancel)

lemma carry_high: "unat t < 2 ^ 58 \<Longrightarrow> unat (ucast (drop_bit 26 (t :: 64 word)) :: 32 word) = unat t div 2 ^ 26"
  unfolding unat_ucast_32 unat_drop_bit by (simp add: less_mult_imp_div_less)

lemma carry_telescope:
  fixes D :: nat
  assumes "T0 = D * q0 + m0" "T1 + q0 = D * q1 + m1" "T2 + q1 = D * q2 + m2" "T3 + q2 = D * q3 + m3" "T4 + q3 = D * q4 + m4"
  shows "T0 + D * T1 + D ^ 2 * T2 + D ^ 3 * T3 + D ^ 4 * T4 =
    m0 + D * m1 + D ^ 2 * m2 + D ^ 3 * m3 + D ^ 4 * m4 + D ^ 5 * q4"
proof -
  let ?Q = "D * q0 + D ^ 2 * q1 + D ^ 3 * q2 + D ^ 4 * q3"
  have "T0 + D * T1 + D ^ 2 * T2 + D ^ 3 * T3 + D ^ 4 * T4 + ?Q =
      T0 + D * (T1 + q0) + D ^ 2 * (T2 + q1) + D ^ 3 * (T3 + q2) + D ^ 4 * (T4 + q3)"
    by (simp only: distrib_left add_ac)
  also have "\<dots> = m0 + D * m1 + D ^ 2 * m2 + D ^ 3 * m3 + D ^ 4 * m4 + D ^ 5 * q4 + ?Q"
    unfolding assms by (simp add: distrib_left mult_ac eval_nat_numeral)
  finally show ?thesis by simp
qed

lemma carry_chain:
  fixes T0 T1 T2 T3 T4 :: nat
  assumes "U1 = T1 + T0 div 2 ^ 26" "U2 = T2 + U1 div 2 ^ 26" "U3 = T3 + U2 div 2 ^ 26" "U4 = T4 + U3 div 2 ^ 26"
  shows "T0 mod 2 ^ 26 + 5 * (U4 div 2 ^ 26) + 2 ^ 26 * (U1 mod 2 ^ 26) + 2 ^ 52 * (U2 mod 2 ^ 26) +
      2 ^ 78 * (U3 mod 2 ^ 26) + 2 ^ 104 * (U4 mod 2 ^ 26) + poly_p * (U4 div 2 ^ 26) =
    T0 + 2 ^ 26 * T1 + 2 ^ 52 * T2 + 2 ^ 78 * T3 + 2 ^ 104 * T4"
proof -
  let ?D = "2 ^ 26 :: nat"
  have "T0 + ?D * T1 + ?D ^ 2 * T2 + ?D ^ 3 * T3 + ?D ^ 4 * T4 =
      T0 mod ?D + ?D * (U1 mod ?D) + ?D ^ 2 * (U2 mod ?D) + ?D ^ 3 * (U3 mod ?D) + ?D ^ 4 * (U4 mod ?D) + ?D ^ 5 * (U4 div ?D)"
    by (rule carry_telescope [where ?q0.0 = "T0 div ?D" and ?q1.0 = "U1 div ?D" and ?q2.0 = "U2 div ?D" and ?q3.0 = "U3 div ?D"])
      (simp_all only: assms [symmetric] mult_div_mod_eq)
  moreover have "?D ^ 5 * q = 5 * q + poly_p * q" for q
    by (simp add: poly_p_def)
  moreover have "?D ^ 2 = 2 ^ 52" "?D ^ 3 = 2 ^ 78" "?D ^ 4 = 2 ^ 104"
    by (simp_all only: power_mult [symmetric]) simp_all
  ultimately show ?thesis by (simp only: add_ac)
qed

lemma product_mod:
  fixes h0 h1 h2 h3 h4 r0 r1 r2 r3 r4 :: nat
  shows "(h0 + 2 ^ 26 * h1 + 2 ^ 52 * h2 + 2 ^ 78 * h3 + 2 ^ 104 * h4) *
      (r0 + 2 ^ 26 * r1 + 2 ^ 52 * r2 + 2 ^ 78 * r3 + 2 ^ 104 * r4) =
    (h0 * r0 + h1 * (r4 * 5) + h2 * (r3 * 5) + h3 * (r2 * 5) + h4 * (r1 * 5)) +
    2 ^ 26 * (h0 * r1 + h1 * r0 + h2 * (r4 * 5) + h3 * (r3 * 5) + h4 * (r2 * 5)) +
    2 ^ 52 * (h0 * r2 + h1 * r1 + h2 * r0 + h3 * (r4 * 5) + h4 * (r3 * 5)) +
    2 ^ 78 * (h0 * r3 + h1 * r2 + h2 * r1 + h3 * r0 + h4 * (r4 * 5)) +
    2 ^ 104 * (h0 * r4 + h1 * r3 + h2 * r2 + h3 * r1 + h4 * r0) +
    poly_p * (h1 * r4 + h2 * r3 + h3 * r2 + h4 * r1 + 2 ^ 26 * (h2 * r4 + h3 * r3 + h4 * r2) +
      2 ^ 52 * (h3 * r4 + h4 * r3) + 2 ^ 78 * (h4 * r4))"
  by (simp add: poly_p_def algebra_simps)

text \<open>The bounds of the five sums.\<close>

lemma product_bounds:
  fixes h0 h1 h2 h3 h4 r0 r1 r2 r3 r4 :: nat
  assumes "h0 \<le> 0xaaffffff" "h1 \<le> 0x7fffffe" "h2 \<le> 0x7fffffe" "h3 \<le> 0x7fffffe" "h4 \<le> 0x5fffffe"
    "r0 \<le> 0x3ffffff" "r1 \<le> 0x3ffff03" "r2 \<le> 0x3ffc0ff" "r3 \<le> 0x3f03fff" "r4 \<le> 0xfffff"
  shows "h0 * r0 + h1 * (r4 * 5) + h2 * (r3 * 5) + h3 * (r2 * 5) + h4 * (r1 * 5) \<le>
      0xaaffffff * 0x3ffffff + 0x7fffffe * (0xfffff * 5) + 0x7fffffe * (0x3f03fff * 5) + 0x7fffffe * (0x3ffc0ff * 5) + 0x5fffffe * (0x3ffff03 * 5)"
    "h0 * r1 + h1 * r0 + h2 * (r4 * 5) + h3 * (r3 * 5) + h4 * (r2 * 5) \<le>
      0xaaffffff * 0x3ffff03 + 0x7fffffe * 0x3ffffff + 0x7fffffe * (0xfffff * 5) + 0x7fffffe * (0x3f03fff * 5) + 0x5fffffe * (0x3ffc0ff * 5)"
    "h0 * r2 + h1 * r1 + h2 * r0 + h3 * (r4 * 5) + h4 * (r3 * 5) \<le>
      0xaaffffff * 0x3ffc0ff + 0x7fffffe * 0x3ffff03 + 0x7fffffe * 0x3ffffff + 0x7fffffe * (0xfffff * 5) + 0x5fffffe * (0x3f03fff * 5)"
    "h0 * r3 + h1 * r2 + h2 * r1 + h3 * r0 + h4 * (r4 * 5) \<le>
      0xaaffffff * 0x3f03fff + 0x7fffffe * 0x3ffc0ff + 0x7fffffe * 0x3ffff03 + 0x7fffffe * 0x3ffffff + 0x5fffffe * (0xfffff * 5)"
    "h0 * r4 + h1 * r3 + h2 * r2 + h3 * r1 + h4 * r0 \<le>
      0xaaffffff * 0xfffff + 0x7fffffe * 0x3f03fff + 0x7fffffe * 0x3ffc0ff + 0x7fffffe * 0x3ffff03 + 0x5fffffe * 0x3ffffff"
  subgoal by (intro add_mono mult_le_mono order_refl assms)
  subgoal by (intro add_mono mult_le_mono order_refl assms)
  subgoal by (intro add_mono mult_le_mono order_refl assms)
  subgoal by (intro add_mono mult_le_mono order_refl assms)
  subgoal by (intro add_mono mult_le_mono order_refl assms)
  done

text \<open>None of the five sums wraps.\<close>

lemma poly1305_sums_ok:
  assumes r: "limbs_r_ok r" and h: "limbs_sum_ok h" and sums: "poly1305_sums r h = (t0, t1, t2, t3, t4)"
  shows "\<exists>K. limbs_val h * limbs_val r =
      unat t0 + 2 ^ 26 * unat t1 + 2 ^ 52 * unat t2 + 2 ^ 78 * unat t3 + 2 ^ 104 * unat t4 + poly_p * K"
    "unat t0 \<le> 322122546570000000" "unat t1 \<le> 281000000000000000" "unat t2 \<le> 245000000000000000" "unat t3 \<le> 220000000000000000"
    "unat t4 \<le> 36645000000000000"
proof -
  obtain r0 r1 r2 r3 r4 where r_eq: "r = (r0, r1, r2, r3, r4)" by (cases r)
  obtain h0 h1 h2 h3 h4 where h_eq: "h = (h0, h1, h2, h3, h4)" by (cases h)
  have R: "unat r0 \<le> 0x3ffffff" "unat r1 \<le> 0x3ffff03" "unat r2 \<le> 0x3ffc0ff" "unat r3 \<le> 0x3f03fff" "unat r4 \<le> 0xfffff"
    using r by (simp_all add: r_eq)
  have H: "unat h0 \<le> 0xaaffffff" "unat h1 \<le> 0x7fffffe" "unat h2 \<le> 0x7fffffe" "unat h3 \<le> 0x7fffffe" "unat h4 \<le> 0x5fffffe"
    using h by (simp_all add: h_eq)
  note P = product_bounds [OF H R]
  have S: "unat (r1 * 5) = unat r1 * 5" "unat (r2 * 5) = unat r2 * 5" "unat (r3 * 5) = unat r3 * 5" "unat (r4 * 5) = unat r4 * 5"
    using R by (simp_all add: unat_times5)
  have t: "t0 = mul32x32_64 h0 r0 + mul32x32_64 h1 (r4 * 5) + mul32x32_64 h2 (r3 * 5) + mul32x32_64 h3 (r2 * 5) + mul32x32_64 h4 (r1 * 5)"
    "t1 = mul32x32_64 h0 r1 + mul32x32_64 h1 r0 + mul32x32_64 h2 (r4 * 5) + mul32x32_64 h3 (r3 * 5) + mul32x32_64 h4 (r2 * 5)"
    "t2 = mul32x32_64 h0 r2 + mul32x32_64 h1 r1 + mul32x32_64 h2 r0 + mul32x32_64 h3 (r4 * 5) + mul32x32_64 h4 (r3 * 5)"
    "t3 = mul32x32_64 h0 r3 + mul32x32_64 h1 r2 + mul32x32_64 h2 r1 + mul32x32_64 h3 r0 + mul32x32_64 h4 (r4 * 5)"
    "t4 = mul32x32_64 h0 r4 + mul32x32_64 h1 r3 + mul32x32_64 h2 r2 + mul32x32_64 h3 r1 + mul32x32_64 h4 r0"
    using sums by (simp_all add: poly1305_sums_def r_eq h_eq Let_def)
  note T = unat_sum5 [OF le_less_trans [OF P(1) [folded S]], folded t(1), unfolded S]
    unat_sum5 [OF le_less_trans [OF P(2) [folded S]], folded t(2), unfolded S]
    unat_sum5 [OF le_less_trans [OF P(3) [folded S]], folded t(3), unfolded S]
    unat_sum5 [OF le_less_trans [OF P(4) [folded S]], folded t(4), unfolded S]
    unat_sum5 [OF le_less_trans [OF P(5) [folded S]], folded t(5), unfolded S]
  show "\<exists>K. limbs_val h * limbs_val r =
      unat t0 + 2 ^ 26 * unat t1 + 2 ^ 52 * unat t2 + 2 ^ 78 * unat t3 + 2 ^ 104 * unat t4 + poly_p * K"
    unfolding r_eq h_eq limbs_val.simps product_mod by (subst T, simp)+ blast
  show "unat t0 \<le> 322122546570000000" by (subst T(1), simp) (rule order_trans [OF P(1)], simp)
  show "unat t1 \<le> 281000000000000000" by (subst T(2), simp) (rule order_trans [OF P(2)], simp)
  show "unat t2 \<le> 245000000000000000" by (subst T(3), simp) (rule order_trans [OF P(3)], simp)
  show "unat t3 \<le> 220000000000000000" by (subst T(4), simp) (rule order_trans [OF P(4)], simp)
  show "unat t4 \<le> 36645000000000000" by (subst T(5), simp) (rule order_trans [OF P(5)], simp)
qed

lemma poly1305_donna_mul_ok:
  assumes "limbs_r_ok r" and "limbs_sum_ok h"
  shows "limbs_ok (poly1305_donna_mul r h) \<and>
    limbs_val (poly1305_donna_mul r h) mod poly_p = limbs_val h * limbs_val r mod poly_p"
proof -
  obtain t0 t1 t2 t3 t4 where t: "poly1305_sums r h = (t0, t1, t2, t3, t4)" by (cases "poly1305_sums r h")
  note B = poly1305_sums_ok(2-) [OF assms t]
  define u1 where "u1 = t1 + drop_bit 26 t0"
  define u2 where "u2 = t2 + ucast (ucast (drop_bit 26 u1) :: 32 word)"
  define u3 where "u3 = t3 + ucast (ucast (drop_bit 26 u2) :: 32 word)"
  define u4 where "u4 = t4 + ucast (ucast (drop_bit 26 u3) :: 32 word)"
  define b where "b = (ucast (drop_bit 26 u4) :: 32 word)"
  have mul: "poly1305_donna_mul r h = ((ucast t0 AND 0x3ffffff) + b * 5, ucast u1 AND 0x3ffffff, ucast u2 AND 0x3ffffff,
      ucast u3 AND 0x3ffffff, ucast u4 AND 0x3ffffff)"
    unfolding poly1305_donna_mul_def t u1_def u2_def u3_def u4_def b_def by (simp only: Let_def prod.case)
  have U1: "unat u1 = unat t1 + unat t0 div 2 ^ 26"
    using B(1,2) unfolding u1_def unat_drop_bit [symmetric] by (intro unat_add_64) (simp add: unat_drop_bit)
  have b1: "unat u1 < 2 ^ 58" using B(1,2) unfolding U1 by simp
  have U2: "unat u2 = unat t2 + unat u1 div 2 ^ 26"
    using B(3) b1 unfolding u2_def by (subst unat_add_64) (simp_all add: unat_ucast_64 carry_high)
  have b2: "unat u2 < 2 ^ 58" using B(3) b1 unfolding U2 by simp
  have U3: "unat u3 = unat t3 + unat u2 div 2 ^ 26"
    using B(4) b2 unfolding u3_def by (subst unat_add_64) (simp_all add: unat_ucast_64 carry_high)
  have b3: "unat u3 < 2 ^ 58" using B(4) b2 unfolding U3 by simp
  have U4: "unat u4 = unat t4 + unat u3 div 2 ^ 26"
    using B(5) b3 unfolding u4_def by (subst unat_add_64) (simp_all add: unat_ucast_64 carry_high)
  have b4: "unat u4 div 2 ^ 26 \<le> 0x20900000" using B(5) b3 unfolding U4 by simp
  have ub: "unat b = unat u4 div 2 ^ 26" unfolding b_def using B(5) b3 U4 by (intro carry_high) simp
  have x0: "unat ((ucast t0 AND 0x3ffffff) + b * 5) = unat t0 mod 2 ^ 26 + 5 * (unat u4 div 2 ^ 26)"
    using b4 ub mod_less_divisor [of "2 ^ 26" "unat t0"]
    by (subst unat_add_32) (simp_all add: carry_low unat_times5 del: mod_less_divisor)
  have "limbs_val (poly1305_donna_mul r h) + poly_p * (unat u4 div 2 ^ 26) =
      unat t0 + 2 ^ 26 * unat t1 + 2 ^ 52 * unat t2 + 2 ^ 78 * unat t3 + 2 ^ 104 * unat t4"
    unfolding mul limbs_val.simps x0 carry_low by (rule carry_chain [OF U1 U2 U3 U4])
  with poly1305_sums_ok(1) [OF assms t] obtain K where
    "limbs_val h * limbs_val r = limbs_val (poly1305_donna_mul r h) + poly_p * (unat u4 div 2 ^ 26) + poly_p * K" by metis
  then have "limbs_val (poly1305_donna_mul r h) mod poly_p = limbs_val h * limbs_val r mod poly_p" by simp
  moreover have "limbs_ok (poly1305_donna_mul r h)"
    using b4 mod_less_divisor [of "2 ^ 26" "unat t0"] unfolding mul limbs_ok.simps x0 carry_low by simp
  ultimately show ?thesis by blast
qed

section \<open>Blocks as numbers\<close>

lemma nat_bit_less: "a < 2 ^ k \<Longrightarrow> bit (a :: nat) n \<Longrightarrow> n < k"
  using bit_take_bit_iff [of k a n] by (simp add: take_bit_nat_eq_self)

lemma or_push_bit: "a < 2 ^ k \<Longrightarrow> a OR push_bit k b = a + 2 ^ k * (b :: nat)"
proof -
  assume "a < 2 ^ k"
  then have "a + push_bit k b = a OR push_bit k b"
    by (intro disjunctive_add) (auto simp: bit_push_bit_iff dest: nat_bit_less)
  then show ?thesis by (simp add: push_bit_eq_mult mult.commute)
qed

lemma and_split:
  assumes "a < 2 ^ k" "c < 2 ^ k"
  shows "(a + 2 ^ k * b) AND (c + 2 ^ k * d) = (a AND c) + 2 ^ k * (b AND d :: nat)"
proof -
  have "a AND c < 2 ^ k"
  proof -
    have "take_bit k (a AND c) = a AND c" using assms by (simp add: take_bit_and take_bit_nat_eq_self)
    then show ?thesis using take_bit_nat_less_exp [of k "a AND c"] by (simp only:)
  qed
  then have "(a AND c) + 2 ^ k * (b AND d) = (a AND c) OR push_bit k (b AND d)" by (simp only: or_push_bit)
  moreover have "(a OR push_bit k b) AND (c OR push_bit k d) = (a AND c) OR push_bit k (b AND d)"
    using assms by (auto simp: bit_eq_iff bit_simps dest: nat_bit_less)
  ultimately show ?thesis using assms by (simp only: or_push_bit)
qed

lemma unat_or_push: "unat a < 2 ^ k \<Longrightarrow> 2 ^ k * unat b < 2 ^ LENGTH('a) \<Longrightarrow>
   unat (a OR push_bit k b :: 'a :: len word) = unat a + 2 ^ k * unat b"
proof -
  assume a: "unat a < 2 ^ k" and b: "2 ^ k * unat b < 2 ^ LENGTH('a)"
  have "unat (a OR push_bit k b) = unat a OR take_bit LENGTH('a) (push_bit k (unat b))"
    by (simp only: unsigned_or_eq unsigned_push_bit_eq)
  also have "take_bit LENGTH('a) (push_bit k (unat b)) = push_bit k (unat b)"
    using b by (simp add: take_bit_nat_eq_self push_bit_eq_mult mult.commute)
  finally show ?thesis using a by (simp only: or_push_bit)
qed

lemma unat_U8TO32_LE: "4 \<le> length p \<Longrightarrow> unat (U8TO32_LE p) = le_nat (take 4 p)"
proof -
  assume "4 \<le> length p"
  then obtain a b c d q where p: "p = a # b # c # d # q"
    by (cases p rule: remdups_adj.cases; cases "tl (tl p)" rule: remdups_adj.cases) auto
  have u: "unat (ucast (x :: byte) :: 32 word) = unat x" "unat x < 256" for x
    using unsigned_less [of x, where 'a = nat] by (simp_all add: unsigned_ucast_eq take_bit_nat_eq_self)
  define w3 w2 w1 :: "32 word" where "w3 = ucast d" "w2 = ucast c OR push_bit 8 w3" "w1 = ucast b OR push_bit 8 w2"
  have "U8TO32_LE p = ucast a OR push_bit 8 w1"
    by (simp only: U8TO32_LE_def p w3_w2_w1_def nth_Cons_0 push_bit_or push_bit_push_bit) simp
  moreover have "unat w2 = unat c + 2 ^ 8 * unat d"
    unfolding w3_w2_w1_def using u [of c] u [of d] by (subst unat_or_push) simp_all
  moreover have "unat w1 = unat b + 2 ^ 8 * unat w2"
    unfolding w3_w2_w1_def(3) using u [of b] u [of c] u [of d] calculation(2) by (subst unat_or_push) simp_all
  moreover have "unat (ucast a OR push_bit 8 w1 :: 32 word) = unat a + 2 ^ 8 * unat w1"
    using u [of a] u [of b] u [of c] u [of d] calculation(2,3) by (subst unat_or_push) simp_all
  ultimately show ?thesis by (simp add: p)
qed

lemma le_nat_append: "le_nat (xs @ ys) = le_nat xs + 256 ^ length xs * le_nat ys"
  by (induction xs) (simp_all add: algebra_simps)

lemma le_nat_less: "le_nat xs < 256 ^ length xs"
proof (induction xs)
  case (Cons b xs)
  have "unat b < 256" using unsigned_less [of b, where 'a = nat] by simp
  then have "unat b + 256 * le_nat xs < 256 * (le_nat xs + 1)" by simp
  also have "\<dots> \<le> 256 * 256 ^ length xs" using Cons by (intro mult_left_mono) simp_all
  finally show ?case by simp
qed simp

lemma le_nat_words:
  assumes "16 \<le> length m"
  shows "le_nat (take 16 m) = unat (U8TO32_LE m) + 2 ^ 32 * unat (U8TO32_LE (drop 4 m)) +
    2 ^ 64 * unat (U8TO32_LE (drop 8 m)) + 2 ^ 96 * unat (U8TO32_LE (drop 12 m))"
proof -
  have "take 16 m = take 4 m @ take 4 (drop 4 m) @ take 4 (drop 8 m) @ take 4 (drop 12 m)"
    using take_add [of 4 12 m] take_add [of 4 8 "drop 4 m"] take_add [of 4 4 "drop 8 m"] by simp
  then show ?thesis using assms by (simp add: le_nat_append unat_U8TO32_LE min_def)
qed

text \<open>The limbs of a number of 128 bits in four words.\<close>

lemma div_exp_add: "(N :: nat) div 2 ^ (i + j) = N div 2 ^ i div 2 ^ j"
  by (simp only: power_add div_mult2_eq)

lemma digit_below: "(x + 2 ^ (i + j) * y) div 2 ^ i mod 2 ^ j = x div 2 ^ i mod (2 ^ j :: nat)"
proof -
  have "x + 2 ^ (i + j) * y = x + 2 ^ j * y * 2 ^ i" by (simp add: power_add mult_ac)
  then have "(x + 2 ^ (i + j) * y) div 2 ^ i = x div 2 ^ i + 2 ^ j * y"
    by (simp only: div_mult_self1 [OF power_not_zero])
  then show ?thesis by simp
qed

lemma horner4:
  fixes D :: nat
  assumes "N = D * q1 + m0" "q1 = D * q2 + m1" "q2 = D * q3 + m2" "q3 = D * q4 + m3"
  shows "N = m0 + D * m1 + D ^ 2 * m2 + D ^ 3 * m3 + D ^ 4 * q4"
  unfolding assms by (simp add: distrib_left mult_ac eval_nat_numeral)

lemma digits_26:
  "(N :: nat) = N mod 2 ^ 26 + 2 ^ 26 * (N div 2 ^ 26 mod 2 ^ 26) + 2 ^ 52 * (N div 2 ^ 52 mod 2 ^ 26) +
     2 ^ 78 * (N div 2 ^ 78 mod 2 ^ 26) + 2 ^ 104 * (N div 2 ^ 104)"
proof -
  let ?D = "2 ^ 26 :: nat"
  have q: "N div 2 ^ 52 = N div ?D div ?D" "N div 2 ^ 78 = N div 2 ^ 52 div ?D" "N div 2 ^ 104 = N div 2 ^ 78 div ?D"
    by (simp_all only: div_exp_add [symmetric]) simp_all
  have "N = N mod ?D + ?D * (N div ?D mod ?D) + ?D ^ 2 * (N div 2 ^ 52 mod ?D) + ?D ^ 3 * (N div 2 ^ 78 mod ?D) +
      ?D ^ 4 * (N div 2 ^ 104)"
    by (rule horner4 [where ?q1.0 = "N div ?D" and ?q2.0 = "N div 2 ^ 52" and ?q3.0 = "N div 2 ^ 78"])
      (simp_all only: q mult_div_mod_eq)
  moreover have "?D ^ 2 = 2 ^ 52" "?D ^ 3 = 2 ^ 78" "?D ^ 4 = 2 ^ 104"
    by (simp_all only: power_mult [symmetric]) simp_all
  ultimately show ?thesis by (simp only:)
qed

lemma limbs_of_128:
  fixes a b c d :: nat
  assumes "a < 2 ^ 32" "b < 2 ^ 32" "c < 2 ^ 32" and N: "N = a + 2 ^ 32 * b + 2 ^ 64 * c + 2 ^ 96 * d"
  shows "N mod 2 ^ 26 = a mod 2 ^ 26" "N div 2 ^ 26 mod 2 ^ 26 = (a + 2 ^ 32 * b) div 2 ^ 26 mod 2 ^ 26"
    "N div 2 ^ 52 mod 2 ^ 26 = (b + 2 ^ 32 * c) div 2 ^ 20 mod 2 ^ 26"
    "N div 2 ^ 78 mod 2 ^ 26 = (c + 2 ^ 32 * d) div 2 ^ 14 mod 2 ^ 26" "N div 2 ^ 104 = d div 2 ^ 8"
proof -
  have N32: "N div 2 ^ 32 = b + 2 ^ 32 * c + 2 ^ 64 * d"
  proof -
    have "N = a + (b + 2 ^ 32 * c + 2 ^ 64 * d) * 2 ^ 32" by (simp add: N add.assoc)
    then show ?thesis using assms(1) by simp
  qed
  have N64: "N div 2 ^ 64 = c + 2 ^ 32 * d"
  proof -
    have "N div 2 ^ 64 = (b + (c + 2 ^ 32 * d) * 2 ^ 32) div 2 ^ 32"
      using div_exp_add [of N 32 32] N32 by simp
    then show ?thesis using assms(2) by simp
  qed
  have N96: "N div 2 ^ 96 = d" using div_exp_add [of N 64 32] N64 assms(3) by simp
  show "N mod 2 ^ 26 = a mod 2 ^ 26"
    using digit_below [of a 0 26 "2 ^ 6 * b + 2 ^ 38 * c + 2 ^ 70 * d"] by (simp add: N add.assoc)
  show "N div 2 ^ 26 mod 2 ^ 26 = (a + 2 ^ 32 * b) div 2 ^ 26 mod 2 ^ 26"
    using digit_below [of "a + 2 ^ 32 * b" 26 26 "2 ^ 12 * c + 2 ^ 44 * d"] by (simp add: N add.assoc)
  show "N div 2 ^ 52 mod 2 ^ 26 = (b + 2 ^ 32 * c) div 2 ^ 20 mod 2 ^ 26"
    using digit_below [of "b + 2 ^ 32 * c" 20 26 "2 ^ 18 * d"] div_exp_add [of N 32 20] N32 by simp
  show "N div 2 ^ 78 mod 2 ^ 26 = (c + 2 ^ 32 * d) div 2 ^ 14 mod 2 ^ 26"
    using div_exp_add [of N 64 14] N64 by simp
  show "N div 2 ^ 104 = d div 2 ^ 8" using div_exp_add [of N 96 8] N96 by simp
qed

lemma unat_limb:
  assumes "k \<le> 32"
  shows "unat (ucast (drop_bit k (push_bit 32 (ucast t') OR ucast t :: 64 word) AND 0x3ffffff) :: 32 word) =
    (unat (t :: 32 word) + 2 ^ 32 * unat (t' :: 32 word)) div 2 ^ k mod 2 ^ 26"
proof -
  define w :: "64 word" where "w = push_bit 32 (ucast t') OR ucast t"
  have "unat w = unat t + 2 ^ 32 * unat t'"
    unfolding w_def using unat_less_32 [of t] unat_less_32 [of t']
    by (subst or.commute) (subst unat_or_push, simp_all add: unat_ucast_64)
  moreover have "drop_bit k w AND 0x3ffffff = take_bit 26 (drop_bit k w)"
    by (simp add: take_bit_eq_mask mask_eq_exp_minus_1)
  then have "unat (drop_bit k w AND 0x3ffffff) = unat (drop_bit k w) mod 2 ^ 26"
    by (simp only: unsigned_take_bit_eq) (simp only: take_bit_eq_mod)
  ultimately show ?thesis unfolding w_def [symmetric] unat_ucast_32 by (simp add: unat_drop_bit)
qed

lemma poly1305_add_ok:
  assumes h: "limbs_ok h" and m: "16 \<le> length m" and hibit: "hibit = 0 \<or> hibit = push_bit 24 1"
  shows "limbs_sum_ok (poly1305_add hibit m h)"
    and "limbs_val (poly1305_add hibit m h) = limbs_val h + le_nat (take 16 m) + 2 ^ 104 * unat hibit"
proof -
  obtain h0 h1 h2 h3 h4 where h_eq: "h = (h0, h1, h2, h3, h4)" by (cases h)
  define t0 t1 t2 t3 where "t0 = U8TO32_LE m" "t1 = U8TO32_LE (drop 4 m)" "t2 = U8TO32_LE (drop 8 m)" "t3 = U8TO32_LE (drop 12 m)"
  define N where "N = le_nat (take 16 m)"
  have "N = unat t0 + 2 ^ 32 * unat t1 + 2 ^ 64 * unat t2 + 2 ^ 96 * unat t3"
    unfolding N_def t0_t1_t2_t3_def by (rule le_nat_words [OF m])
  note L = limbs_of_128 [OF unat_less_32 unat_less_32 unat_less_32 this]
  have H: "unat h0 \<le> 0xa7000000" "unat h1 < 2 ^ 26" "unat h2 < 2 ^ 26" "unat h3 < 2 ^ 26" "unat h4 < 2 ^ 26"
    using h by (simp_all add: h_eq)
  have top: "unat (drop_bit 8 t3 OR hibit) = N div 2 ^ 104 + unat hibit" and hb: "unat hibit \<le> 2 ^ 24"
    and t3: "N div 2 ^ 104 < 2 ^ 24"
  proof -
    show t3: "N div 2 ^ 104 < 2 ^ 24" unfolding L(5) using unat_less_32 [of t3] by simp
    show "unat hibit \<le> 2 ^ 24" using hibit by auto
    have "unat (drop_bit 8 t3 OR push_bit 24 1) = unat (drop_bit 8 t3) + 2 ^ 24 * unat (1 :: 32 word)"
      using t3 unfolding L(5) by (intro unat_or_push) (simp_all add: unat_drop_bit)
    then show "unat (drop_bit 8 t3 OR hibit) = N div 2 ^ 104 + unat hibit"
      unfolding L(5) using hibit by (auto simp: unat_drop_bit)
  qed
  define x0 x1 x2 x3 x4 where "x0 = h0 + (t0 AND 0x3ffffff)"
    "x1 = h1 + ucast (drop_bit 26 (push_bit 32 (ucast t1) OR ucast t0 :: 64 word) AND 0x3ffffff)"
    "x2 = h2 + ucast (drop_bit 20 (push_bit 32 (ucast t2) OR ucast t1 :: 64 word) AND 0x3ffffff)"
    "x3 = h3 + ucast (drop_bit 14 (push_bit 32 (ucast t3) OR ucast t2 :: 64 word) AND 0x3ffffff)"
    "x4 = h4 + (drop_bit 8 t3 OR hibit)"
  have eq: "poly1305_add hibit m h = (x0, x1, x2, x3, x4)"
    unfolding poly1305_add_def h_eq x0_x1_x2_x3_x4_def t0_t1_t2_t3_def by (simp only: Let_def prod.case)
  have M: "N mod 2 ^ 26 < 2 ^ 26" "N div 2 ^ 26 mod 2 ^ 26 < 2 ^ 26" "N div 2 ^ 52 mod 2 ^ 26 < 2 ^ 26" "N div 2 ^ 78 mod 2 ^ 26 < 2 ^ 26"
    by simp_all
  have X: "unat x0 = unat h0 + N mod 2 ^ 26" "unat x1 = unat h1 + N div 2 ^ 26 mod 2 ^ 26"
    "unat x2 = unat h2 + N div 2 ^ 52 mod 2 ^ 26" "unat x3 = unat h3 + N div 2 ^ 78 mod 2 ^ 26"
    "unat x4 = unat h4 + (N div 2 ^ 104 + unat hibit)"
    subgoal unfolding x0_x1_x2_x3_x4_def L(1) using H(1) M(1)[unfolded L(1)] by (subst unat_add_32) (simp_all only: unat_and_mask26, simp)
    subgoal unfolding x0_x1_x2_x3_x4_def L(2) using H(2) M(2)[unfolded L(2)] by (subst unat_add_32) (simp_all only: unat_limb, simp_all)
    subgoal unfolding x0_x1_x2_x3_x4_def L(3) using H(3) M(3)[unfolded L(3)] by (subst unat_add_32) (simp_all only: unat_limb, simp_all)
    subgoal unfolding x0_x1_x2_x3_x4_def L(4) using H(4) M(4)[unfolded L(4)] by (subst unat_add_32) (simp_all only: unat_limb, simp_all)
    subgoal unfolding x0_x1_x2_x3_x4_def using H(5) t3 hb by (subst unat_add_32) (simp_all only: top, simp)
    done
  obtain n0 n1 n2 n3 n4 where n: "N mod 2 ^ 26 = n0" "N div 2 ^ 26 mod 2 ^ 26 = n1" "N div 2 ^ 52 mod 2 ^ 26 = n2"
    "N div 2 ^ 78 mod 2 ^ 26 = n3" "N div 2 ^ 104 = n4" by blast
  show "limbs_sum_ok (poly1305_add hibit m h)"
    unfolding eq limbs_sum_ok.simps X n using H M [unfolded n] t3 [unfolded n] hb by simp
  have N: "N = n0 + 2 ^ 26 * n1 + 2 ^ 52 * n2 + 2 ^ 78 * n3 + 2 ^ 104 * n4"
    using digits_26 [of N] unfolding n .
  have "limbs_val (poly1305_add hibit m h) = limbs_val h + N + 2 ^ 104 * unat hibit"
    unfolding eq unfolding h_eq limbs_val.simps X n unfolding N distrib_left by (simp only: add_ac)
  then show "limbs_val (poly1305_add hibit m h) = limbs_val h + le_nat (take 16 m) + 2 ^ 104 * unat hibit"
    unfolding N_def .
qed

lemma and_limb:
  assumes "k \<le> 26" "c AND 0x3ffffff = c"
  shows "unat ((drop_bit k t OR push_bit (32 - k) t' :: 32 word) AND c) = (unat t + 2 ^ 32 * unat t') div 2 ^ k mod 2 ^ 26 AND unat c"
proof -
  have m: "w AND 0x3ffffff = take_bit 26 w" for w :: "'a :: len word"
    by (simp add: take_bit_eq_mask mask_eq_exp_minus_1)
  have "ucast (take_bit 26 (drop_bit k (push_bit 32 (ucast t') OR ucast t :: 64 word))) =
      take_bit 26 (drop_bit k t OR push_bit (32 - k) t')"
    using assms(1) by (intro bit_word_eqI) (auto simp: bit_simps add.commute)
  then have "unat (take_bit 26 (drop_bit k t OR push_bit (32 - k) t')) = (unat t + 2 ^ 32 * unat t') div 2 ^ k mod 2 ^ 26"
    using unat_limb [of k t' t] assms(1) by (simp only: m)
  moreover have "(drop_bit k t OR push_bit (32 - k) t') AND c = take_bit 26 (drop_bit k t OR push_bit (32 - k) t') AND c"
  proof -
    have "x AND c = take_bit 26 x AND c" for x
      by (subst assms(2) [symmetric]) (simp only: m [symmetric] and.commute and.left_commute)
    then show ?thesis .
  qed
  ultimately show ?thesis by (simp only: unsigned_and_eq)
qed

lemma poly1305_clamp_ok:
  assumes "16 \<le> length key"
  shows "limbs_r_ok (poly1305_clamp key)" and "limbs_val (poly1305_clamp key) = poly_r key"
proof -
  define t0 t1 t2 t3 where "t0 = U8TO32_LE key" "t1 = U8TO32_LE (drop 4 key)" "t2 = U8TO32_LE (drop 8 key)" "t3 = U8TO32_LE (drop 12 key)"
  define N where "N = le_nat (take 16 key)"
  have "N = unat t0 + 2 ^ 32 * unat t1 + 2 ^ 64 * unat t2 + 2 ^ 96 * unat t3"
    unfolding N_def t0_t1_t2_t3_def by (rule le_nat_words [OF assms])
  note L = limbs_of_128 [OF unat_less_32 unat_less_32 unat_less_32 this]
  obtain n0 n1 n2 n3 n4 where n: "N mod 2 ^ 26 = n0" "N div 2 ^ 26 mod 2 ^ 26 = n1" "N div 2 ^ 52 mod 2 ^ 26 = n2"
    "N div 2 ^ 78 mod 2 ^ 26 = n3" "N div 2 ^ 104 = n4" by blast
  define r0 r1 r2 r3 r4 where "r0 = t0 AND 0x3ffffff" "r1 = (drop_bit 26 t0 OR push_bit 6 t1) AND 0x3ffff03"
    "r2 = (drop_bit 20 t1 OR push_bit 12 t2) AND 0x3ffc0ff" "r3 = (drop_bit 14 t2 OR push_bit 18 t3) AND 0x3f03fff"
    "r4 = drop_bit 8 t3 AND 0x00fffff"
  have eq: "poly1305_clamp key = (r0, r1, r2, r3, r4)"
    unfolding poly1305_clamp_def t0_t1_t2_t3_def r0_r1_r2_r3_r4_def by (simp only: Let_def)
  have R: "unat r0 = n0 AND 0x3ffffff" "unat r1 = n1 AND 0x3ffff03" "unat r2 = n2 AND 0x3ffc0ff" "unat r3 = n3 AND 0x3f03fff"
    "unat r4 = n4 AND 0x00fffff"
    subgoal
    proof -
      have "n0 AND 0x3ffffff = n0 mod 2 ^ 26"
        unfolding take_bit_eq_mod [symmetric] by (simp add: take_bit_eq_mask mask_eq_exp_minus_1)
      also have "\<dots> = n0" unfolding n(1) [symmetric] by (rule mod_mod_trivial)
      finally show ?thesis unfolding r0_r1_r2_r3_r4_def unat_and_mask26 L(1) [symmetric] n(1) by (rule sym)
    qed
    subgoal using and_limb [of 26 "0x3ffff03" t0 t1] unfolding r0_r1_r2_r3_r4_def n(2) [symmetric] L(2) by simp
    subgoal using and_limb [of 20 "0x3ffc0ff" t1 t2] unfolding r0_r1_r2_r3_r4_def n(3) [symmetric] L(3) by simp
    subgoal using and_limb [of 14 "0x3f03fff" t2 t3] unfolding r0_r1_r2_r3_r4_def n(4) [symmetric] L(4) by simp
    subgoal using unsigned_and_eq [of "drop_bit 8 t3" "0x00fffff", where 'a = nat]
      unfolding r0_r1_r2_r3_r4_def n(5) [symmetric] L(5) unat_drop_bit [symmetric] by simp
    done
  have le: "unat (w AND c :: 32 word) \<le> unat c" for w c using word_and_le1 by (simp add: word_le_nat_alt)
  show "limbs_r_ok (poly1305_clamp key)"
    unfolding eq limbs_r_ok.simps r0_r1_r2_r3_r4_def
    using le [of t0 "0x3ffffff"] le [of _ "0x3ffff03"] le [of _ "0x3ffc0ff"] le [of _ "0x3f03fff"] le [of "drop_bit 8 t3" "0x00fffff"] by simp
  have lt: "n0 < 2 ^ 26" "n1 < 2 ^ 26" "n2 < 2 ^ 26" "n3 < 2 ^ 26" unfolding n [symmetric] by simp_all
  have N: "N = n0 + 2 ^ 26 * (n1 + 2 ^ 26 * (n2 + 2 ^ 26 * (n3 + 2 ^ 26 * n4)))"
    using digits_26 [of N] unfolding n by simp
  have mask: "0x0ffffffc0ffffffc0ffffffc0fffffff =
      0x3ffffff + 2 ^ 26 * (0x3ffff03 + 2 ^ 26 * (0x3ffc0ff + 2 ^ 26 * (0x3f03fff + 2 ^ 26 * (0xfffff :: nat))))" by simp
  have "poly_r key = (n0 AND 0x3ffffff) + 2 ^ 26 * ((n1 AND 0x3ffff03) + 2 ^ 26 * ((n2 AND 0x3ffc0ff) +
      2 ^ 26 * ((n3 AND 0x3f03fff) + 2 ^ 26 * (n4 AND 0xfffff))))"
    unfolding poly_r_def N_def [symmetric] N mask
    by (subst and_split [where k = 26], rule lt, simp)+ (rule refl)
  then show "limbs_val (poly1305_clamp key) = poly_r key"
    unfolding eq limbs_val.simps R by simp
qed

section \<open>The loop\<close>

lemma mod_step: "(a mod p + x) * r mod p = (a + x) * (r :: nat) mod p"
  by (metis mod_add_left_eq mod_mult_left_eq)

lemma block_step:
  assumes "limbs_r_ok r" "limbs_ok h" "16 \<le> length m" "hibit = 0 \<or> hibit = push_bit 24 1"
  shows "limbs_ok (poly1305_donna_mul r (poly1305_add hibit m h))"
    and "limbs_val (poly1305_donna_mul r (poly1305_add hibit m h)) mod poly_p =
      (limbs_val h mod poly_p + (le_nat (take 16 m) + 2 ^ 104 * unat hibit)) * limbs_val r mod poly_p"
  using poly1305_add_ok [OF assms(2-4)] poly1305_donna_mul_ok [OF assms(1), of "poly1305_add hibit m h"]
  by (simp_all add: mod_step add.assoc)

lemma poly1305_donna_16bytes_ok:
  "limbs_r_ok r \<Longrightarrow> limbs_ok h \<Longrightarrow> poly1305_donna_16bytes r m h = (h', m') \<Longrightarrow>
   limbs_ok h' \<and> length m' < 16 \<and>
   poly_eval (limbs_val r) m (limbs_val h mod poly_p) = poly_eval (limbs_val r) m' (limbs_val h' mod poly_p)"
proof (induction r m h arbitrary: h' m' rule: poly1305_donna_16bytes.induct)
  case (1 r m h)
  show ?case
  proof (cases "length m < 16")
    case True
    with "1.prems" show ?thesis by (simp add: poly1305_donna_16bytes.simps [of r m h])
  next
    case False
    let ?k = "poly1305_donna_mul r (poly1305_add (push_bit 24 1) m h)"
    have len: "16 \<le> length m" using False by simp
    note step = block_step [OF "1.prems"(1,2) len disjI2 [OF refl]]
    have "m \<noteq> []" "length (take 16 m) = 16" using len by auto
    then have "poly_eval (limbs_val r) m (limbs_val h mod poly_p) = poly_eval (limbs_val r) (drop 16 m) (limbs_val ?k mod poly_p)"
      unfolding step(2) by (subst poly_eval.simps) (simp add: add.assoc)
    with "1.IH" [OF False "1.prems"(1) step(1), of h' m'] "1.prems"(3) False show ?thesis
      by (simp add: poly1305_donna_16bytes.simps [of r m h])
  qed
qed

lemma le_nat_replicate_0: "le_nat (replicate n 0) = 0"
  by (induction n) simp_all

lemma poly1305_donna_atmost15bytes_ok:
  assumes "limbs_r_ok r" "limbs_ok h" "length m < 16"
  shows "limbs_ok (poly1305_donna_atmost15bytes r m h)"
    and "limbs_val (poly1305_donna_atmost15bytes r m h) mod poly_p = poly_eval (limbs_val r) m (limbs_val h mod poly_p)"
proof -
  define mp where "mp = m @ [1] @ replicate (15 - length m) (0 :: byte)"
  have len: "16 \<le> length mp" using assms(3) by (simp add: mp_def)
  have "le_nat (take 16 mp) = le_nat m + 2 ^ (8 * length m)"
    using assms(3) by (simp add: mp_def le_nat_append le_nat_replicate_0 power_mult)
  moreover have "poly_eval (limbs_val r) m a = (a + le_nat m + 2 ^ (8 * length m)) * limbs_val r mod poly_p" if "m \<noteq> []" for a
    using that assms(3) by (subst poly_eval.simps) (simp add: poly_eval.simps [of _ "[]"])
  moreover note step = block_step [OF assms(1,2) len disjI1 [OF refl]]
  ultimately show "limbs_ok (poly1305_donna_atmost15bytes r m h)"
      "limbs_val (poly1305_donna_atmost15bytes r m h) mod poly_p = poly_eval (limbs_val r) m (limbs_val h mod poly_p)"
    using assms(2) unfolding poly1305_donna_atmost15bytes_def mp_def [symmetric] Let_def
    by (cases "m = []"; simp add: add.assoc poly_eval.simps [of _ "[]"])+
qed

section \<open>The end\<close>

fun limbs_norm :: "limbs \<Rightarrow> bool" where
  "limbs_norm (h0, h1, h2, h3, h4) \<longleftrightarrow>
     unat h0 < 2 ^ 26 \<and> unat h1 < 2 ^ 26 \<and> unat h2 < 2 ^ 26 \<and> unat h3 < 2 ^ 26 \<and> unat h4 < 2 ^ 26"

text \<open>The carries of \<^verbatim>\<open>poly1305_donna_finish\<close>, on numbers: the second carry never reaches past the second limb.\<close>

lemma full_carry:
  fixes h0 h1 h2 h3 h4 :: nat
  assumes h: "h0 \<le> 0xa7000000" "h1 < D" "h2 < D" "h3 < D" "h4 < D" and D: "D = 2 ^ 26"
    and c: "h0 = D * b0 + m0" "h1 + b0 = D * b1 + m1" "h2 + b1 = D * b2 + m2" "h3 + b2 = D * b3 + m3" "h4 + b3 = D * b4 + m4"
      "m0 + 5 * b4 = D * b5 + x0"
    and m: "m0 < D" "m1 < D" "m2 < D" "m3 < D" "m4 < D" "x0 < D"
  shows "b0 \<le> 41" "b1 \<le> 1" "b2 \<le> 1" "b3 \<le> 1" "b4 \<le> 1" "m1 + b5 < D"
proof -
  show b0: "b0 \<le> 41" using h(1) c(1) D by simp
  show b1: "b1 \<le> 1" using h(2) c(2) D b0 by simp
  show b2: "b2 \<le> 1" using h(3) c(3) D b1 by simp
  show b3: "b3 \<le> 1" using h(4) c(4) D b2 by simp
  show b4: "b4 \<le> 1" using h(5) c(5) D b3 by simp
  show "m1 + b5 < D"
  proof (cases "b4 = 0")
    case True
    then have "b5 = 0" using c(6) m(1) D by simp
    then show ?thesis using m(2) by simp
  next
    case False
    then have "b3 = 1" using c(5) h(5) b3 b4 D by simp
    then have "b2 = 1" using c(4) h(4) b2 D by simp
    then have "b1 = 1" using c(3) h(3) b1 D by simp
    then have "m1 \<le> 41" using c(2) h(2) b0 D by simp
    moreover have "b5 \<le> 1" using c(6) m(1) b4 D by simp
    ultimately show ?thesis using D by simp
  qed
qed

lemma unat_carry: "unat h + unat b < 2 ^ 32 \<Longrightarrow>
   unat (h + b) = 2 ^ 26 * unat (drop_bit 26 (h + b)) + unat (h + b AND 0x3ffffff :: 32 word) \<and> unat (h + b) = unat h + unat b"
  unfolding unat_and_mask26 unat_drop_bit mult_div_mod_eq by (simp add: unat_add_32)

lemma poly1305_carry_ok:
  assumes "limbs_ok h"
  shows "limbs_norm (poly1305_carry h) \<and> limbs_val (poly1305_carry h) mod poly_p = limbs_val h mod poly_p"
proof -
  obtain h0 h1 h2 h3 h4 where h_eq: "h = (h0, h1, h2, h3, h4)" by (cases h)
  have H: "unat h0 \<le> 0xa7000000" "unat h1 < 2 ^ 26" "unat h2 < 2 ^ 26" "unat h3 < 2 ^ 26" "unat h4 < 2 ^ 26"
    using assms by (simp_all add: h_eq)
  define b0 m0 where "b0 = drop_bit 26 h0" "m0 = h0 AND 0x3ffffff"
  define b1 m1 where "b1 = drop_bit 26 (h1 + b0)" "m1 = h1 + b0 AND 0x3ffffff"
  define b2 m2 where "b2 = drop_bit 26 (h2 + b1)" "m2 = h2 + b1 AND 0x3ffffff"
  define b3 m3 where "b3 = drop_bit 26 (h3 + b2)" "m3 = h3 + b2 AND 0x3ffffff"
  define b4 m4 where "b4 = drop_bit 26 (h4 + b3)" "m4 = h4 + b3 AND 0x3ffffff"
  define b5 x0 where "b5 = drop_bit 26 (m0 + b4 * 5)" "x0 = m0 + b4 * 5 AND 0x3ffffff"
  have eq: "poly1305_carry h = (x0, m1 + b5, m2, m3, m4)"
    unfolding poly1305_carry_def h_eq b0_m0_def b1_m1_def b2_m2_def b3_m3_def b4_m4_def b5_x0_def
    by (simp only: Let_def prod.case)
  have m: "unat m0 < 2 ^ 26" "unat m1 < 2 ^ 26" "unat m2 < 2 ^ 26" "unat m3 < 2 ^ 26" "unat m4 < 2 ^ 26" "unat x0 < 2 ^ 26"
    unfolding b0_m0_def b1_m1_def b2_m2_def b3_m3_def b4_m4_def b5_x0_def unat_and_mask26 by simp_all
  have c0: "unat h0 = 2 ^ 26 * unat b0 + unat m0"
    unfolding b0_m0_def unat_and_mask26 unat_drop_bit by simp
  have s0: "unat b0 \<le> 41" using c0 H(1) by simp
  have c1: "unat h1 + unat b0 = 2 ^ 26 * unat b1 + unat m1"
    unfolding b1_m1_def using unat_carry [of h1 b0] s0 H(2) by simp
  have s1: "unat b1 \<le> 1" using c1 s0 H(2) by simp
  have c2: "unat h2 + unat b1 = 2 ^ 26 * unat b2 + unat m2"
    unfolding b2_m2_def using unat_carry [of h2 b1] s1 H(3) by simp
  have s2: "unat b2 \<le> 1" using c2 s1 H(3) by simp
  have c3: "unat h3 + unat b2 = 2 ^ 26 * unat b3 + unat m3"
    unfolding b3_m3_def using unat_carry [of h3 b2] s2 H(4) by simp
  have s3: "unat b3 \<le> 1" using c3 s2 H(4) by simp
  have c4: "unat h4 + unat b3 = 2 ^ 26 * unat b4 + unat m4"
    unfolding b4_m4_def using unat_carry [of h4 b3] s3 H(5) by simp
  have s4: "unat b4 \<le> 1" using c4 s3 H(5) by simp
  have c5: "unat m0 + 5 * unat b4 = 2 ^ 26 * unat b5 + unat x0"
    unfolding b5_x0_def using unat_carry [of m0 "b4 * 5"] s4 m(1) by (simp add: unat_times5)
  note F = full_carry [OF H refl c0 c1 c2 c3 c4 c5 m]
  have x1: "unat (m1 + b5) = unat m1 + unat b5" using F(6) by (intro unat_add_32) simp
  have "unat h0 + 2 ^ 26 * unat h1 + (2 ^ 26) ^ 2 * unat h2 + (2 ^ 26) ^ 3 * unat h3 + (2 ^ 26) ^ 4 * unat h4 =
      unat m0 + 2 ^ 26 * unat m1 + (2 ^ 26) ^ 2 * unat m2 + (2 ^ 26) ^ 3 * unat m3 + (2 ^ 26) ^ 4 * unat m4 + (2 ^ 26) ^ 5 * unat b4"
    by (rule carry_telescope [OF c0 c1 c2 c3 c4])
  then have "limbs_val h = limbs_val (poly1305_carry h) + poly_p * unat b4"
    unfolding eq unfolding h_eq limbs_val.simps x1 using c5 by (simp add: poly_p_def)
  then have "limbs_val (poly1305_carry h) mod poly_p = limbs_val h mod poly_p" by simp
  moreover have "limbs_norm (poly1305_carry h)" unfolding eq limbs_norm.simps x1 using m F(6) by simp
  ultimately show ?thesis by blast
qed

lemma select_words:
  "b = 0 \<Longrightarrow> (h AND NOT b) OR (g AND b) = (h :: 32 word)" "b = -1 \<Longrightarrow> (h AND NOT b) OR (g AND b) = (g :: 32 word)"
  by simp_all

lemma poly1305_reduce_ok:
  assumes "limbs_norm h"
  shows "limbs_norm (poly1305_reduce h) \<and> limbs_val (poly1305_reduce h) = limbs_val h mod poly_p"
proof -
  obtain h0 h1 h2 h3 h4 where h_eq: "h = (h0, h1, h2, h3, h4)" by (cases h)
  have H: "unat h0 < 2 ^ 26" "unat h1 < 2 ^ 26" "unat h2 < 2 ^ 26" "unat h3 < 2 ^ 26" "unat h4 < 2 ^ 26"
    using assms by (simp_all add: h_eq)
  define b0 g0 where "b0 = drop_bit 26 (h0 + 5)" "g0 = h0 + 5 AND 0x3ffffff"
  define b1 g1 where "b1 = drop_bit 26 (h1 + b0)" "g1 = h1 + b0 AND 0x3ffffff"
  define b2 g2 where "b2 = drop_bit 26 (h2 + b1)" "g2 = h2 + b1 AND 0x3ffffff"
  define b3 g3 where "b3 = drop_bit 26 (h3 + b2)" "g3 = h3 + b2 AND 0x3ffffff"
  define g4 where "g4 = h4 + b3 - push_bit 26 1"
  define b where "b = drop_bit 31 g4 - 1"
  have eq: "poly1305_reduce h = ((h0 AND NOT b) OR (g0 AND b), (h1 AND NOT b) OR (g1 AND b), (h2 AND NOT b) OR (g2 AND b),
      (h3 AND NOT b) OR (g3 AND b), (h4 AND NOT b) OR (g4 AND b))"
    unfolding poly1305_reduce_def h_eq b0_g0_def b1_g1_def b2_g2_def b3_g3_def g4_def b_def
    by (simp only: Let_def prod.case)
  have g: "unat g0 < 2 ^ 26" "unat g1 < 2 ^ 26" "unat g2 < 2 ^ 26" "unat g3 < 2 ^ 26"
    unfolding b0_g0_def b1_g1_def b2_g2_def b3_g3_def unat_and_mask26 by simp_all
  have c0: "unat h0 + 5 = 2 ^ 26 * unat b0 + unat g0" unfolding b0_g0_def using unat_carry [of h0 5] H(1) by simp
  have s0: "unat b0 \<le> 1" using c0 H(1) by simp
  have c1: "unat h1 + unat b0 = 2 ^ 26 * unat b1 + unat g1" unfolding b1_g1_def using unat_carry [of h1 b0] s0 H(2) by simp
  have s1: "unat b1 \<le> 1" using c1 s0 H(2) by simp
  have c2: "unat h2 + unat b1 = 2 ^ 26 * unat b2 + unat g2" unfolding b2_g2_def using unat_carry [of h2 b1] s1 H(3) by simp
  have s2: "unat b2 \<le> 1" using c2 s1 H(3) by simp
  have c3: "unat h3 + unat b2 = 2 ^ 26 * unat b3 + unat g3" unfolding b3_g3_def using unat_carry [of h3 b2] s2 H(4) by simp
  have s3: "unat b3 \<le> 1" using c3 s2 H(4) by simp
  have val: "limbs_val h + 5 = unat g0 + 2 ^ 26 * unat g1 + 2 ^ 52 * unat g2 + 2 ^ 78 * unat g3 + 2 ^ 104 * (unat h4 + unat b3)"
    unfolding h_eq limbs_val.simps using c0 c1 c2 c3 by simp
  have S: "unat (h4 + b3) = unat h4 + unat b3" using H(5) s3 by (intro unat_add_32) simp
  show ?thesis
  proof (cases "unat h4 + unat b3 = 2 ^ 26")
    case True
    then have "h4 + b3 = push_bit 26 1" using S by (simp add: word_unat_eq_iff)
    then have "g4 = 0" by (simp add: g4_def)
    then have "b = -1" by (simp add: b_def)
    then have "poly1305_reduce h = (g0, g1, g2, g3, 0)" unfolding eq by (simp add: \<open>g4 = 0\<close>)
    moreover have "limbs_val h = limbs_val (g0, g1, g2, g3, 0) + poly_p"
      using val unfolding True by (simp add: poly_p_def)
    moreover have "limbs_val (g0, g1, g2, g3, 0) < poly_p" using g by (simp add: poly_p_def)
    ultimately show ?thesis using g by simp
  next
    case False
    then have lt: "unat h4 + unat b3 < 2 ^ 26" using H(5) s3 by simp
    have "unat g4 = unat h4 + unat b3 + 2 ^ 32 - 2 ^ 26"
      unfolding g4_def using lt S by (simp add: unat_sub_if')
    then have "unat (drop_bit 31 g4) = 1" using lt unfolding unat_drop_bit by simp
    then have "drop_bit 31 g4 = 1" by (simp add: word_unat_eq_iff)
    then have "b = 0" by (simp add: b_def)
    then have "poly1305_reduce h = h" unfolding eq unfolding h_eq by simp
    moreover have "limbs_val h < poly_p" using val lt g by (simp add: poly_p_def)
    ultimately show ?thesis using assms by simp
  qed
qed

lemma le_bytes_add: "le_bytes (m + n) x = le_bytes m x @ le_bytes n (x div 256 ^ m)"
proof (rule nth_equalityI)
  fix i assume "i < length (le_bytes (m + n) x)"
  moreover have "x div 256 ^ m div 256 ^ (i - m) = x div 256 ^ i" if "m \<le> i"
    using that by (simp flip: div_mult2_eq power_add)
  ultimately show "le_bytes (m + n) x ! i = (le_bytes m x @ le_bytes n (x div 256 ^ m)) ! i"
    by (auto simp: le_bytes_def nth_append)
qed (simp add: le_bytes_def)

lemma of_nat_div_mod_byte: "i < n \<Longrightarrow> (of_nat (x mod 256 ^ n div 256 ^ i) :: byte) = of_nat (x div 256 ^ i)"
proof -
  assume "i < n"
  then obtain k where n: "n = i + Suc k" using less_imp_Suc_add by (metis add_Suc_right)
  have "x mod 256 ^ n div 256 ^ i = x div 256 ^ i mod 256 ^ Suc k"
    unfolding n power_add by (simp add: mod_mult2_eq)
  then have "x mod 256 ^ n div 256 ^ i mod 256 = x div 256 ^ i mod 256" by (simp add: mod_mult2_eq)
  then show ?thesis by (simp add: word_of_nat_eq_iff take_bit_eq_mod)
qed

lemma le_bytes_mod: "le_bytes n (x mod 256 ^ n) = le_bytes n x"
  by (simp add: le_bytes_def of_nat_div_mod_byte)

lemma U32TO8_LE_bytes: "U32TO8_LE v = le_bytes 4 (unat v)"
proof -
  have "(ucast (drop_bit k v) :: byte) = of_nat (unat v div 2 ^ k)" for k
    unfolding unat_drop_bit [symmetric] by simp
  from this [of 8] this [of 16] this [of 24] show ?thesis
    by (simp add: U32TO8_LE_def le_bytes_def upt_rec)
qed

lemma unat_or_shift:
  assumes "unat a < 2 ^ k" "k \<le> 32"
  shows "unat (a OR push_bit k b :: 32 word) = unat a + 2 ^ k * (unat b mod 2 ^ (32 - k))"
proof -
  have "push_bit k b = push_bit k (take_bit (32 - k) b)"
    using assms(2) by (intro bit_word_eqI) (auto simp: bit_simps)
  moreover have "unat (take_bit (32 - k) b) = unat b mod 2 ^ (32 - k)"
    using unsigned_take_bit_eq [of "32 - k" b, where 'a = nat] by (simp only: take_bit_eq_mod [of _ "unat b"])
  moreover have "2 ^ k * (unat b mod 2 ^ (32 - k)) < 2 ^ k * 2 ^ (32 - k)" by simp
  then have "2 ^ k * (unat b mod 2 ^ (32 - k)) < 2 ^ 32" using assms(2) by (simp flip: power_add)
  ultimately show ?thesis using assms(1) unat_or_push [of a k "take_bit (32 - k) b"] by simp
qed

text \<open>Addition of two numbers of four 32-bit digits, as \<^verbatim>\<open>f0\<close> to \<^verbatim>\<open>f3\<close> do it.\<close>

lemma add_digits:
  fixes f0 f1 f2 f3 :: nat
  assumes "F1 = f1 + f0 div 2 ^ 32" "F2 = f2 + F1 div 2 ^ 32" "F3 = f3 + F2 div 2 ^ 32"
  shows "le_bytes 4 f0 @ le_bytes 4 F1 @ le_bytes 4 F2 @ le_bytes 4 F3 =
    le_bytes 16 (f0 + 2 ^ 32 * f1 + 2 ^ 64 * f2 + 2 ^ 96 * f3)"
proof -
  define X where "X = f0 + 2 ^ 32 * f1 + 2 ^ 64 * f2 + 2 ^ 96 * f3"
  have D: "256 ^ 4 = (2 ^ 32 :: nat)" by simp
  have q1: "X div 2 ^ 32 = F1 + 2 ^ 32 * f2 + 2 ^ 64 * f3"
  proof -
    have "X = f0 + (f1 + 2 ^ 32 * f2 + 2 ^ 64 * f3) * 2 ^ 32" by (simp add: X_def)
    then show ?thesis using assms(1) by simp
  qed
  have q2: "X div 2 ^ 32 div 2 ^ 32 = F2 + 2 ^ 32 * f3"
  proof -
    have "X div 2 ^ 32 = F1 + (f2 + 2 ^ 32 * f3) * 2 ^ 32" unfolding q1 by simp
    then show ?thesis using assms(2) by simp
  qed
  have q3: "X div 2 ^ 32 div 2 ^ 32 div 2 ^ 32 = F3"
    unfolding q2 using assms(3) by simp
  have m: "le_bytes 4 (x + 2 ^ 32 * y) = le_bytes 4 x" for x y
    using le_bytes_mod [of 4 "x + 2 ^ 32 * y"] le_bytes_mod [of 4 x] by simp
  have "le_bytes 16 X = le_bytes 4 X @ le_bytes 4 (X div 2 ^ 32) @ le_bytes 4 (X div 2 ^ 32 div 2 ^ 32) @
      le_bytes 4 (X div 2 ^ 32 div 2 ^ 32 div 2 ^ 32)"
    using le_bytes_add [of 4 12 X] le_bytes_add [of 4 8 "X div 2 ^ 32"] le_bytes_add [of 4 4 "X div 2 ^ 32 div 2 ^ 32"] by (simp add: D)
  also have "le_bytes 4 X = le_bytes 4 f0"
    using m [of f0 "f1 + 2 ^ 32 * f2 + 2 ^ 64 * f3"] by (simp add: X_def add.assoc)
  also have "le_bytes 4 (X div 2 ^ 32) = le_bytes 4 F1"
    unfolding q1 using m [of F1 "f2 + 2 ^ 32 * f3"] by (simp add: add.assoc)
  also have "le_bytes 4 (X div 2 ^ 32 div 2 ^ 32) = le_bytes 4 F2" unfolding q2 by (rule m)
  finally show ?thesis unfolding X_def [symmetric] by (simp only: q3)
qed

lemma digits_128:
  fixes y0 y1 y2 y3 y4 :: nat
  assumes y: "y0 < 2 ^ 26" "y1 < 2 ^ 26" "y2 < 2 ^ 26" "y3 < 2 ^ 26"
  shows "y0 + 2 ^ 26 * y1 + 2 ^ 52 * y2 + 2 ^ 78 * y3 + 2 ^ 104 * y4 =
    (y0 + 2 ^ 26 * (y1 mod 2 ^ 6)) + 2 ^ 32 * (y1 div 2 ^ 6 + 2 ^ 20 * (y2 mod 2 ^ 12)) +
    2 ^ 64 * (y2 div 2 ^ 12 + 2 ^ 14 * (y3 mod 2 ^ 18)) + 2 ^ 96 * (y3 div 2 ^ 18 + 2 ^ 8 * (y4 mod 2 ^ 24)) +
    2 ^ 128 * (y4 div 2 ^ 24)"
proof -
  obtain a1 b1 a2 b2 a3 b3 a4 b4 where q: "y1 div 2 ^ 6 = a1" "y1 mod 2 ^ 6 = b1" "y2 div 2 ^ 12 = a2" "y2 mod 2 ^ 12 = b2"
    "y3 div 2 ^ 18 = a3" "y3 mod 2 ^ 18 = b3" "y4 div 2 ^ 24 = a4" "y4 mod 2 ^ 24 = b4" by blast
  have "y1 = 2 ^ 6 * a1 + b1" "y2 = 2 ^ 12 * a2 + b2" "y3 = 2 ^ 18 * a3 + b3" "y4 = 2 ^ 24 * a4 + b4"
    unfolding q [symmetric] by (simp_all only: mult_div_mod_eq)
  then show ?thesis unfolding q by simp
qed

lemma poly1305_out_ok:
  assumes h: "limbs_norm h" and key: "length key = 32"
  shows "poly1305_out key h = le_bytes 16 ((limbs_val h + le_nat (take 16 (drop 16 key))) mod 2 ^ 128)"
proof -
  obtain y0 y1 y2 y3 y4 where h_eq: "h = (y0, y1, y2, y3, y4)" by (cases h)
  have H: "unat y0 < 2 ^ 26" "unat y1 < 2 ^ 26" "unat y2 < 2 ^ 26" "unat y3 < 2 ^ 26"
    using h by (simp_all add: h_eq)
  define k0 k1 k2 k3 where "k0 = U8TO32_LE (drop 16 key)" "k1 = U8TO32_LE (drop 20 key)" "k2 = U8TO32_LE (drop 24 key)"
    "k3 = U8TO32_LE (drop 28 key)"
  define w0 w1 w2 w3 where "w0 = y0 OR push_bit 26 y1" "w1 = drop_bit 6 y1 OR push_bit 20 y2"
    "w2 = drop_bit 12 y2 OR push_bit 14 y3" "w3 = drop_bit 18 y3 OR push_bit 8 y4"
  define f0 f1 f2 f3 :: "64 word" where "f0 = ucast w0 + ucast k0" "f1 = ucast w1 + ucast k1 + drop_bit 32 f0"
    "f2 = ucast w2 + ucast k2 + drop_bit 32 f1" "f3 = ucast w3 + ucast k3 + drop_bit 32 f2"
  have eq: "poly1305_out key h = U32TO8_LE f0 @ U32TO8_LE f1 @ U32TO8_LE f2 @ U32TO8_LE f3"
    unfolding poly1305_out_def h_eq k0_k1_k2_k3_def w0_w1_w2_w3_def f0_f1_f2_f3_def by (simp only: Let_def prod.case)
  have W: "unat w0 = unat y0 + 2 ^ 26 * (unat y1 mod 2 ^ 6)" "unat w1 = unat y1 div 2 ^ 6 + 2 ^ 20 * (unat y2 mod 2 ^ 12)"
    "unat w2 = unat y2 div 2 ^ 12 + 2 ^ 14 * (unat y3 mod 2 ^ 18)" "unat w3 = unat y3 div 2 ^ 18 + 2 ^ 8 * (unat y4 mod 2 ^ 24)"
    using H unfolding w0_w1_w2_w3_def
    by (subst unat_or_shift; simp add: unat_drop_bit)+
  have add3: "unat (ucast w + ucast k + drop_bit 32 f :: 64 word) = unat w + unat k + unat f div 2 ^ 32" for w k :: "32 word" and f :: "64 word"
  proof -
    have "unat f < 2 ^ 64" using unsigned_less [of f, where 'a = nat] by simp
    then have "unat f div 2 ^ 32 < 2 ^ 32" by (simp add: less_mult_imp_div_less)
    then show ?thesis using unat_less_32 [of w] unat_less_32 [of k]
      by (subst unat_add_64; simp add: unat_ucast_64 unat_drop_bit unat_add_64)
  qed
  have F: "unat f0 = unat w0 + unat k0" "unat f1 = unat w1 + unat k1 + unat f0 div 2 ^ 32"
    "unat f2 = unat w2 + unat k2 + unat f1 div 2 ^ 32" "unat f3 = unat w3 + unat k3 + unat f2 div 2 ^ 32"
    unfolding f0_f1_f2_f3_def(2-4) add3
    using unat_less_32 [of w0] unat_less_32 [of k0] by (simp_all add: f0_f1_f2_f3_def(1) unat_add_64 unat_ucast_64)
  have K: "le_nat (take 16 (drop 16 key)) = unat k0 + 2 ^ 32 * unat k1 + 2 ^ 64 * unat k2 + 2 ^ 96 * unat k3"
    unfolding k0_k1_k2_k3_def using le_nat_words [of "drop 16 key"] key by simp
  have V: "limbs_val h = unat w0 + 2 ^ 32 * unat w1 + 2 ^ 64 * unat w2 + 2 ^ 96 * unat w3 + 2 ^ 128 * (unat y4 div 2 ^ 24)"
    unfolding h_eq limbs_val.simps W by (rule digits_128 [OF H])
  have "poly1305_out key h = le_bytes 16 (unat w0 + unat k0 + 2 ^ 32 * (unat w1 + unat k1) + 2 ^ 64 * (unat w2 + unat k2) +
      2 ^ 96 * (unat w3 + unat k3))"
    unfolding eq U32TO8_LE_bytes F(1) by (rule add_digits [OF F(2) [unfolded F(1)] F(3,4)])
  also have "\<dots> = le_bytes 16 ((unat w0 + unat k0 + 2 ^ 32 * (unat w1 + unat k1) + 2 ^ 64 * (unat w2 + unat k2) +
      2 ^ 96 * (unat w3 + unat k3)) mod 256 ^ 16)" by (simp only: le_bytes_mod)
  also have "(unat w0 + unat k0 + 2 ^ 32 * (unat w1 + unat k1) + 2 ^ 64 * (unat w2 + unat k2) +
      2 ^ 96 * (unat w3 + unat k3)) mod 256 ^ 16 = (limbs_val h + le_nat (take 16 (drop 16 key))) mod 2 ^ 128"
  proof -
    have "limbs_val h + le_nat (take 16 (drop 16 key)) = (unat w0 + unat k0 + 2 ^ 32 * (unat w1 + unat k1) + 2 ^ 64 * (unat w2 + unat k2) +
      2 ^ 96 * (unat w3 + unat k3)) + 2 ^ 128 * (unat y4 div 2 ^ 24)"
      unfolding V K by simp
    then show ?thesis by (simp only: mod_mult_self2) simp
  qed
  finally show ?thesis .
qed

section \<open>The theorem\<close>

text \<open>
  (C8) \<^verbatim>\<open>poly1305_auth\<close> computes Poly1305: for every message and every key of 32 bytes the tag is
  the little-endian number \<open>(m\<^sub>1 r ^ n + \<dots> + m\<^sub>n r mod 2 ^ 130 - 5) + s mod 2 ^ 128\<close> with the clamped
  first half \<open>r\<close> and the second half \<open>s\<close> of the key.  No carry is lost in the 32-bit limbs and
  the 64-bit products.
\<close>

theorem poly1305_auth_correct:
  assumes "length key = 32"
  shows "poly1305_auth m key = poly1305_mac m key"
proof -
  let ?r = "poly1305_clamp key"
  obtain h m' where loop: "poly1305_donna_16bytes ?r m (0, 0, 0, 0, 0) = (h, m')"
    by (cases "poly1305_donna_16bytes ?r m (0, 0, 0, 0, 0)")
  have r: "limbs_r_ok ?r" "limbs_val ?r = poly_r key" using assms poly1305_clamp_ok by simp_all
  have h: "limbs_ok h" "length m' < 16" "poly_eval (poly_r key) m 0 = poly_eval (poly_r key) m' (limbs_val h mod poly_p)"
    using poly1305_donna_16bytes_ok [OF r(1) _ loop] r(2) by simp_all
  let ?k = "poly1305_donna_atmost15bytes ?r m' h"
  have k: "limbs_ok ?k" "limbs_val ?k mod poly_p = poly_eval (poly_r key) m 0"
    using poly1305_donna_atmost15bytes_ok [OF r(1) h(1,2)] h(3) r(2) by simp_all
  have "limbs_norm (poly1305_reduce (poly1305_carry ?k)) \<and> limbs_val (poly1305_reduce (poly1305_carry ?k)) = poly_eval (poly_r key) m 0"
    using poly1305_carry_ok [OF k(1)] poly1305_reduce_ok [of "poly1305_carry ?k"] k(2) by simp
  then show ?thesis
    using poly1305_out_ok [OF _ assms] loop
    by (simp add: poly1305_auth_def poly1305_donna_finish_def poly1305_mac_def)
qed

theorem poly1305_auth_correct_witness:
  "poly1305_auth [5] [2, 0, 0, 0, 0, 0, 0, 0, 0, 0, 0, 0, 0, 0, 0, 0, 1, 0, 0, 0, 0, 0, 0, 0, 0, 0, 0, 0, 0, 0, 0, 0] =
     [11, 2, 0, 0, 0, 0, 0, 0, 0, 0, 0, 0, 0, 0, 0, 0]"
proof -
  have "poly_eval 2 [5] 0 = 522"
    by (subst poly_eval.simps) (simp add: poly_eval.simps [of _ "[]"] poly_p_def)
  then show ?thesis
    using poly1305_auth_correct [of "[2, 0, 0, 0, 0, 0, 0, 0, 0, 0, 0, 0, 0, 0, 0, 0, 1, 0, 0, 0, 0, 0, 0, 0, 0, 0, 0, 0, 0, 0, 0, 0]" "[5]"]
    by (simp add: poly1305_mac_def poly_r_def le_bytes_def upt_rec)
qed
end
