(* ===== verification/Chachapoly.thy ===== *)
theory Chachapoly
  imports Chacha Poly1305 Sshbuf_GetPut
begin

unbundle bit_operations_syntax

text \<open>
  The authenticated cipher \<^verbatim>\<open>chacha20-poly1305@openssh.com\<close>, from \<^verbatim>\<open>cipher-chachapoly.c\<close>: the
  packet length is encrypted with a key of its own, the tag is Poly1305 over the encrypted length
  and the encrypted packet.
\<close>

section \<open>The code\<close>

record chachapoly_ctx =
  main_ctx :: chacha_ctx
  header_ctx :: chacha_ctx

definition POLY1305_KEYLEN :: nat where "POLY1305_KEYLEN = 32"
definition POLY1305_TAGLEN :: nat where "POLY1305_TAGLEN = 16"

definition chachapoly_new :: "byte list \<Rightarrow> nat \<Rightarrow> chachapoly_ctx option" where
  "chachapoly_new key keylen =
     (if keylen \<noteq> 32 + 32 then None
      else let z = \<lparr>input = replicate 16 0\<rparr> in
        Some \<lparr>main_ctx = chacha_keysetup z key 256, header_ctx = chacha_keysetup z (drop 32 key) 256\<rparr>)"

definition chachapoly_crypt ::
    "chachapoly_ctx \<Rightarrow> 32 word \<Rightarrow> byte list \<Rightarrow> nat \<Rightarrow> nat \<Rightarrow> nat \<Rightarrow> bool \<Rightarrow> (ssh_err + byte list) \<times> chachapoly_ctx" where
  "chachapoly_crypt ctx seqnr src len aadlen authlen do_encrypt =
     (let seqbuf = POKE_U64 (ucast seqnr);
          (main, poly_key) = chacha_encrypt_bytes (chacha_ivsetup (main_ctx ctx) seqbuf None) (replicate POLY1305_KEYLEN 0) in
      if \<not> do_encrypt \<and> poly1305_auth (take (aadlen + len) src) poly_key \<noteq> take POLY1305_TAGLEN (drop (aadlen + len) src)
      then (Inl SSH_ERR_MAC_INVALID, ctx\<lparr>main_ctx := main\<rparr>)
      else let (header, aad) =
                 (if aadlen \<noteq> 0
                  then chacha_encrypt_bytes (chacha_ivsetup (header_ctx ctx) seqbuf None) (take aadlen src)
                  else (header_ctx ctx, []));
               (main, body) = chacha_encrypt_bytes (chacha_ivsetup main seqbuf (Some [1, 0, 0, 0, 0, 0, 0, 0]))
                                (take len (drop aadlen src));
               dest = aad @ body
           in (Inr (if do_encrypt then dest @ poly1305_auth dest poly_key else dest),
               ctx\<lparr>main_ctx := main, header_ctx := header\<rparr>))"

definition chachapoly_get_length ::
    "chachapoly_ctx \<Rightarrow> 32 word \<Rightarrow> byte list \<Rightarrow> (ssh_err + 32 word) \<times> chachapoly_ctx" where
  "chachapoly_get_length ctx seqnr cp =
     (if length cp < 4 then (Inl SSH_ERR_MESSAGE_INCOMPLETE, ctx)
      else let (header, buf) = chacha_encrypt_bytes (chacha_ivsetup (header_ctx ctx) (POKE_U64 (ucast seqnr)) None) (take 4 cp)
           in (Inr (PEEK_U32 buf), ctx\<lparr>header_ctx := header\<rparr>))"

section \<open>Two ends with the same key\<close>

definition chacha_same_key :: "chacha_ctx \<Rightarrow> chacha_ctx \<Rightarrow> bool" where
  "chacha_same_key x y \<longleftrightarrow> length (input x) = 16 \<and> length (input y) = 16 \<and> take 12 (input x) = take 12 (input y)"

definition chachapoly_same_key :: "chachapoly_ctx \<Rightarrow> chachapoly_ctx \<Rightarrow> bool" where
  "chachapoly_same_key a b \<longleftrightarrow> chacha_same_key (main_ctx a) (main_ctx b) \<and> chacha_same_key (header_ctx a) (header_ctx b)"

lemma list_16_eqI:
  assumes "length xs = 16" "length ys = 16" "take 12 xs = take 12 ys" "xs ! 12 = ys ! 12" "xs ! 13 = ys ! 13" "xs ! 14 = ys ! 14"
    "xs ! 15 = ys ! 15"
  shows "xs = ys"
proof (rule nth_equalityI)
  fix i assume "i < length xs"
  then consider "i < 12" | "i = 12" | "i = 13" | "i = 14" | "i = 15" using assms(1) by linarith
  then show "xs ! i = ys ! i"
    using assms nth_take [of i 12 xs] nth_take [of i 12 ys] by cases simp_all
qed (simp add: assms)

lemma ivsetup_same_key:
  assumes "chacha_same_key x y"
  shows "chacha_ivsetup x iv c = chacha_ivsetup y iv c"
proof (rule chacha_ctx.equality)
  show "input (chacha_ivsetup x iv c) = input (chacha_ivsetup y iv c)"
    by (rule list_16_eqI) (use assms in \<open>simp_all add: chacha_ivsetup_def chacha_same_key_def take_update_swap\<close>)
qed (simp add: chacha_ivsetup_def)

lemma same_key_ivsetup: "length (input x) = 16 \<Longrightarrow> chacha_same_key (chacha_ivsetup x iv c) x"
  by (simp add: chacha_ivsetup_def chacha_same_key_def)

lemma same_key_encrypt: "length (input x) = 16 \<Longrightarrow> chacha_same_key (fst (chacha_encrypt_bytes x m)) x"
  by (simp add: chacha_encrypt_bytes_def chacha_same_key_def case_prod_beta Let_def)

text \<open>The three uses of the key stream for a sequence number.\<close>

definition poly_key :: "chachapoly_ctx \<Rightarrow> 32 word \<Rightarrow> byte list" where
  "poly_key ctx seqnr = snd (chacha_encrypt_bytes (chacha_ivsetup (main_ctx ctx) (POKE_U64 (ucast seqnr)) None) (replicate POLY1305_KEYLEN 0))"

definition crypt_header :: "chachapoly_ctx \<Rightarrow> 32 word \<Rightarrow> byte list \<Rightarrow> byte list" where
  "crypt_header ctx seqnr m = snd (chacha_encrypt_bytes (chacha_ivsetup (header_ctx ctx) (POKE_U64 (ucast seqnr)) None) m)"

definition crypt_body :: "chachapoly_ctx \<Rightarrow> 32 word \<Rightarrow> byte list \<Rightarrow> byte list" where
  "crypt_body ctx seqnr m = snd (chacha_encrypt_bytes (chacha_ivsetup (main_ctx ctx) (POKE_U64 (ucast seqnr)) (Some [1, 0, 0, 0, 0, 0, 0, 0])) m)"

definition chachapoly_wf :: "chachapoly_ctx \<Rightarrow> bool" where
  "chachapoly_wf ctx \<longleftrightarrow> length (input (main_ctx ctx)) = 16 \<and> length (input (header_ctx ctx)) = 16"

lemma length_ivsetup [simp]: "length (input (chacha_ivsetup x iv c)) = length (input x)"
  by (simp add: chacha_ivsetup_def)

lemma crypt_streams [simp]:
  assumes "chachapoly_wf ctx"
  shows "length (poly_key ctx seqnr) = 32"
    and "length (crypt_header ctx seqnr m) = length m" "crypt_header ctx seqnr (crypt_header ctx seqnr m) = m"
    and "length (crypt_body ctx seqnr m) = length m" "crypt_body ctx seqnr (crypt_body ctx seqnr m) = m"
  using assms by (simp_all add: chachapoly_wf_def poly_key_def crypt_header_def crypt_body_def chacha_encrypt_twice POLY1305_KEYLEN_def)

lemma crypt_header_take: "chachapoly_wf ctx \<Longrightarrow> crypt_header ctx seqnr (take k m) = take k (crypt_header ctx seqnr m)"
  by (simp add: crypt_header_def chachapoly_wf_def chacha_encrypt_take)

lemma same_key_streams:
  assumes "chachapoly_same_key a b"
  shows "poly_key a = poly_key b" "crypt_header a = crypt_header b" "crypt_body a = crypt_body b" "chachapoly_wf a" "chachapoly_wf b"
proof -
  have "chacha_ivsetup (main_ctx a) = chacha_ivsetup (main_ctx b)" "chacha_ivsetup (header_ctx a) = chacha_ivsetup (header_ctx b)"
    using assms by (auto simp: chachapoly_same_key_def intro!: ext ivsetup_same_key)
  then show "poly_key a = poly_key b" "crypt_header a = crypt_header b" "crypt_body a = crypt_body b"
    by (simp_all add: poly_key_def crypt_header_def crypt_body_def fun_eq_iff)
  show "chachapoly_wf a" "chachapoly_wf b"
    using assms by (simp_all add: chachapoly_same_key_def chachapoly_wf_def chacha_same_key_def)
qed

lemma chachapoly_crypt_result:
  assumes "chachapoly_wf ctx"
  shows "fst (chachapoly_crypt ctx seqnr src len aadlen authlen do_encrypt) =
    (let dest = crypt_header ctx seqnr (take aadlen src) @ crypt_body ctx seqnr (take len (drop aadlen src)) in
     if do_encrypt then Inr (dest @ poly1305_auth dest (poly_key ctx seqnr))
     else if poly1305_auth (take (aadlen + len) src) (poly_key ctx seqnr) = take POLY1305_TAGLEN (drop (aadlen + len) src)
     then Inr dest else Inl SSH_ERR_MAC_INVALID)"
proof -
  let ?iv = "POKE_U64 (ucast seqnr)" and ?one = "Some [1, 0, 0, 0, 0, 0, 0, 0]"
  let ?m = "fst (chacha_encrypt_bytes (chacha_ivsetup (main_ctx ctx) ?iv None) (replicate POLY1305_KEYLEN 0))"
  have "chacha_same_key ?m (main_ctx ctx)"
    using assms same_key_encrypt [of "chacha_ivsetup (main_ctx ctx) ?iv None"] same_key_ivsetup [of "main_ctx ctx" ?iv None]
    by (auto simp: chachapoly_wf_def chacha_same_key_def)
  then have "chacha_ivsetup ?m ?iv ?one = chacha_ivsetup (main_ctx ctx) ?iv ?one" by (rule ivsetup_same_key)
  moreover have "snd (if aadlen \<noteq> 0 then chacha_encrypt_bytes (chacha_ivsetup (header_ctx ctx) ?iv None) (take aadlen src)
      else (header_ctx ctx, [])) = crypt_header ctx seqnr (take aadlen src)"
    by (cases "aadlen = 0") (simp_all add: crypt_header_def chacha_encrypt_bytes_def [of _ "[]"])
  ultimately show ?thesis
    unfolding chachapoly_crypt_def poly_key_def crypt_body_def
    by (simp add: Let_def case_prod_beta)
qed

lemma chachapoly_crypt_keeps_key:
  assumes "chachapoly_wf ctx"
  shows "chachapoly_same_key (snd (chachapoly_crypt ctx seqnr src len aadlen authlen do_encrypt)) ctx"
    "chachapoly_same_key (snd (chachapoly_get_length ctx seqnr src)) ctx"
proof -
  have step: "chacha_same_key (fst (chacha_encrypt_bytes (chacha_ivsetup x iv c) m)) y" if "chacha_same_key x y" for x y iv c m
    using that same_key_encrypt [of "chacha_ivsetup x iv c" m] same_key_ivsetup [of x iv c] by (simp add: chacha_same_key_def)
  have "chacha_same_key (main_ctx ctx) (main_ctx ctx)" "chacha_same_key (header_ctx ctx) (header_ctx ctx)"
    using assms by (simp_all add: chachapoly_wf_def chacha_same_key_def)
  then show "chachapoly_same_key (snd (chachapoly_crypt ctx seqnr src len aadlen authlen do_encrypt)) ctx"
    "chachapoly_same_key (snd (chachapoly_get_length ctx seqnr src)) ctx"
    unfolding chachapoly_crypt_def chachapoly_get_length_def chachapoly_same_key_def
    by (simp_all add: Let_def case_prod_beta step)
qed


lemma length_poly1305_auth [simp]: "length (poly1305_auth m key) = 16"
  by (simp add: poly1305_auth_def poly1305_donna_finish_def poly1305_out_def U32TO8_LE_def case_prod_beta Let_def)

text \<open>
  (C9) What one end encrypts with \<^verbatim>\<open>chacha20-poly1305\<close> the other end, with the same key and
  sequence number, decrypts to the same bytes; the packet length is read from the first four
  encrypted bytes alone; and the same ciphertext with any other tag is refused.
\<close>

theorem chachapoly_roundtrip:
  assumes "chachapoly_same_key a b" and "aadlen + len \<le> length src"
  shows "\<exists>ct. fst (chachapoly_crypt a seqnr src len aadlen POLY1305_TAGLEN True) = Inr ct \<and>
    length ct = aadlen + len + POLY1305_TAGLEN \<and>
    fst (chachapoly_crypt b seqnr ct len aadlen POLY1305_TAGLEN False) = Inr (take (aadlen + len) src) \<and>
    (4 \<le> aadlen \<longrightarrow> fst (chachapoly_get_length b seqnr ct) = Inr (PEEK_U32 src)) \<and>
    (\<forall>tag. length tag = POLY1305_TAGLEN \<and> take (aadlen + len) ct @ tag \<noteq> ct \<longrightarrow>
      fst (chachapoly_crypt b seqnr (take (aadlen + len) ct @ tag) len aadlen POLY1305_TAGLEN False) = Inl SSH_ERR_MAC_INVALID)"
proof -
  note eq = same_key_streams [OF assms(1)]
  define dest where "dest = crypt_header b seqnr (take aadlen src) @ crypt_body b seqnr (take len (drop aadlen src))"
  define ct where "ct = dest @ poly1305_auth dest (poly_key b seqnr)"
  have enc: "fst (chachapoly_crypt a seqnr src len aadlen POLY1305_TAGLEN True) = Inr ct"
    by (simp add: chachapoly_crypt_result eq ct_def dest_def)
  have len: "length dest = aadlen + len" using assms(2) eq by (simp add: dest_def)
  have parts: "crypt_header b seqnr (take aadlen dest) = take aadlen src"
    "crypt_body b seqnr (take len (drop aadlen dest)) = take len (drop aadlen src)"
    using assms(2) eq by (simp_all add: dest_def)
  have dec: "fst (chachapoly_crypt b seqnr (dest @ tag) len aadlen POLY1305_TAGLEN False) =
      (if poly1305_auth dest (poly_key b seqnr) = tag then Inr (take (aadlen + len) src) else Inl SSH_ERR_MAC_INVALID)"
    if "length tag = POLY1305_TAGLEN" for tag
    using that len parts by (simp add: chachapoly_crypt_result eq take_add)
  have "fst (chachapoly_get_length b seqnr ct) = Inr (PEEK_U32 src)" if "4 \<le> aadlen"
  proof -
    have "crypt_header b seqnr (take 4 dest) = take 4 src"
      using that parts(1) crypt_header_take [OF eq(5), of seqnr 4 "take aadlen dest"] by (simp add: min_def)
    then show ?thesis
      using that len by (simp add: chachapoly_get_length_def ct_def case_prod_beta Let_def flip: crypt_header_def)
  qed
  with enc dec len show ?thesis
    by (intro exI [of _ ct]) (auto simp: ct_def POLY1305_TAGLEN_def)
qed


definition example_cp :: chachapoly_ctx where
  "example_cp = \<lparr>main_ctx = \<lparr>input = replicate 16 5\<rparr>, header_ctx = \<lparr>input = replicate 16 7\<rparr>\<rparr>"

theorem chachapoly_roundtrip_witness:
  "\<exists>ct. fst (chachapoly_crypt example_cp 3 [0, 0, 0, 2, 9, 8] 2 4 16 True) = Inr ct \<and> length ct = 22 \<and>
     fst (chachapoly_crypt example_cp 3 ct 2 4 16 False) = Inr [0, 0, 0, 2, 9, 8]"
  using chachapoly_roundtrip [of example_cp example_cp 4 2 "[0, 0, 0, 2, 9, 8]" 3]
  by (auto simp: example_cp_def chachapoly_same_key_def chacha_same_key_def POLY1305_TAGLEN_def)

end
