(* ===== verification/Cipher.thy ===== *)
theory Cipher
  imports Chachapoly Match
begin

unbundle bit_operations_syntax

text \<open>
  The ciphers of packets, from \<^verbatim>\<open>cipher.c\<close>, in the build with libcrypto and with the
  \<^verbatim>\<open>chacha20-poly1305\<close> of the repository.  The calls of libcrypto on a cipher context are an argument,
  a record of functions on an abstract context; \<open>None\<close> is a failed call.
\<close>

section \<open>The table\<close>

definition CFLAG_CBC :: "32 word" where "CFLAG_CBC = 1"
definition CFLAG_CHACHAPOLY :: "32 word" where "CFLAG_CHACHAPOLY = 2"
definition CFLAG_AESCTR :: "32 word" where "CFLAG_AESCTR = 4"
definition CFLAG_NONE :: "32 word" where "CFLAG_NONE = 8"
definition CFLAG_INTERNAL :: "32 word" where "CFLAG_INTERNAL = CFLAG_NONE"

record sshcipher =
  ci_name :: string
  ci_block_size :: nat
  ci_key_len :: nat
  ci_iv_len :: nat
  ci_auth_len :: nat
  ci_flags :: "32 word"

abbreviation cipher_row :: "string \<Rightarrow> nat \<Rightarrow> nat \<Rightarrow> nat \<Rightarrow> nat \<Rightarrow> 32 word \<Rightarrow> sshcipher" where
  "cipher_row n b k i a f \<equiv>
     \<lparr>ci_name = n, ci_block_size = b, ci_key_len = k, ci_iv_len = i, ci_auth_len = a, ci_flags = f\<rparr>"

definition ciphers :: "sshcipher list" where
  "ciphers =
     [cipher_row ''3des-cbc'' 8 24 0 0 CFLAG_CBC,
      cipher_row ''aes128-cbc'' 16 16 0 0 CFLAG_CBC,
      cipher_row ''aes192-cbc'' 16 24 0 0 CFLAG_CBC,
      cipher_row ''aes256-cbc'' 16 32 0 0 CFLAG_CBC,
      cipher_row ''aes128-ctr'' 16 16 0 0 0,
      cipher_row ''aes192-ctr'' 16 24 0 0 0,
      cipher_row ''aes256-ctr'' 16 32 0 0 0,
      cipher_row ''aes128-gcm@openssh.com'' 16 16 12 16 0,
      cipher_row ''aes256-gcm@openssh.com'' 16 32 12 16 0,
      cipher_row ''chacha20-poly1305@openssh.com'' 8 64 0 16 CFLAG_CHACHAPOLY,
      cipher_row ''none'' 8 0 0 0 CFLAG_NONE]"

definition cipher_alg_list :: "char \<Rightarrow> bool \<Rightarrow> string" where
  "cipher_alg_list sep auth_only =
     (case map ci_name (filter (\<lambda>c. ci_flags c AND CFLAG_INTERNAL = 0 \<and> \<not> (auth_only \<and> ci_auth_len c = 0)) ciphers) of
        [] \<Rightarrow> []
      | n # ns \<Rightarrow> n @ concat (map (\<lambda>m. sep # m) ns))"

definition compression_alg_list :: "bool \<Rightarrow> string" where
  "compression_alg_list compression = (if compression then ''zlib@openssh.com,none'' else ''none,zlib@openssh.com'')"

definition cipher_blocksize :: "sshcipher \<Rightarrow> nat" where "cipher_blocksize c = ci_block_size c"
definition cipher_keylen :: "sshcipher \<Rightarrow> nat" where "cipher_keylen c = ci_key_len c"

definition cipher_seclen :: "sshcipher \<Rightarrow> nat" where
  "cipher_seclen c = (if ''3des-cbc'' = ci_name c then 14 else cipher_keylen c)"

definition cipher_authlen :: "sshcipher \<Rightarrow> nat" where "cipher_authlen c = ci_auth_len c"

definition cipher_ivlen :: "sshcipher \<Rightarrow> nat" where
  "cipher_ivlen c = (if ci_iv_len c \<noteq> 0 \<or> ci_flags c AND CFLAG_CHACHAPOLY \<noteq> 0 then ci_iv_len c else ci_block_size c)"

definition cipher_is_cbc :: "sshcipher \<Rightarrow> bool" where "cipher_is_cbc c \<longleftrightarrow> ci_flags c AND CFLAG_CBC \<noteq> 0"
definition cipher_is_internal :: "sshcipher \<Rightarrow> bool" where "cipher_is_internal c \<longleftrightarrow> ci_flags c AND CFLAG_INTERNAL \<noteq> 0"

definition cipher_by_name :: "string \<Rightarrow> sshcipher option" where
  "cipher_by_name name = find (\<lambda>c. ci_name c = name) ciphers"

fun ciphers_valid_loop :: "string list \<Rightarrow> bool \<Rightarrow> bool" where
  "ciphers_valid_loop [] found = found"
| "ciphers_valid_loop (p # ps) found =
     (if p = [] then found
      else case cipher_by_name p of
        None \<Rightarrow> False
      | Some c \<Rightarrow> if ci_flags c AND CFLAG_INTERNAL \<noteq> 0 then False else ciphers_valid_loop ps True)"

definition ciphers_valid :: "bool \<Rightarrow> string option \<Rightarrow> bool" where
  "ciphers_valid strdup names =
     (case names of
        None \<Rightarrow> False
      | Some n \<Rightarrow> if n = [] then False else if \<not> strdup then False else ciphers_valid_loop (strsep_all n) False)"

section \<open>Contexts\<close>

record 'e evp_ops =
  EVP_CIPHER_CTX_new :: "'e option"
  EVP_CipherInit_iv :: "string \<Rightarrow> byte list option \<Rightarrow> bool \<Rightarrow> 'e \<Rightarrow> 'e option"
  EVP_CipherInit_key :: "byte list \<Rightarrow> 'e \<Rightarrow> 'e option"
  EVP_CTRL_GCM_SET_IV_FIXED :: "byte list option \<Rightarrow> 'e \<Rightarrow> 'e option"
  EVP_CIPHER_CTX_key_length :: "'e \<Rightarrow> int"
  EVP_CIPHER_CTX_set_key_length :: "nat \<Rightarrow> 'e \<Rightarrow> 'e option"
  EVP_CTRL_GCM_IV_GEN :: "'e \<Rightarrow> 'e option"
  EVP_CTRL_GCM_SET_TAG :: "byte list \<Rightarrow> 'e \<Rightarrow> 'e option"
  EVP_CTRL_GCM_GET_TAG :: "nat \<Rightarrow> 'e \<Rightarrow> byte list option"
  EVP_Cipher_aad :: "byte list \<Rightarrow> 'e \<Rightarrow> 'e option"
  EVP_Cipher :: "byte list \<Rightarrow> 'e \<Rightarrow> (byte list \<times> 'e) option"
  EVP_Cipher_final :: "'e \<Rightarrow> 'e option"
  EVP_CIPHER_CTX_iv_length :: "'e \<Rightarrow> int"
  EVP_CTRL_GCM_GET_IV :: "nat \<Rightarrow> 'e \<Rightarrow> (byte list \<times> 'e) option"
  EVP_CIPHER_CTX_get_iv :: "nat \<Rightarrow> 'e \<Rightarrow> byte list option"

record 'e sshcipher_ctx =
  cc_plaintext :: bool
  cc_encrypt :: bool
  cc_evp :: "'e option"
  cc_cp_ctx :: "chachapoly_ctx option"
  cc_cipher :: sshcipher

definition cipher_ctx_is_plaintext :: "'e sshcipher_ctx \<Rightarrow> bool" where
  "cipher_ctx_is_plaintext cc = cc_plaintext cc"

text \<open>Setting up a context of libcrypto, the last part of \<^verbatim>\<open>cipher_init\<close>.\<close>

definition cipher_init_evp :: "'e evp_ops \<Rightarrow> sshcipher \<Rightarrow> byte list \<Rightarrow> byte list option \<Rightarrow> bool \<Rightarrow> ssh_err + 'e" where
  "cipher_init_evp E cipher key iv do_encrypt =
     (case EVP_CIPHER_CTX_new E of
        None \<Rightarrow> Inl SSH_ERR_ALLOC_FAIL
      | Some e \<Rightarrow>
          (case EVP_CipherInit_iv E (ci_name cipher) iv do_encrypt e of
             None \<Rightarrow> Inl SSH_ERR_LIBCRYPTO_ERROR
           | Some e \<Rightarrow>
               (case (if cipher_authlen cipher \<noteq> 0 then EVP_CTRL_GCM_SET_IV_FIXED E iv e else Some e) of
                  None \<Rightarrow> Inl SSH_ERR_LIBCRYPTO_ERROR
                | Some e \<Rightarrow>
                    let klen = EVP_CIPHER_CTX_key_length E e in
                    (case (if klen > 0 \<and> int (length key) \<noteq> klen
                           then EVP_CIPHER_CTX_set_key_length E (length key) e else Some e) of
                       None \<Rightarrow> Inl SSH_ERR_LIBCRYPTO_ERROR
                     | Some e \<Rightarrow>
                         (case EVP_CipherInit_key E key e of
                            None \<Rightarrow> Inl SSH_ERR_LIBCRYPTO_ERROR
                          | Some e \<Rightarrow> Inr e)))))"

definition cipher_init :: "'e evp_ops \<Rightarrow> bool \<Rightarrow> sshcipher \<Rightarrow> byte list \<Rightarrow> byte list option \<Rightarrow> bool \<Rightarrow> ssh_err + 'e sshcipher_ctx" where
  "cipher_init E calloc cipher key iv do_encrypt =
     (if \<not> calloc then Inl SSH_ERR_ALLOC_FAIL
      else let cc = \<lparr>cc_plaintext = (ci_flags cipher AND CFLAG_NONE \<noteq> 0), cc_encrypt = do_encrypt, cc_evp = None,
                     cc_cp_ctx = None, cc_cipher = cipher\<rparr> in
        if length key < ci_key_len cipher \<or> (case iv of None \<Rightarrow> False | Some v \<Rightarrow> length v < cipher_ivlen cipher)
        then Inl SSH_ERR_INVALID_ARGUMENT
        else if ci_flags cipher AND CFLAG_CHACHAPOLY \<noteq> 0
        then (case chachapoly_new key (length key) of
                None \<Rightarrow> Inl SSH_ERR_INVALID_ARGUMENT
              | Some cp \<Rightarrow> Inr (cc\<lparr>cc_cp_ctx := Some cp\<rparr>))
        else if ci_flags cipher AND CFLAG_NONE \<noteq> 0 then Inr cc
        else map_sum id (\<lambda>e. cc\<lparr>cc_evp := Some e\<rparr>)
               (cipher_init_evp E cipher key iv do_encrypt))"

text \<open>
  \<^verbatim>\<open>cipher_crypt\<close>: the bytes written to \<^verbatim>\<open>dest\<close>, from the bytes at \<^verbatim>\<open>src\<close>, and the
  context afterwards.  The part for a context of libcrypto comes first.
\<close>

definition cipher_crypt_evp ::
    "'e evp_ops \<Rightarrow> sshcipher \<Rightarrow> bool \<Rightarrow> 'e \<Rightarrow> byte list \<Rightarrow> nat \<Rightarrow> nat \<Rightarrow> nat \<Rightarrow> ssh_err + byte list \<times> 'e" where
  "cipher_crypt_evp E cipher enc e src len aadlen authlen =
     (case (if authlen = 0 then Inr e
            else if authlen \<noteq> cipher_authlen cipher then Inl SSH_ERR_INVALID_ARGUMENT
            else case EVP_CTRL_GCM_IV_GEN E e of
              None \<Rightarrow> Inl SSH_ERR_LIBCRYPTO_ERROR
            | Some e \<Rightarrow>
                if enc then Inr e
                else case EVP_CTRL_GCM_SET_TAG E (take authlen (drop (aadlen + len) src)) e of
                  None \<Rightarrow> Inl SSH_ERR_LIBCRYPTO_ERROR
                | Some e \<Rightarrow> Inr e) of
        Inl err \<Rightarrow> Inl err
      | Inr e \<Rightarrow>
          (case (if aadlen \<noteq> 0 \<and> authlen \<noteq> 0 then EVP_Cipher_aad E (take aadlen src) e else Some e) of
             None \<Rightarrow> Inl SSH_ERR_LIBCRYPTO_ERROR
           | Some e \<Rightarrow>
               if len mod ci_block_size cipher \<noteq> 0 then Inl SSH_ERR_INVALID_ARGUMENT
               else case EVP_Cipher E (take len (drop aadlen src)) e of
                 None \<Rightarrow> Inl SSH_ERR_LIBCRYPTO_ERROR
               | Some (body, e) \<Rightarrow>
                   if authlen = 0 then Inr (take aadlen src @ body, e)
                   else case EVP_Cipher_final E e of
                     None \<Rightarrow> Inl (if enc then SSH_ERR_LIBCRYPTO_ERROR else SSH_ERR_MAC_INVALID)
                   | Some e \<Rightarrow>
                       if \<not> enc then Inr (take aadlen src @ body, e)
                       else case EVP_CTRL_GCM_GET_TAG E authlen e of
                         None \<Rightarrow> Inl SSH_ERR_LIBCRYPTO_ERROR
                       | Some tag \<Rightarrow> Inr (take aadlen src @ body @ tag, e)))"

definition cipher_crypt ::
    "'e evp_ops \<Rightarrow> 'e sshcipher_ctx \<Rightarrow> 32 word \<Rightarrow> byte list \<Rightarrow> nat \<Rightarrow> nat \<Rightarrow> nat \<Rightarrow> ssh_err + byte list \<times> 'e sshcipher_ctx" where
  "cipher_crypt E cc seqnr src len aadlen authlen =
     (if ci_flags (cc_cipher cc) AND CFLAG_CHACHAPOLY \<noteq> 0
      then (case chachapoly_crypt (the (cc_cp_ctx cc)) seqnr src len aadlen authlen (cc_encrypt cc) of
              (Inl e, cp) \<Rightarrow> Inl e
            | (Inr dest, cp) \<Rightarrow> Inr (dest, cc\<lparr>cc_cp_ctx := Some cp\<rparr>))
      else if ci_flags (cc_cipher cc) AND CFLAG_NONE \<noteq> 0 then Inr (take (aadlen + len) src, cc)
      else map_sum id (\<lambda>(dest, e). (dest, cc\<lparr>cc_evp := Some e\<rparr>))
             (cipher_crypt_evp E (cc_cipher cc) (cc_encrypt cc) (the (cc_evp cc)) src len aadlen authlen))"

definition cipher_get_length :: "'e sshcipher_ctx \<Rightarrow> 32 word \<Rightarrow> byte list \<Rightarrow> ssh_err + 32 word \<times> 'e sshcipher_ctx" where
  "cipher_get_length cc seqnr cp =
     (if ci_flags (cc_cipher cc) AND CFLAG_CHACHAPOLY \<noteq> 0
      then (case chachapoly_get_length (the (cc_cp_ctx cc)) seqnr cp of
              (Inl e, c) \<Rightarrow> Inl e
            | (Inr n, c) \<Rightarrow> Inr (n, cc\<lparr>cc_cp_ctx := Some c\<rparr>))
      else if length cp < 4 then Inl SSH_ERR_MESSAGE_INCOMPLETE
      else Inr (PEEK_U32 cp, cc))"

text \<open>
  \<^verbatim>\<open>cipher_get_keyiv\<close> with the length of \<^verbatim>\<open>iv\<close> for \<^verbatim>\<open>len\<close>: the initialisation vector, which is left as it is by
  ciphers that have none.  Asking a GCM context for its vector advances it.
\<close>

definition cipher_get_keyiv :: "'e evp_ops \<Rightarrow> 'e sshcipher_ctx \<Rightarrow> byte list \<Rightarrow> ssh_err + byte list \<times> 'e sshcipher_ctx" where
  "cipher_get_keyiv E cc iv =
     (if ci_flags (cc_cipher cc) AND CFLAG_CHACHAPOLY \<noteq> 0
      then (if length iv \<noteq> 0 then Inl SSH_ERR_INVALID_ARGUMENT else Inr (iv, cc))
      else if ci_flags (cc_cipher cc) AND CFLAG_NONE \<noteq> 0 then Inr (iv, cc)
      else let e = the (cc_evp cc); evplen = EVP_CIPHER_CTX_iv_length E e in
        if evplen = 0 then Inr (iv, cc)
        else if evplen < 0 then Inl SSH_ERR_LIBCRYPTO_ERROR
        else if evplen \<noteq> int (length iv) then Inl SSH_ERR_INVALID_ARGUMENT
        else if cipher_authlen (cc_cipher cc) \<noteq> 0
        then (case EVP_CTRL_GCM_GET_IV E (length iv) e of
                None \<Rightarrow> Inl SSH_ERR_LIBCRYPTO_ERROR
              | Some (v, e) \<Rightarrow> Inr (v, cc\<lparr>cc_evp := Some e\<rparr>))
        else (case EVP_CIPHER_CTX_get_iv E (length iv) e of
                None \<Rightarrow> Inl SSH_ERR_LIBCRYPTO_ERROR
              | Some v \<Rightarrow> Inr (v, cc)))"

end
