(* ===== verification/Sshkey_Names.thy ===== *)
theory Sshkey_Names
  imports Match
begin

text \<open>
  The names of public key algorithms, from \<^verbatim>\<open>sshkey.c\<close> and the tables of \<^verbatim>\<open>ssh-ed25519.c\<close>,
  \<^verbatim>\<open>ssh-ed25519-sk.c\<close>, \<^verbatim>\<open>ssh-mldsa-eddsa.c\<close>, \<^verbatim>\<open>ssh-ecdsa.c\<close>, \<^verbatim>\<open>ssh-ecdsa-sk.c\<close> and \<^verbatim>\<open>ssh-rsa.c\<close>, in the build
  with libcrypto, security keys and ML-DSA.  The numbers by which libcrypto knows curves are only compared, so they are
  constructors here; \<open>NID_none\<close> is -1 and \<open>NID_undef\<close> is 0.
\<close>

datatype key_type = KEY_RSA | KEY_ECDSA | KEY_ED25519 | KEY_RSA_CERT | KEY_ECDSA_CERT | KEY_ED25519_CERT | KEY_ECDSA_SK
  | KEY_ECDSA_SK_CERT | KEY_ED25519_SK | KEY_ED25519_SK_CERT | KEY_MLDSA44_ED25519 | KEY_MLDSA44_ED25519_CERT | KEY_UNSPEC

datatype ec_nid = NID_none | NID_undef | NID_X9_62_prime256v1 | NID_secp384r1 | NID_secp521r1

record sshkey_impl =
  ki_name :: string
  ki_shortname :: string
  ki_sigalg :: "string option"
  ki_type :: key_type
  ki_nid :: ec_nid
  ki_cert :: bool
  ki_sigonly :: bool
  ki_keybits :: nat

abbreviation impl_row :: "string \<Rightarrow> string \<Rightarrow> string option \<Rightarrow> key_type \<Rightarrow> ec_nid \<Rightarrow> bool \<Rightarrow> bool \<Rightarrow> nat \<Rightarrow> sshkey_impl" where
  "impl_row n s a t c cert sigonly k \<equiv>
     \<lparr>ki_name = n, ki_shortname = s, ki_sigalg = a, ki_type = t, ki_nid = c, ki_cert = cert, ki_sigonly = sigonly, ki_keybits = k\<rparr>"

definition ed25519_impls :: "sshkey_impl list" where
  "ed25519_impls =
     [impl_row ''ssh-ed25519'' ''ED25519'' None KEY_ED25519 NID_undef False False 256,
      impl_row ''ssh-ed25519-cert-v01@openssh.com'' ''ED25519-CERT'' None KEY_ED25519_CERT NID_undef True False 256]"

definition ed25519_sk_impls :: "sshkey_impl list" where
  "ed25519_sk_impls =
     [impl_row ''sk-ssh-ed25519@openssh.com'' ''ED25519-SK'' None KEY_ED25519_SK NID_undef False False 256,
      impl_row ''sk-ssh-ed25519-cert-v01@openssh.com'' ''ED25519-SK-CERT'' None KEY_ED25519_SK_CERT NID_undef True False 256]"

definition mldsa_impls :: "sshkey_impl list" where
  "mldsa_impls =
     [impl_row ''ssh-mldsa44-ed25519@openssh.com'' ''MLDSA44-ED25519'' None KEY_MLDSA44_ED25519 NID_undef False False 256,
      impl_row ''ssh-mldsa44-ed25519-cert-v01@openssh.com'' ''MLDSA44-ED25519-CERT'' None KEY_MLDSA44_ED25519_CERT NID_undef True False 256]"

definition ecdsa_impls :: "sshkey_impl list" where
  "ecdsa_impls =
     [impl_row ''ecdsa-sha2-nistp256'' ''ECDSA'' None KEY_ECDSA NID_X9_62_prime256v1 False False 0,
      impl_row ''ecdsa-sha2-nistp256-cert-v01@openssh.com'' ''ECDSA-CERT'' None KEY_ECDSA_CERT NID_X9_62_prime256v1 True False 0,
      impl_row ''ecdsa-sha2-nistp384'' ''ECDSA'' None KEY_ECDSA NID_secp384r1 False False 0,
      impl_row ''ecdsa-sha2-nistp384-cert-v01@openssh.com'' ''ECDSA-CERT'' None KEY_ECDSA_CERT NID_secp384r1 True False 0,
      impl_row ''ecdsa-sha2-nistp521'' ''ECDSA'' None KEY_ECDSA NID_secp521r1 False False 0,
      impl_row ''ecdsa-sha2-nistp521-cert-v01@openssh.com'' ''ECDSA-CERT'' None KEY_ECDSA_CERT NID_secp521r1 True False 0]"

definition ecdsa_sk_impls :: "sshkey_impl list" where
  "ecdsa_sk_impls =
     [impl_row ''sk-ecdsa-sha2-nistp256@openssh.com'' ''ECDSA-SK'' None KEY_ECDSA_SK NID_X9_62_prime256v1 False False 256,
      impl_row ''sk-ecdsa-sha2-nistp256-cert-v01@openssh.com'' ''ECDSA-SK-CERT'' None KEY_ECDSA_SK_CERT NID_X9_62_prime256v1 True False 256,
      impl_row ''webauthn-sk-ecdsa-sha2-nistp256@openssh.com'' ''ECDSA-SK'' None KEY_ECDSA_SK NID_X9_62_prime256v1 False True 256,
      impl_row ''webauthn-sk-ecdsa-sha2-nistp256-cert-v01@openssh.com'' ''ECDSA-SK-CERT'' None KEY_ECDSA_SK_CERT NID_X9_62_prime256v1
        True True 256]"

definition rsa_impls :: "sshkey_impl list" where
  "rsa_impls =
     [impl_row ''ssh-rsa'' ''RSA'' None KEY_RSA NID_undef False False 0,
      impl_row ''ssh-rsa-cert-v01@openssh.com'' ''RSA-CERT'' None KEY_RSA_CERT NID_undef True False 0,
      impl_row ''rsa-sha2-256'' ''RSA'' None KEY_RSA NID_undef False True 0,
      impl_row ''rsa-sha2-256-cert-v01@openssh.com'' ''RSA-CERT'' (Some ''rsa-sha2-256'') KEY_RSA_CERT NID_undef True True 0,
      impl_row ''rsa-sha2-512'' ''RSA'' None KEY_RSA NID_undef False True 0,
      impl_row ''rsa-sha2-512-cert-v01@openssh.com'' ''RSA-CERT'' (Some ''rsa-sha2-512'') KEY_RSA_CERT NID_undef True True 0]"

definition keyimpls :: "sshkey_impl list" where
  "keyimpls = ed25519_impls @ ed25519_sk_impls @ mldsa_impls @ ecdsa_impls @ ecdsa_sk_impls @ rsa_impls"

definition sshkey_impl_from_type :: "key_type \<Rightarrow> sshkey_impl option" where
  "sshkey_impl_from_type t = find (\<lambda>i. ki_type i = t) keyimpls"

definition sshkey_impl_from_type_nid :: "key_type \<Rightarrow> ec_nid \<Rightarrow> sshkey_impl option" where
  "sshkey_impl_from_type_nid t n = find (\<lambda>i. ki_type i = t \<and> (ki_nid i = NID_undef \<or> ki_nid i = n)) keyimpls"

definition sshkey_ssh_name_from_type_nid :: "key_type \<Rightarrow> ec_nid \<Rightarrow> string" where
  "sshkey_ssh_name_from_type_nid t n = (case sshkey_impl_from_type_nid t n of None \<Rightarrow> ''ssh-unknown'' | Some i \<Rightarrow> ki_name i)"

definition sshkey_type_is_cert :: "key_type \<Rightarrow> bool" where
  "sshkey_type_is_cert t = (case sshkey_impl_from_type t of None \<Rightarrow> False | Some i \<Rightarrow> ki_cert i)"

definition type_from_name :: "string \<Rightarrow> bool \<Rightarrow> key_type" where
  "type_from_name name allow_short =
     (case find (\<lambda>i. name = ki_name i \<or> allow_short \<and> \<not> ki_cert i \<and> map tolower (ki_shortname i) = map tolower name) keyimpls of
        None \<Rightarrow> KEY_UNSPEC
      | Some i \<Rightarrow> ki_type i)"

definition sshkey_type_from_name :: "string \<Rightarrow> key_type" where
  "sshkey_type_from_name name = type_from_name name False"

definition sshkey_type_from_shortname :: "string \<Rightarrow> key_type" where
  "sshkey_type_from_shortname name = type_from_name name True"

definition key_type_is_ecdsa_variant :: "key_type \<Rightarrow> bool" where
  "key_type_is_ecdsa_variant t \<longleftrightarrow> t \<in> {KEY_ECDSA, KEY_ECDSA_CERT, KEY_ECDSA_SK, KEY_ECDSA_SK_CERT}"

definition sshkey_ecdsa_nid_from_name :: "string \<Rightarrow> ec_nid" where
  "sshkey_ecdsa_nid_from_name name =
     (case find (\<lambda>i. key_type_is_ecdsa_variant (ki_type i) \<and> name = ki_name i) keyimpls of None \<Rightarrow> NID_none | Some i \<Rightarrow> ki_nid i)"

definition sshkey_match_keyname_to_sigalgs :: "string \<Rightarrow> string option \<Rightarrow> bool" where
  "sshkey_match_keyname_to_sigalgs keyname sigalgs =
     (case sigalgs of
        None \<Rightarrow> False
      | Some algs \<Rightarrow>
          let ktype = sshkey_type_from_name keyname; listed = (\<lambda>n. match_pattern_list n algs False = 1) in
          if algs = [] \<or> ktype = KEY_UNSPEC then False
          else if ktype = KEY_RSA then listed ''ssh-rsa'' \<or> listed ''rsa-sha2-256'' \<or> listed ''rsa-sha2-512''
          else if ktype = KEY_RSA_CERT
          then listed ''ssh-rsa-cert-v01@openssh.com'' \<or> listed ''rsa-sha2-256-cert-v01@openssh.com'' \<or>
               listed ''rsa-sha2-512-cert-v01@openssh.com''
          else if ktype = KEY_ECDSA_SK
          then listed ''sk-ecdsa-sha2-nistp256@openssh.com'' \<or> listed ''webauthn-sk-ecdsa-sha2-nistp256@openssh.com''
          else if ktype = KEY_ECDSA_SK_CERT
          then listed ''sk-ecdsa-sha2-nistp256-cert-v01@openssh.com'' \<or> listed ''webauthn-sk-ecdsa-sha2-nistp256-cert-v01@openssh.com''
          else listed keyname)"

text \<open>\<^verbatim>\<open>xextendf\<close> of \<^verbatim>\<open>misc.c\<close>, with the formatted string as its argument, and its use on a list of names.\<close>

definition xextendf :: "string option \<Rightarrow> string \<Rightarrow> string \<Rightarrow> string option" where
  "xextendf sp sep s = (case sp of None \<Rightarrow> Some s | Some t \<Rightarrow> if t = [] then Some s else Some (t @ sep @ s))"

definition sep_names :: "char \<Rightarrow> string list \<Rightarrow> string option" where
  "sep_names sep ns = fold (\<lambda>n sp. xextendf sp [sep] n) ns None"

definition sshkey_alg_list :: "bool \<Rightarrow> bool \<Rightarrow> bool \<Rightarrow> char \<Rightarrow> string option" where
  "sshkey_alg_list certs_only plain_only include_sigonly sep =
     sep_names sep (map ki_name (filter (\<lambda>i. (include_sigonly \<or> \<not> ki_sigonly i) \<and>
       \<not> (certs_only \<and> \<not> ki_cert i \<or> plain_only \<and> ki_cert i)) keyimpls))"

fun names_valid2_loop :: "bool \<Rightarrow> bool \<Rightarrow> string list \<Rightarrow> bool" where
  "names_valid2_loop allow_wildcard plain_only [] = True"
| "names_valid2_loop allow_wildcard plain_only (p # ps) =
     (if p = [] then True
      else let t = sshkey_type_from_name p in
        if t = KEY_UNSPEC
        then allow_wildcard \<and> list_ex (\<lambda>i. match_pattern_list (ki_name i) p False \<noteq> 0) keyimpls \<and>
          names_valid2_loop allow_wildcard plain_only ps
        else if plain_only \<and> sshkey_type_is_cert t then False
        else names_valid2_loop allow_wildcard plain_only ps)"

definition sshkey_names_valid2 :: "bool \<Rightarrow> string option \<Rightarrow> bool \<Rightarrow> bool \<Rightarrow> bool" where
  "sshkey_names_valid2 strdup names allow_wildcard plain_only =
     (case names of
        None \<Rightarrow> False
      | Some n \<Rightarrow> n \<noteq> [] \<and> strdup \<and> names_valid2_loop allow_wildcard plain_only (strsep_all n))"

fun sshkey_type_plain :: "key_type \<Rightarrow> key_type" where
  "sshkey_type_plain KEY_RSA_CERT = KEY_RSA"
| "sshkey_type_plain KEY_ECDSA_CERT = KEY_ECDSA"
| "sshkey_type_plain KEY_ECDSA_SK_CERT = KEY_ECDSA_SK"
| "sshkey_type_plain KEY_ED25519_CERT = KEY_ED25519"
| "sshkey_type_plain KEY_MLDSA44_ED25519_CERT = KEY_MLDSA44_ED25519"
| "sshkey_type_plain KEY_ED25519_SK_CERT = KEY_ED25519_SK"
| "sshkey_type_plain t = t"

definition sshkey_sigalg_by_name :: "string \<Rightarrow> string option" where
  "sshkey_sigalg_by_name name =
     (case find (\<lambda>i. ki_name i = name) keyimpls of
        None \<Rightarrow> None
      | Some i \<Rightarrow> Some (case ki_sigalg i of
                        Some a \<Rightarrow> a
                      | None \<Rightarrow> if \<not> ki_cert i then ki_name i
                                else sshkey_ssh_name_from_type_nid (sshkey_type_plain (ki_type i)) (ki_nid i)))"

section \<open>The table is consistent\<close>

lemma keyimpls_distinct: "distinct (map ki_name keyimpls)"
  by code_simp

lemma keyimpls_typed: "\<forall>i \<in> set keyimpls. ki_type i \<noteq> KEY_UNSPEC \<and> CHR '','' \<notin> set (ki_name i) \<and> ki_name i \<noteq> []"
  by code_simp

lemma find_name:
  assumes "i \<in> set keyimpls"
  shows "find (\<lambda>j. ki_name j = ki_name i) keyimpls = Some i"
  using assms find_distinct_key [OF keyimpls_distinct] by blast

text \<open>Every signature algorithm is a plain name of the table that stands for a key of the certified type and curve.\<close>

lemma sigalg_plain:
  "\<forall>i \<in> set keyimpls. \<exists>j \<in> set keyimpls. sshkey_sigalg_by_name (ki_name i) = Some (ki_name j) \<and> \<not> ki_cert j \<and>
     ki_type j = sshkey_type_plain (ki_type i) \<and> ki_nid j = ki_nid i"
  by code_simp

end
