(* ===== verification/Kex_Names.thy ===== *)
theory Kex_Names
  imports Sshkey_Names Hmac
begin

text \<open>
  The table of key exchange methods and the lists of algorithm names, from \<^verbatim>\<open>kex-names.c\<close>, in the build with
  libcrypto and the hybrid methods.  The number of a method is \<open>None\<close> where the code has 0.  The argument
  \<open>alloc\<close> tells whether allocations succeed.
\<close>

section \<open>Methods\<close>

datatype kex_exchange = KEX_DH_GRP1_SHA1 | KEX_DH_GRP14_SHA1 | KEX_DH_GRP14_SHA256 | KEX_DH_GRP16_SHA512 | KEX_DH_GRP18_SHA512
  | KEX_DH_GEX_SHA1 | KEX_DH_GEX_SHA256 | KEX_ECDH_SHA2 | KEX_C25519_SHA256 | KEX_KEM_SNTRUP761X25519_SHA512
  | KEX_KEM_MLKEM768X25519_SHA256 | KEX_KEM_MLKEM768ECDH_SHA256

record kexalg =
  ka_name :: string
  ka_type :: kex_exchange
  ka_ec_nid :: ec_nid
  ka_hash_alg :: int
  ka_pq_alg :: bool

abbreviation kexalg_row :: "string \<Rightarrow> kex_exchange \<Rightarrow> ec_nid \<Rightarrow> int \<Rightarrow> bool \<Rightarrow> kexalg" where
  "kexalg_row n t c h pq \<equiv> \<lparr>ka_name = n, ka_type = t, ka_ec_nid = c, ka_hash_alg = h, ka_pq_alg = pq\<rparr>"

definition kexalgs :: "kexalg list" where
  "kexalgs =
     [kexalg_row ''diffie-hellman-group1-sha1'' KEX_DH_GRP1_SHA1 NID_undef SSH_DIGEST_SHA1 False,
      kexalg_row ''diffie-hellman-group14-sha1'' KEX_DH_GRP14_SHA1 NID_undef SSH_DIGEST_SHA1 False,
      kexalg_row ''diffie-hellman-group14-sha256'' KEX_DH_GRP14_SHA256 NID_undef SSH_DIGEST_SHA256 False,
      kexalg_row ''diffie-hellman-group16-sha512'' KEX_DH_GRP16_SHA512 NID_undef SSH_DIGEST_SHA512 False,
      kexalg_row ''diffie-hellman-group18-sha512'' KEX_DH_GRP18_SHA512 NID_undef SSH_DIGEST_SHA512 False,
      kexalg_row ''diffie-hellman-group-exchange-sha1'' KEX_DH_GEX_SHA1 NID_undef SSH_DIGEST_SHA1 False,
      kexalg_row ''diffie-hellman-group-exchange-sha256'' KEX_DH_GEX_SHA256 NID_undef SSH_DIGEST_SHA256 False,
      kexalg_row ''ecdh-sha2-nistp256'' KEX_ECDH_SHA2 NID_X9_62_prime256v1 SSH_DIGEST_SHA256 False,
      kexalg_row ''ecdh-sha2-nistp384'' KEX_ECDH_SHA2 NID_secp384r1 SSH_DIGEST_SHA384 False,
      kexalg_row ''ecdh-sha2-nistp521'' KEX_ECDH_SHA2 NID_secp521r1 SSH_DIGEST_SHA512 False,
      kexalg_row ''mlkem768nistp256-sha256'' KEX_KEM_MLKEM768ECDH_SHA256 NID_X9_62_prime256v1 SSH_DIGEST_SHA256 True,
      kexalg_row ''curve25519-sha256'' KEX_C25519_SHA256 NID_undef SSH_DIGEST_SHA256 False,
      kexalg_row ''curve25519-sha256@libssh.org'' KEX_C25519_SHA256 NID_undef SSH_DIGEST_SHA256 False,
      kexalg_row ''sntrup761x25519-sha512'' KEX_KEM_SNTRUP761X25519_SHA512 NID_undef SSH_DIGEST_SHA512 True,
      kexalg_row ''sntrup761x25519-sha512@openssh.com'' KEX_KEM_SNTRUP761X25519_SHA512 NID_undef SSH_DIGEST_SHA512 True,
      kexalg_row ''mlkem768x25519-sha256'' KEX_KEM_MLKEM768X25519_SHA256 NID_undef SSH_DIGEST_SHA256 True]"

definition kex_alg_list :: "char \<Rightarrow> string option" where
  "kex_alg_list sep = sep_names sep (map ka_name kexalgs)"

definition kex_alg_by_name :: "string \<Rightarrow> kexalg option" where
  "kex_alg_by_name name = find (\<lambda>k. ka_name k = name) kexalgs"

definition kex_name_valid :: "string \<Rightarrow> bool" where
  "kex_name_valid name \<longleftrightarrow> kex_alg_by_name name \<noteq> None"

definition kex_is_pq_from_name :: "string \<Rightarrow> bool" where
  "kex_is_pq_from_name name = (case kex_alg_by_name name of None \<Rightarrow> False | Some k \<Rightarrow> ka_pq_alg k)"

definition kex_type_from_name :: "string \<Rightarrow> kex_exchange option" where
  "kex_type_from_name name = map_option ka_type (kex_alg_by_name name)"

definition kex_hash_from_name :: "string \<Rightarrow> int" where
  "kex_hash_from_name name = (case kex_alg_by_name name of None \<Rightarrow> -1 | Some k \<Rightarrow> ka_hash_alg k)"

definition kex_nid_from_name :: "string \<Rightarrow> ec_nid" where
  "kex_nid_from_name name = (case kex_alg_by_name name of None \<Rightarrow> NID_none | Some k \<Rightarrow> ka_ec_nid k)"

section \<open>Name lists\<close>

definition kex_names_valid :: "bool \<Rightarrow> string option \<Rightarrow> bool" where
  "kex_names_valid alloc names =
     (case names of
        None \<Rightarrow> False
      | Some n \<Rightarrow> n \<noteq> [] \<and> alloc \<and> list_all (\<lambda>p. kex_alg_by_name p \<noteq> None) (proposals n))"

definition kex_has_any_alg :: "string \<Rightarrow> string \<Rightarrow> bool" where
  "kex_has_any_alg proposal algs \<longleftrightarrow> fst (match_list proposal algs) \<noteq> None"

text \<open>The loop of \<^verbatim>\<open>kex_names_cat\<close>; \<open>None\<close> is the case in which the buffer is too small.\<close>

fun names_cat_loop :: "nat \<Rightarrow> string list \<Rightarrow> string \<Rightarrow> string option" where
  "names_cat_loop len [] ret = Some ret"
| "names_cat_loop len (p # ps) ret =
     (if kex_has_any_alg ret p then names_cat_loop len ps ret
      else if length ret + 1 \<ge> len then None
      else if length ret + 1 + length p \<ge> len then None
      else names_cat_loop len ps (ret @ '','' @ p))"

definition kex_names_cat :: "bool \<Rightarrow> string option \<Rightarrow> string option \<Rightarrow> string option" where
  "kex_names_cat alloc a b =
     (case a of
        None \<Rightarrow> if alloc then b else None
      | Some x \<Rightarrow>
          if x = [] then if alloc then b else None
          else case b of
            None \<Rightarrow> if alloc then a else None
          | Some y \<Rightarrow>
              if y = [] then if alloc then a else None
              else if length y > 1024 * 1024 then None
              else if \<not> alloc then None
              else names_cat_loop (length x + length y + 2) (proposals y) x)"

text \<open>
  \<^verbatim>\<open>kex_assemble_names\<close> returns its result, the error if any, and what it leaves in the list it is given.
  The loop over the patterns starts from no list.
\<close>

fun assemble_loop :: "bool \<Rightarrow> string \<Rightarrow> string list \<Rightarrow> string option \<Rightarrow> ssh_err + string option" where
  "assemble_loop alloc all [] ret = Inr ret"
| "assemble_loop alloc all (cp # cps) ret =
     (if (case cp of c # _ \<Rightarrow> c = CHR ''!'' | [] \<Rightarrow> False) then Inl SSH_ERR_INVALID_ARGUMENT
      else case match_filter_allowlist alloc all cp of
        None \<Rightarrow> Inl SSH_ERR_ALLOC_FAIL
      | Some matching \<Rightarrow>
          (case kex_names_cat alloc ret (Some matching) of
             None \<Rightarrow> Inl SSH_ERR_ALLOC_FAIL
           | Some tmp \<Rightarrow> assemble_loop alloc all cps (Some tmp)))"

definition assemble_patterns :: "bool \<Rightarrow> string \<Rightarrow> string \<Rightarrow> ssh_err option \<times> string option" where
  "assemble_patterns alloc all list =
     (if \<not> alloc then (Some SSH_ERR_ALLOC_FAIL, None)
      else case assemble_loop alloc all (strsep_all list) None of
        Inl e \<Rightarrow> (Some e, None)
      | Inr None \<Rightarrow> (Some SSH_ERR_INVALID_ARGUMENT, None)
      | Inr (Some ret) \<Rightarrow> if ret = [] then (Some SSH_ERR_INVALID_ARGUMENT, None) else (None, Some ret))"

definition kex_assemble_names ::
    "bool \<Rightarrow> string option \<Rightarrow> string option \<Rightarrow> string option \<Rightarrow> ssh_err option \<times> string option" where
  "kex_assemble_names alloc listp def all =
     (case (def, all) of
        (Some def, Some all) \<Rightarrow>
          (case listp of
             None \<Rightarrow> if alloc then (None, Some def) else (Some SSH_ERR_ALLOC_FAIL, None)
           | Some [] \<Rightarrow> if alloc then (None, Some def) else (Some SSH_ERR_ALLOC_FAIL, None)
           | Some (c # rest) \<Rightarrow>
               if c = CHR ''+''
               then (case kex_names_cat alloc (Some def) (Some rest) of
                       None \<Rightarrow> (Some SSH_ERR_ALLOC_FAIL, None)
                     | Some list \<Rightarrow> assemble_patterns alloc all list)
               else if c = CHR ''-''
               then (case match_filter_denylist alloc def rest of
                       None \<Rightarrow> (Some SSH_ERR_ALLOC_FAIL, None)
                     | Some list \<Rightarrow> (None, Some list))
               else if c = CHR ''^''
               then (case kex_names_cat alloc (Some rest) (Some def) of
                       None \<Rightarrow> (Some SSH_ERR_ALLOC_FAIL, None)
                     | Some list \<Rightarrow> assemble_patterns alloc all list)
               else assemble_patterns alloc all (c # rest))
      | _ \<Rightarrow> (Some SSH_ERR_INVALID_ARGUMENT, listp))"

section \<open>The table is consistent\<close>

lemma kexalgs_distinct: "distinct (map ka_name kexalgs)"
  by code_simp

lemma kexalgs_hash: "\<forall>k \<in> set kexalgs. ssh_digest_bytes (ka_hash_alg k) > 0"
  by code_simp

section \<open>Concatenation of lists\<close>

text \<open>Appending the names of a list that are not there yet.\<close>

fun add_names :: "string list \<Rightarrow> string list \<Rightarrow> string list" where
  "add_names xs [] = xs"
| "add_names xs (p # ps) = (if p \<in> set xs then add_names xs ps else add_names (xs @ [p]) ps)"

lemma set_add_names [simp]: "set (add_names xs ps) = set xs \<union> set ps"
  by (induction ps arbitrary: xs) auto

lemma distinct_add_names: "distinct xs \<Longrightarrow> distinct (add_names xs ps)"
  by (induction ps arbitrary: xs) auto

lemma add_names_prefix: "\<exists>ys. add_names xs ps = xs @ ys \<and> set ys \<inter> set xs = {}"
proof (induction ps arbitrary: xs)
  case (Cons p ps)
  show ?case
  proof (cases "p \<in> set xs")
    case False
    from Cons.IH [of "xs @ [p]"] obtain ys where "add_names (xs @ [p]) ps = (xs @ [p]) @ ys" "set ys \<inter> set (xs @ [p]) = {}" by blast
    then show ?thesis using False by (intro exI [of _ "p # ys"]) auto
  qed (use Cons.IH in simp)
qed simp

lemma strsep_all_no_comma': "t \<in> set (proposals s) \<Longrightarrow> CHR '','' \<notin> set t \<and> t \<noteq> []"
  using strsep_all_no_comma by (auto simp: proposals_def dest: set_takeWhileD)

lemma proposals_single: "t \<noteq> [] \<Longrightarrow> CHR '','' \<notin> set t \<Longrightarrow> proposals t = [t]"
  by (simp add: proposals_def strsep_all_single)

lemma proposals_full: "[] \<notin> set (strsep_all s) \<Longrightarrow> proposals s = strsep_all s"
  by (auto simp: proposals_def takeWhile_eq_all_conv)

lemma has_any_alg_single:
  assumes "t \<noteq> []" "CHR '','' \<notin> set t" "[] \<notin> set (strsep_all s)"
  shows "kex_has_any_alg s t \<longleftrightarrow> t \<in> set (strsep_all s)"
  using assms by (auto simp: kex_has_any_alg_def match_list_find proposals_single proposals_full find_None_iff MAX_PROP_def)

lemma strsep_all_snoc: "CHR '','' \<notin> set t \<Longrightarrow> strsep_all (s @ '','' @ t) = strsep_all s @ [t]"
proof (induction s)
  case (Cons c s)
  then show ?case by (cases "strsep_all s") auto
qed (simp add: strsep_all_single)

lemma names_cat_loop_entries:
  assumes "[] \<notin> set (strsep_all s)" "\<forall>p \<in> set ps. p \<noteq> [] \<and> CHR '','' \<notin> set p"
  shows "names_cat_loop len ps s = Some r \<Longrightarrow> strsep_all r = add_names (strsep_all s) ps"
    and "length s + (\<Sum>p\<leftarrow>ps. length p + 1) < len \<Longrightarrow> names_cat_loop len ps s \<noteq> None"
  using assms
proof (induction ps arbitrary: s)
  case (Cons p ps)
  {
    case 1
    then have p: "p \<noteq> []" "CHR '','' \<notin> set p" by simp_all
    with 1 Cons.IH(1) [of s] Cons.IH(1) [of "s @ '','' @ p"] show ?case
      by (auto simp: has_any_alg_single strsep_all_snoc simp del: append_Cons split: if_splits)
  next
    case 2
    then have p: "p \<noteq> []" "CHR '','' \<notin> set p" by simp_all
    with 2 Cons.IH(2) [of s] Cons.IH(2) [of "s @ '','' @ p"] show ?case
      by (auto simp: has_any_alg_single strsep_all_snoc simp del: append_Cons split: if_splits)
  }
qed simp_all

lemma kex_names_cat_entries:
  assumes "x \<noteq> []" "[] \<notin> set (strsep_all x)" "kex_names_cat alloc (Some x) (Some y) = Some r"
  shows "strsep_all r = add_names (strsep_all x) (proposals y)" "r \<noteq> []"
proof -
  have "strsep_all r = add_names (strsep_all x) (proposals y)"
  proof (cases "y = []")
    case True
    then show ?thesis using assms by (auto simp: kex_names_cat_def proposals_def split: if_splits)
  next
    case False
    then show ?thesis
      using assms names_cat_loop_entries(1) [of x "proposals y" _ r] strsep_all_no_comma'
      by (fastforce simp: kex_names_cat_def split: if_splits)
  qed
  moreover have "add_names (strsep_all x) (proposals y) \<noteq> [[]]"
    using assms(2) add_names_prefix [of "strsep_all x" "proposals y"] by (cases "strsep_all x") auto
  ultimately show "strsep_all r = add_names (strsep_all x) (proposals y)" "r \<noteq> []" by auto
qed

lemma sum_takeWhile_le: "(\<Sum>p\<leftarrow>takeWhile Q xs. f p) \<le> (\<Sum>p\<leftarrow>xs. f p :: nat)"
  by (induction xs) auto

text \<open>The buffer of \<^verbatim>\<open>kex_names_cat\<close> is always large enough.\<close>

lemma kex_names_cat_fits:
  assumes "x \<noteq> []" "[] \<notin> set (strsep_all x)" "length y \<le> 1024 * 1024"
  shows "kex_names_cat True (Some x) (Some y) \<noteq> None"
proof -
  have "(\<Sum>p\<leftarrow>proposals y. length p + 1) \<le> length y + 1"
    using sum_takeWhile_le [of "\<lambda>p. length p + 1" _ "strsep_all y"] strsep_all_size [of y] by (simp add: proposals_def)
  then show ?thesis
    using names_cat_loop_entries(2) [of x "proposals y" "length x + length y + 2"] assms strsep_all_no_comma'
    by (fastforce simp: kex_names_cat_def)
qed

text \<open>The names that a pattern of a list stands for, and those of a sequence of patterns, without repetition.\<close>

definition expand :: "string \<Rightarrow> string \<Rightarrow> string list" where
  "expand all cp = filter (\<lambda>t. match_pattern_list t cp False = 1) (strsep_all all)"

definition expand_all :: "string \<Rightarrow> string list \<Rightarrow> string list" where
  "expand_all all cps = fold (\<lambda>cp xs. add_names xs (expand all cp)) cps []"

definition list_names :: "string option \<Rightarrow> string list" where
  "list_names s = (case s of None \<Rightarrow> [] | Some s \<Rightarrow> if s = [] then [] else strsep_all s)"

lemma add_names_distinct: "distinct (xs @ ps) \<Longrightarrow> add_names xs ps = xs @ ps"
  by (induction ps arbitrary: xs) auto

lemma allowlist_names:
  assumes "[] \<notin> set (strsep_all all)" "match_filter_allowlist alloc all cp = Some m"
  shows "list_names (Some m) = expand all cp" and "[] \<notin> set (list_names (Some m))"
proof -
  let ?f = "filter (keep_entry cp False) (strsep_all all)"
  have "alloc" using assms(2) by (auto simp: match_filter_allowlist_def filter_list_def split: if_splits)
  then have m: "m = join (dropWhile (\<lambda>t. t = []) ?f)"
    using assms(2) filter_list_join [of all cp False] by (simp add: match_filter_allowlist_def)
  have "dropWhile (\<lambda>t. t = []) ?f = ?f" using assms(1) by (cases ?f) (auto simp: dropWhile_eq_self_iff dest: filter_eq_ConsD)
  moreover have "?f = expand all cp" by (simp add: expand_def)
  ultimately have m: "m = join (expand all cp)" using m by simp
  have t: "t \<in> set (expand all cp) \<Longrightarrow> CHR '','' \<notin> set t \<and> t \<noteq> []" for t
    using strsep_all_no_comma assms(1) by (auto simp: expand_def)
  show names: "list_names (Some m) = expand all cp"
  proof (cases "expand all cp")
    case (Cons a as)
    then have "strsep_all m = expand all cp" using strsep_all_join [of "expand all cp"] t m by auto
    moreover from this Cons t have "m \<noteq> []" by auto
    ultimately show ?thesis by (simp add: list_names_def)
  qed (simp add: m list_names_def)
  then show "[] \<notin> set (list_names (Some m))" using t by auto
qed

lemma names_cat_names:
  assumes "[] \<notin> set (list_names ret)" "[] \<notin> set (list_names (Some m))" "distinct (list_names (Some m))"
    and "kex_names_cat alloc ret (Some m) = Some s"
  shows "list_names (Some s) = add_names (list_names ret) (list_names (Some m))"
proof (cases "list_names ret")
  case Nil
  then have "ret = None \<or> ret = Some []" by (auto simp: list_names_def split: option.splits if_splits)
  then have "s = m" using assms(4) by (auto simp: kex_names_cat_def split: if_splits)
  then show ?thesis using Nil add_names_distinct [of "[]"] assms(3) by simp
next
  case (Cons a as)
  then obtain x where x: "ret = Some x" "x \<noteq> []" by (auto simp: list_names_def split: option.splits if_splits)
  have "strsep_all s = add_names (strsep_all x) (proposals m)" "s \<noteq> []"
    using kex_names_cat_entries [of x alloc m s] x assms by (simp_all add: list_names_def)
  moreover have "proposals m = list_names (Some m)"
    using assms(2) by (cases "m = []") (auto simp: list_names_def proposals_full, simp add: proposals_def)
  ultimately show ?thesis using x by (simp add: list_names_def)
qed

lemma assemble_loop_names:
  assumes all: "[] \<notin> set (strsep_all all)" "distinct (strsep_all all)"
    and "[] \<notin> set (list_names ret)" "assemble_loop alloc all cps ret = Inr s"
  shows "list_names s = fold (\<lambda>cp xs. add_names xs (expand all cp)) cps (list_names ret)"
  using assms(3,4)
proof (induction cps arbitrary: ret)
  case (Cons cp cps)
  from Cons.prems(2) obtain m t where m: "match_filter_allowlist alloc all cp = Some m"
    and t: "kex_names_cat alloc ret (Some m) = Some t" and rest: "assemble_loop alloc all cps (Some t) = Inr s"
    by (auto split: if_splits option.splits)
  note mn = allowlist_names [OF all(1) m]
  have "distinct (list_names (Some m))" unfolding mn(1) by (simp add: expand_def all(2))
  from names_cat_names [OF Cons.prems(1) mn(2) this t]
  have tn: "list_names (Some t) = add_names (list_names ret) (expand all cp)" unfolding mn(1) .
  moreover have "[] \<notin> set (expand all cp)" using mn by simp
  ultimately have "[] \<notin> set (list_names (Some t))" using Cons.prems(1) by simp
  from Cons.IH [OF this rest] show ?case by (simp add: tn)
qed simp

lemma assemble_patterns_names:
  assumes "[] \<notin> set (strsep_all all)" "distinct (strsep_all all)" "assemble_patterns alloc all list = (None, Some r)"
  shows "strsep_all r = expand_all all (strsep_all list)"
proof -
  from assms(3) obtain s where "assemble_loop alloc all (strsep_all list) None = Inr (Some r)" "r \<noteq> []"
    by (auto simp: assemble_patterns_def split: if_splits sum.splits option.splits)
  with assemble_loop_names [OF assms(1,2), of None alloc "strsep_all list" "Some r"]
  show ?thesis by (simp add: expand_all_def list_names_def)
qed

lemma set_expand_all: "set (expand_all all cps) = {t \<in> set (strsep_all all). \<exists>cp \<in> set cps. match_pattern_list t cp False = 1}"
proof -
  have "set (fold (\<lambda>cp xs. add_names xs (expand all cp)) cps xs) = set xs \<union> (\<Union>cp \<in> set cps. set (expand all cp))" for xs
    by (induction cps arbitrary: xs) auto
  then show ?thesis by (auto simp: expand_all_def expand_def)
qed

lemma distinct_expand_all: "distinct (expand_all all cps)"
proof -
  have "distinct xs \<Longrightarrow> distinct (fold (\<lambda>cp xs. add_names xs (expand all cp)) cps xs)" for xs
    by (induction cps arbitrary: xs) (auto intro: distinct_add_names)
  then show ?thesis by (simp add: expand_all_def)
qed

text \<open>The patterns that a list of the configuration stands for: its own, or with \<^verbatim>\<open>+\<close> and \<^verbatim>\<open>^\<close> those of the default before or behind.\<close>

fun given_patterns :: "string \<Rightarrow> string \<Rightarrow> string list" where
  "given_patterns def [] = strsep_all def"
| "given_patterns def (c # rest) =
     (if c = CHR ''+'' then add_names (strsep_all def) (proposals rest)
      else if c = CHR ''^'' then if rest = [] then strsep_all def else add_names (strsep_all rest) (strsep_all def)
      else strsep_all (c # rest))"

text \<open>
  (C19) A list of algorithms of the configuration that is not a list of removals is replaced by exactly the supported
  algorithms that its patterns match, in the order of the patterns and without repetition; so nothing that is not compiled in is ever
  proposed, and no match is lost.
\<close>

theorem kex_assemble_names_supported:
  assumes "[] \<notin> set (strsep_all all)" and "distinct (strsep_all all)" and "[] \<notin> set (strsep_all def)"
    and "list \<noteq> []" and "hd list \<noteq> CHR ''-''" and "hd list = CHR ''^'' \<Longrightarrow> tl list = [] \<or> [] \<notin> set (strsep_all (tl list))"
    and "kex_assemble_names alloc (Some list) (Some def) (Some all) = (None, Some r)"
  shows "strsep_all r = expand_all all (given_patterns def list) \<and> distinct (strsep_all r) \<and>
    set (strsep_all r) = {t \<in> set (strsep_all all). \<exists>p \<in> set (given_patterns def list). match_pattern_list t p False = 1}"
proof -
  obtain c rest where l: "list = c # rest" using assms(4) by (cases list) auto
  have def: "def \<noteq> []" using assms(3) by (cases def) auto
  have "strsep_all r = expand_all all (given_patterns def list)"
  proof -
    consider (plus) "c = CHR ''+''" | (head) "c = CHR ''^''" | (other) "c \<noteq> CHR ''+''" "c \<noteq> CHR ''^''" "c \<noteq> CHR ''-''"
      using assms(5) l by auto
    then show ?thesis
    proof cases
      case plus
      with assms(7) l obtain s where s: "kex_names_cat alloc (Some def) (Some rest) = Some s" "assemble_patterns alloc all s = (None, Some r)"
        by (auto simp: kex_assemble_names_def split: option.splits)
      from assemble_patterns_names [OF assms(1,2) s(2)] kex_names_cat_entries(1) [OF def assms(3) s(1)] plus l show ?thesis by simp
    next
      case head
      with assms(7) l obtain s where s: "kex_names_cat alloc (Some rest) (Some def) = Some s" "assemble_patterns alloc all s = (None, Some r)"
        by (auto simp: kex_assemble_names_def split: option.splits)
      show ?thesis
      proof (cases "rest = []")
        case True
        then have "s = def" using s(1) by (auto simp: kex_names_cat_def split: if_splits)
        with assemble_patterns_names [OF assms(1,2) s(2)] head l True show ?thesis by simp
      next
        case False
        then have "[] \<notin> set (strsep_all rest)" using assms(6) head l by simp
        from assemble_patterns_names [OF assms(1,2) s(2)] kex_names_cat_entries(1) [OF False this s(1)] head l False assms(3)
        show ?thesis by (simp add: proposals_full)
      qed
    next
      case other
      with assms(7) l have "assemble_patterns alloc all list = (None, Some r)" by (simp add: kex_assemble_names_def)
      from assemble_patterns_names [OF assms(1,2) this] other l show ?thesis by simp
    qed
  qed
  then show ?thesis by (simp add: distinct_expand_all set_expand_all)
qed

theorem kex_assemble_names_supported_witness:
  "\<exists>r. kex_assemble_names True (Some ''b*'') (Some ''a'') (Some ''a,bc,bd,e'') = (None, Some r) \<and> strsep_all r = [''bc'', ''bd'']"
proof -
  have r: "kex_assemble_names True (Some ''b*'') (Some ''a'') (Some ''a,bc,bd,e'') = (None, Some ''bc,bd'')" by code_simp
  have "strsep_all ''bc,bd'' = expand_all ''a,bc,bd,e'' (given_patterns ''a'' ''b*'')"
    using kex_assemble_names_supported [OF _ _ _ _ _ _ r] by simp
  then show ?thesis using r by simp
qed

end
