(* ===== verification/Packet.thy ===== *)
theory Packet
  imports Wire Cipher Mac Kex_Names
begin

unbundle bit_operations_syntax

text \<open>
  The state of a connection in the binary packet protocol, from \<^verbatim>\<open>packet.c\<close> and \<^verbatim>\<open>kex.h\<close>, with
  compression, taking new keys into use, and the limits of rekeying.

  What the code takes from outside is the record \<open>penv\<close>: libcrypto, the primitives of the MACs,
  zlib, allocation, random bytes, and the clock.  Random bytes are indexed by the number of packets sent so far.
  Buffers are the bytes they hold, and appending fails past \<^verbatim>\<open>SSHBUF_SIZE_MAX\<close>.  An error of the packet layer ends the
  connection, so where a call fails the state is returned only if the source goes on with it.  The field
  \<open>s_sent\<close> records the packets finalised so far with their sequence numbers, for the theorems; the
  code has no such field.
\<close>

section \<open>State\<close>

text \<open>
  A call ends with an error of \<^verbatim>\<open>ssherr.h\<close>, ends the process in \<^verbatim>\<open>ssh_packet_disconnect\<close>, follows a null
  pointer, or waits for a peer that does not read.
\<close>

datatype pstop = Perr ssh_err | Pfatal | Pcrash | Pwait

definition lift_err :: "ssh_err + 'a \<Rightarrow> pstop + 'a" where
  "lift_err r = map_sum Perr id r"

lemma lift_err_simps [simp]: "lift_err (Inl e) = Inl (Perr e)" "lift_err (Inr a) = Inr a"
  by (simp_all add: lift_err_def)

definition buf_append :: "byte list \<Rightarrow> byte list \<Rightarrow> pstop + byte list" where
  "buf_append b v = lift_err (buf_appends b [v])"

definition PACKET_MAX_SIZE :: nat where "PACKET_MAX_SIZE = 256 * 1024"
definition MAX_PACKETS :: "32 word" where "MAX_PACKETS = push_bit 31 1"

definition SSH_MSG_NONE :: byte where "SSH_MSG_NONE = 0"
definition SSH2_MSG_MIN :: byte where "SSH2_MSG_MIN = 1"
definition SSH2_MSG_TRANSPORT_MIN :: byte where "SSH2_MSG_TRANSPORT_MIN = 1"
definition SSH2_MSG_TRANSPORT_MAX :: byte where "SSH2_MSG_TRANSPORT_MAX = 49"
definition SSH2_MSG_CONNECTION_MIN :: byte where "SSH2_MSG_CONNECTION_MIN = 80"
definition SSH2_MSG_CONNECTION_MAX :: byte where "SSH2_MSG_CONNECTION_MAX = 127"
definition SSH2_MSG_DISCONNECT :: byte where "SSH2_MSG_DISCONNECT = 1"
definition SSH2_MSG_IGNORE :: byte where "SSH2_MSG_IGNORE = 2"
definition SSH2_MSG_UNIMPLEMENTED :: byte where "SSH2_MSG_UNIMPLEMENTED = 3"
definition SSH2_MSG_DEBUG :: byte where "SSH2_MSG_DEBUG = 4"
definition SSH2_MSG_SERVICE_REQUEST :: byte where "SSH2_MSG_SERVICE_REQUEST = 5"
definition SSH2_MSG_SERVICE_ACCEPT :: byte where "SSH2_MSG_SERVICE_ACCEPT = 6"
definition SSH2_MSG_EXT_INFO :: byte where "SSH2_MSG_EXT_INFO = 7"
definition SSH2_MSG_KEXINIT :: byte where "SSH2_MSG_KEXINIT = 20"
definition SSH2_MSG_NEWKEYS :: byte where "SSH2_MSG_NEWKEYS = 21"
definition SSH2_MSG_USERAUTH_SUCCESS :: byte where "SSH2_MSG_USERAUTH_SUCCESS = 52"
definition SSH2_MSG_PING :: byte where "SSH2_MSG_PING = 192"
definition SSH2_MSG_PONG :: byte where "SSH2_MSG_PONG = 193"
definition SSH2_DISCONNECT_PROTOCOL_ERROR :: "32 word" where "SSH2_DISCONNECT_PROTOCOL_ERROR = 2"
definition KEX_INIT_SENT :: "32 word" where "KEX_INIT_SENT = 1"
definition KEX_INITIAL :: "32 word" where "KEX_INITIAL = 2"
definition KEX_INIT_RECVD :: "32 word" where "KEX_INIT_RECVD = 0x100"
definition COMP_NONE :: "32 word" where "COMP_NONE = 0"
definition COMP_DELAYED :: "32 word" where "COMP_DELAYED = 2"
definition KEX_COOKIE_LEN :: nat where "KEX_COOKIE_LEN = 16"
definition DISPATCH_MAX :: nat where "DISPATCH_MAX = 255"

lemmas packet_consts =
  PACKET_MAX_SIZE_def MAX_PACKETS_def SSH_MSG_NONE_def SSH2_MSG_MIN_def SSH2_MSG_TRANSPORT_MIN_def SSH2_MSG_TRANSPORT_MAX_def
  SSH2_MSG_CONNECTION_MIN_def SSH2_MSG_CONNECTION_MAX_def SSH2_MSG_DISCONNECT_def SSH2_MSG_IGNORE_def
  SSH2_MSG_UNIMPLEMENTED_def SSH2_MSG_DEBUG_def SSH2_MSG_SERVICE_REQUEST_def SSH2_MSG_SERVICE_ACCEPT_def
  SSH2_MSG_EXT_INFO_def SSH2_MSG_KEXINIT_def SSH2_MSG_NEWKEYS_def SSH2_MSG_USERAUTH_SUCCESS_def SSH2_MSG_PING_def
  SSH2_MSG_PONG_def SSH2_DISCONNECT_PROTOCOL_ERROR_def KEX_INIT_SENT_def KEX_INITIAL_def KEX_INIT_RECVD_def
  COMP_NONE_def COMP_DELAYED_def KEX_COOKIE_LEN_def

record packet_state =
  ps_seqnr :: "32 word"
  ps_packets :: "32 word"
  ps_blocks :: "64 word"
  ps_bytes :: "64 word"

record sshenc =
  en_name :: string
  en_cipher :: sshcipher
  en_enabled :: "32 word"
  en_key_len :: nat
  en_iv_len :: nat
  en_block_size :: nat
  en_key :: "byte list option"
  en_iv :: "byte list option"

record sshcomp =
  co_type :: "32 word"
  co_enabled :: bool
  co_name :: string

record newkeys =
  nk_enc :: sshenc
  nk_mac :: sshmac
  nk_comp :: sshcomp

text \<open>
  \<^verbatim>\<open>struct kex\<close> without the callbacks of the host keys and the state of the single methods; the flag fields keep the width with which
  they are serialised.
\<close>

record kex =
  kx_newkeys_in :: "newkeys option"
  kx_newkeys_out :: "newkeys option"
  kx_we_need :: nat
  kx_dh_need :: nat
  kx_server :: bool
  kx_name :: "string option"
  kx_hostkey_alg :: "string option"
  kx_hostkey_type :: key_type
  kx_hostkey_nid :: ec_nid
  kx_kex_type :: "kex_exchange option"
  kx_server_sig_algs :: "string option"
  kx_ext_info_c :: bool
  kx_ext_info_s :: bool
  kx_kex_strict :: "32 word"
  kx_ext_info_received :: int
  kx_my :: "byte list"
  kx_peer :: "byte list"
  kx_client_version :: "byte list"
  kx_server_version :: "byte list"
  kx_session_id :: "byte list"
  kx_done :: bool
  kx_flags :: "32 word"
  kx_hash_alg :: int
  kx_ec_nid :: ec_nid
  kx_failed_choice :: "string option"

text \<open>
  The functions of the dispatch table: those of the key exchange by name, and any other, such as those of the methods,
  by a number.
\<close>

datatype dispatch_fn = Fn_null | Fn_kex_protocol_error | Fn_kex_input_kexinit | Fn_kex_input_newkeys | Fn_kex_input_ext_info
  | Fn_dispatch_protocol_error | Fn_dispatch_protocol_ignore | Fn_other nat

text \<open>A compression stream is present when it has been started.\<close>

record ('e, 'z) ssh =
  s_receive_context :: "'e sshcipher_ctx"
  s_send_context :: "'e sshcipher_ctx"
  s_input :: "byte list"
  s_output :: "byte list"
  s_outgoing_packet :: "byte list"
  s_incoming_packet :: "byte list"
  s_compression_buffer :: "byte list option"
  s_compression_in :: "'z option"
  s_compression_out :: "'z option"
  s_max_packet_size :: nat
  s_set_maxsize_called :: bool
  s_interactive_mode :: int
  s_qos_interactive :: int
  s_qos_other :: int
  s_server_side :: bool
  s_after_authentication :: bool
  s_keep_alive_timeouts :: nat
  s_newkeys_in :: "newkeys option"
  s_newkeys_out :: "newkeys option"
  s_p_read :: packet_state
  s_p_send :: packet_state
  s_hard_max_blocks_in :: "64 word"
  s_hard_max_blocks_out :: "64 word"
  s_max_blocks_in :: "64 word"
  s_max_blocks_out :: "64 word"
  s_rekey_limit :: "64 word"
  s_rekey_interval :: "32 word"
  s_rekey_time :: int
  s_extra_pad :: byte
  s_packet_discard :: nat
  s_packet_discard_mac :: "sshmac option"
  s_packet_discard_mac_already :: nat
  s_packlen :: "32 word"
  s_rekeying :: bool
  s_mux :: bool
  s_outgoing :: "(byte \<times> byte list) list"
  s_kex :: "kex option"
  s_dispatch :: "dispatch_fn list"
  s_dispatch_skip_packets :: int
  s_sent :: "(byte \<times> byte list \<times> 32 word) list"

text \<open>
  zlib: the chunks of output of the calls of \<^verbatim>\<open>deflate\<close> or \<^verbatim>\<open>inflate\<close> that return \<^verbatim>\<open>Z_OK\<close>, and how the
  sequence of calls ends.  \<^verbatim>\<open>Z_OK\<close> at the end of \<^verbatim>\<open>deflate\<close> stands for a last call that leaves room in
  the output buffer.
\<close>

datatype zstatus = Z_OK | Z_MEM_ERROR | Z_BUF_ERROR | Z_DATA_ERROR | Z_STREAM_ERROR

text \<open>The results of \<^verbatim>\<open>write\<close> on the socket; of those after the first, \<open>None\<close> is a timeout of \<^verbatim>\<open>ppoll\<close> before it.\<close>

datatype wr_result = Wr_again | Wr_error | Wr_bytes nat

record ('e, 'z) penv =
  pv_evp :: "'e evp_ops"
  pv_mac :: mac_ops
  pv_alloc :: bool
  pv_rnd :: "nat \<Rightarrow> nat \<Rightarrow> byte"
  pv_cookie :: "nat \<Rightarrow> nat \<Rightarrow> byte"
  pv_now :: int
  pv_deflateInit :: "zstatus + 'z"
  pv_inflateInit :: "zstatus + 'z"
  pv_deflate :: "'z \<Rightarrow> byte list \<Rightarrow> byte list list \<times> zstatus \<times> 'z"
  pv_inflate :: "'z \<Rightarrow> byte list \<Rightarrow> byte list list \<times> zstatus \<times> 'z"
  pv_writes :: "wr_result \<times> wr_result option list"

type_synonym ('e, 'z) presult = "pstop + ('e, 'z) ssh"

definition the_kex :: "('e, 'z) ssh \<Rightarrow> pstop + kex" where
  "the_kex s = (case s_kex s of None \<Rightarrow> Inl Pcrash | Some k \<Rightarrow> Inr k)"

definition none_cipher :: sshcipher where
  "none_cipher = the (cipher_by_name ''none'')"

text \<open>
  A new connection: \<^verbatim>\<open>kex_new\<close>, \<^verbatim>\<open>ssh_alloc_session_state\<close> and \<^verbatim>\<open>ssh_packet_set_connection\<close> with every
  allocation succeeding.
\<close>

definition kex_new :: kex where
  "kex_new = \<lparr>kx_newkeys_in = None, kx_newkeys_out = None, kx_we_need = 0, kx_dh_need = 0, kx_server = False, kx_name = None,
     kx_hostkey_alg = None, kx_hostkey_type = KEY_RSA, kx_hostkey_nid = NID_undef, kx_kex_type = None, kx_server_sig_algs = None,
     kx_ext_info_c = False, kx_ext_info_s = False, kx_kex_strict = 0, kx_ext_info_received = 0, kx_my = [], kx_peer = [],
     kx_client_version = [], kx_server_version = [], kx_session_id = [], kx_done = False, kx_flags = 0, kx_hash_alg = 0,
     kx_ec_nid = NID_undef, kx_failed_choice = None\<rparr>"

definition ssh_alloc_session_state :: "'e sshcipher_ctx \<Rightarrow> 'e sshcipher_ctx \<Rightarrow> ('e, 'z) ssh" where
  "ssh_alloc_session_state rc sc = \<lparr>s_receive_context = rc, s_send_context = sc, s_input = [], s_output = [],
     s_outgoing_packet = [], s_incoming_packet = [], s_compression_buffer = None, s_compression_in = None,
     s_compression_out = None, s_max_packet_size = 32768, s_set_maxsize_called = False, s_interactive_mode = 1,
     s_qos_interactive = -1, s_qos_other = -1, s_server_side = False, s_after_authentication = False,
     s_keep_alive_timeouts = 0, s_newkeys_in = None, s_newkeys_out = None,
     s_p_read = \<lparr>ps_seqnr = 0, ps_packets = 0, ps_blocks = 0, ps_bytes = 0\<rparr>,
     s_p_send = \<lparr>ps_seqnr = 0, ps_packets = 0, ps_blocks = 0, ps_bytes = 0\<rparr>,
     s_hard_max_blocks_in = 0, s_hard_max_blocks_out = 0, s_max_blocks_in = 0, s_max_blocks_out = 0, s_rekey_limit = 0,
     s_rekey_interval = 0, s_rekey_time = 0, s_extra_pad = 0, s_packet_discard = 0, s_packet_discard_mac = None,
     s_packet_discard_mac_already = 0, s_packlen = 0, s_rekeying = True, s_mux = False, s_outgoing = [],
     s_kex = Some kex_new, s_dispatch = replicate DISPATCH_MAX Fn_null, s_dispatch_skip_packets = 0, s_sent = []\<rparr>"

definition ssh_packet_set_connection :: "('e, 'z) penv \<Rightarrow> ssh_err + ('e, 'z) ssh" where
  "ssh_packet_set_connection V =
     rbind (cipher_init (pv_evp V) (pv_alloc V) none_cipher [] None True) (\<lambda>sc.
     rbind (cipher_init (pv_evp V) (pv_alloc V) none_cipher [] None False) (\<lambda>rc.
     Inr (ssh_alloc_session_state rc sc)))"

section \<open>Compression\<close>

text \<open>Starting compression returns the error, if any, with the state, because a caller goes on after an error.\<close>

definition ssh_packet_init_compression :: "('e, 'z) penv \<Rightarrow> ('e, 'z) ssh \<Rightarrow> ssh_err option \<times> ('e, 'z) ssh" where
  "ssh_packet_init_compression V s =
     (case s_compression_buffer s of
        Some b \<Rightarrow> (None, s)
      | None \<Rightarrow> if \<not> pv_alloc V then (Some SSH_ERR_ALLOC_FAIL, s) else (None, s\<lparr>s_compression_buffer := Some []\<rparr>))"

definition start_compression_out :: "('e, 'z) penv \<Rightarrow> int \<Rightarrow> ('e, 'z) ssh \<Rightarrow> ssh_err option \<times> ('e, 'z) ssh" where
  "start_compression_out V level s =
     (if level < 1 \<or> level > 9 then (Some SSH_ERR_INVALID_ARGUMENT, s)
      else case pv_deflateInit V of
        Inr z \<Rightarrow> (None, s\<lparr>s_compression_out := Some z\<rparr>)
      | Inl Z_MEM_ERROR \<Rightarrow> (Some SSH_ERR_ALLOC_FAIL, s)
      | Inl st \<Rightarrow> (Some SSH_ERR_INTERNAL_ERROR, s))"

definition start_compression_in :: "('e, 'z) penv \<Rightarrow> ('e, 'z) ssh \<Rightarrow> ssh_err option \<times> ('e, 'z) ssh" where
  "start_compression_in V s =
     (case pv_inflateInit V of
        Inr z \<Rightarrow> (None, s\<lparr>s_compression_in := Some z\<rparr>)
      | Inl Z_MEM_ERROR \<Rightarrow> (Some SSH_ERR_ALLOC_FAIL, s)
      | Inl st \<Rightarrow> (Some SSH_ERR_INTERNAL_ERROR, s))"

definition compress_buffer :: "('e, 'z) penv \<Rightarrow> byte list \<Rightarrow> ('e, 'z) ssh \<Rightarrow> pstop + byte list \<times> ('e, 'z) ssh" where
  "compress_buffer V inp s =
     (case s_compression_out s of
        None \<Rightarrow> Inl (Perr SSH_ERR_INTERNAL_ERROR)
      | Some z \<Rightarrow>
          if length inp = 0 then Inr ([], s)
          else let (chunks, st, z') = pv_deflate V z inp in
            rbind (lift_err (buf_appends [] chunks)) (\<lambda>out.
              case st of
                Z_OK \<Rightarrow> Inr (out, s\<lparr>s_compression_out := Some z'\<rparr>)
              | Z_MEM_ERROR \<Rightarrow> Inl (Perr SSH_ERR_ALLOC_FAIL)
              | _ \<Rightarrow> Inl (Perr SSH_ERR_INVALID_FORMAT)))"

definition uncompress_buffer :: "('e, 'z) penv \<Rightarrow> byte list \<Rightarrow> ('e, 'z) ssh \<Rightarrow> pstop + byte list \<times> ('e, 'z) ssh" where
  "uncompress_buffer V inp s =
     (case s_compression_in s of
        None \<Rightarrow> Inl (Perr SSH_ERR_INTERNAL_ERROR)
      | Some z \<Rightarrow>
          let (chunks, st, z') = pv_inflate V z inp in
            rbind (lift_err (buf_appends [] chunks)) (\<lambda>out.
              case st of
                Z_BUF_ERROR \<Rightarrow> Inr (out, s\<lparr>s_compression_in := Some z'\<rparr>)
              | Z_DATA_ERROR \<Rightarrow> Inl (Perr SSH_ERR_INVALID_FORMAT)
              | Z_MEM_ERROR \<Rightarrow> Inl (Perr SSH_ERR_ALLOC_FAIL)
              | _ \<Rightarrow> Inl (Perr SSH_ERR_INTERNAL_ERROR)))"

section \<open>New keys\<close>

datatype mode = MODE_IN | MODE_OUT

definition get_newkeys :: "mode \<Rightarrow> ('e, 'z) ssh \<Rightarrow> newkeys option" where
  "get_newkeys m s = (case m of MODE_IN \<Rightarrow> s_newkeys_in s | MODE_OUT \<Rightarrow> s_newkeys_out s)"

definition set_newkeys :: "mode \<Rightarrow> newkeys option \<Rightarrow> ('e, 'z) ssh \<Rightarrow> ('e, 'z) ssh" where
  "set_newkeys m nk s = (case m of MODE_IN \<Rightarrow> s\<lparr>s_newkeys_in := nk\<rparr> | MODE_OUT \<Rightarrow> s\<lparr>s_newkeys_out := nk\<rparr>)"

definition get_kex_newkeys :: "mode \<Rightarrow> kex \<Rightarrow> newkeys option" where
  "get_kex_newkeys m k = (case m of MODE_IN \<Rightarrow> kx_newkeys_in k | MODE_OUT \<Rightarrow> kx_newkeys_out k)"

definition clear_kex_newkeys :: "mode \<Rightarrow> kex \<Rightarrow> kex" where
  "clear_kex_newkeys m k = (case m of MODE_IN \<Rightarrow> k\<lparr>kx_newkeys_in := None\<rparr> | MODE_OUT \<Rightarrow> k\<lparr>kx_newkeys_out := None\<rparr>)"

definition ssh_clear_newkeys :: "mode \<Rightarrow> ('e, 'z) ssh \<Rightarrow> ('e, 'z) ssh" where
  "ssh_clear_newkeys m s = s\<lparr>s_kex := map_option (clear_kex_newkeys m) (s_kex s)\<rparr>"

definition set_context :: "mode \<Rightarrow> 'e sshcipher_ctx \<Rightarrow> ('e, 'z) ssh \<Rightarrow> ('e, 'z) ssh" where
  "set_context m cc s = (case m of MODE_IN \<Rightarrow> s\<lparr>s_receive_context := cc\<rparr> | MODE_OUT \<Rightarrow> s\<lparr>s_send_context := cc\<rparr>)"

definition reset_counters :: "mode \<Rightarrow> ('e, 'z) ssh \<Rightarrow> ('e, 'z) ssh" where
  "reset_counters m s =
     (case m of
        MODE_IN \<Rightarrow> s\<lparr>s_p_read := (s_p_read s)\<lparr>ps_packets := 0, ps_blocks := 0\<rparr>\<rparr>
      | MODE_OUT \<Rightarrow> s\<lparr>s_p_send := (s_p_send s)\<lparr>ps_packets := 0, ps_blocks := 0\<rparr>\<rparr>)"

text \<open>The limits on blocks, from the block size of the cipher and \<^verbatim>\<open>RekeyLimit\<close>.\<close>

definition hard_block_limit :: "nat \<Rightarrow> 64 word" where
  "hard_block_limit block_size =
     (if block_size \<ge> 16 then push_bit (block_size * 2) 1 else push_bit 30 1 div of_nat block_size)"

definition set_block_limits :: "mode \<Rightarrow> nat \<Rightarrow> ('e, 'z) ssh \<Rightarrow> ('e, 'z) ssh" where
  "set_block_limits m block_size s =
     (let hard = hard_block_limit block_size;
          soft = (if s_rekey_limit s \<noteq> 0 then min hard (s_rekey_limit s div of_nat block_size) else hard) in
      case m of
        MODE_IN \<Rightarrow> s\<lparr>s_hard_max_blocks_in := hard, s_max_blocks_in := soft\<rparr>
      | MODE_OUT \<Rightarrow> s\<lparr>s_hard_max_blocks_out := hard, s_max_blocks_out := soft\<rparr>)"

text \<open>The part that \<^verbatim>\<open>ssh_set_newkeys\<close> and \<^verbatim>\<open>ssh_packet_enable_delayed_compress\<close> share.\<close>

definition start_delayed_compression :: "('e, 'z) penv \<Rightarrow> mode \<Rightarrow> ('e, 'z) ssh \<Rightarrow> ssh_err option \<times> ('e, 'z) ssh" where
  "start_delayed_compression V m s =
     (case ssh_packet_init_compression V s of
        (Some e, s) \<Rightarrow> (Some e, s)
      | (None, s) \<Rightarrow>
          (case (case m of MODE_OUT \<Rightarrow> start_compression_out V 6 s | MODE_IN \<Rightarrow> start_compression_in V s) of
             (Some e, s) \<Rightarrow> (Some e, s)
           | (None, s) \<Rightarrow>
               (None, set_newkeys m (map_option (\<lambda>nk. nk\<lparr>nk_comp := (nk_comp nk)\<lparr>co_enabled := True\<rparr>\<rparr>) (get_newkeys m s)) s)))"

definition set_newkeys_compression :: "('e, 'z) penv \<Rightarrow> mode \<Rightarrow> newkeys \<Rightarrow> ('e, 'z) ssh \<Rightarrow> ('e, 'z) presult" where
  "set_newkeys_compression V m nk s =
     (if co_type (nk_comp nk) = COMP_DELAYED \<and> s_after_authentication s \<and> \<not> co_enabled (nk_comp nk)
      then (case start_delayed_compression V m s of (Some e, s) \<Rightarrow> Inl (Perr e) | (None, s) \<Rightarrow> Inr s)
      else Inr s)"

text \<open>The first bytes of a key; without a key its length must be 0.\<close>

definition key_bytes :: "byte list option \<Rightarrow> nat \<Rightarrow> pstop + byte list" where
  "key_bytes key len = (case key of Some k \<Rightarrow> Inr (take len k) | None \<Rightarrow> if len = 0 then Inr [] else Inl Pcrash)"

definition ssh_set_newkeys :: "('e, 'z) penv \<Rightarrow> mode \<Rightarrow> ('e, 'z) ssh \<Rightarrow> ('e, 'z) presult" where
  "ssh_set_newkeys V m s =
     (let s = reset_counters m s in
      rbind (the_kex s) (\<lambda>k.
      case get_kex_newkeys m k of
        None \<Rightarrow> Inl (Perr SSH_ERR_INTERNAL_ERROR)
      | Some nk \<Rightarrow>
          let s = s\<lparr>s_kex := Some (clear_kex_newkeys m k)\<rparr>; enc = nk_enc nk in
          rbind (if cipher_authlen (en_cipher enc) = 0 then lift_err (mac_init (pv_mac V) (nk_mac nk)) else Inr (nk_mac nk)) (\<lambda>mac.
          let nk = nk\<lparr>nk_mac := mac\<lparr>mc_enabled := True\<rparr>\<rparr> in
          rbind (key_bytes (en_key enc) (en_key_len enc)) (\<lambda>key.
          rbind (lift_err (cipher_init (pv_evp V) (pv_alloc V) (en_cipher enc) key (map_option (take (en_iv_len enc)) (en_iv enc)) (m = MODE_OUT))) (\<lambda>cc.
          rbind (set_newkeys_compression V m nk (set_newkeys m (Some nk) (set_context m cc s))) (\<lambda>s.
          Inr (set_block_limits m (en_block_size enc) s)))))))"

definition delayed_compress_mode :: "('e, 'z) penv \<Rightarrow> mode \<Rightarrow> ('e, 'z) ssh \<Rightarrow> ssh_err option \<times> ('e, 'z) ssh" where
  "delayed_compress_mode V m s =
     (case get_newkeys m s of
        None \<Rightarrow> (None, s)
      | Some nk \<Rightarrow>
          if \<not> co_enabled (nk_comp nk) \<and> co_type (nk_comp nk) = COMP_DELAYED
          then start_delayed_compression V m s else (None, s))"

definition ssh_packet_enable_delayed_compress :: "('e, 'z) penv \<Rightarrow> ('e, 'z) ssh \<Rightarrow> ssh_err option \<times> ('e, 'z) ssh" where
  "ssh_packet_enable_delayed_compress V s =
     (case delayed_compress_mode V MODE_IN (s\<lparr>s_after_authentication := True\<rparr>) of
        (Some e, s) \<Rightarrow> (Some e, s)
      | (None, s) \<Rightarrow> delayed_compress_mode V MODE_OUT s)"

section \<open>Limits of rekeying\<close>

definition ssh_packet_is_rekeying :: "('e, 'z) ssh \<Rightarrow> bool" where
  "ssh_packet_is_rekeying s \<longleftrightarrow> s_rekeying s \<or> (case s_kex s of None \<Rightarrow> False | Some k \<Rightarrow> \<not> kx_done k)"

definition ssh_packet_check_rekey_blocklimit :: "nat \<Rightarrow> bool \<Rightarrow> ('e, 'z) ssh \<Rightarrow> bool" where
  "ssh_packet_check_rekey_blocklimit packet_len hard s \<longleftrightarrow>
     (let max_blocks_in = (if hard then s_hard_max_blocks_in s else s_max_blocks_in s);
          max_blocks_out = (if hard then s_hard_max_blocks_out s else s_max_blocks_out s) in
      if ps_packets (s_p_send s) > MAX_PACKETS \<or> ps_packets (s_p_read s) > MAX_PACKETS then True
      else case s_newkeys_out s of
        None \<Rightarrow> False
      | Some nk \<Rightarrow>
          let out_blocks = (of_nat (ROUNDUP packet_len (en_block_size (nk_enc nk))) :: 32 word) in
          (max_blocks_out \<noteq> 0 \<and> ps_blocks (s_p_send s) + ucast out_blocks > max_blocks_out) \<or>
          (max_blocks_in \<noteq> 0 \<and> ps_blocks (s_p_read s) > max_blocks_in))"

definition ssh_packet_need_rekeying :: "('e, 'z) penv \<Rightarrow> nat \<Rightarrow> ('e, 'z) ssh \<Rightarrow> bool" where
  "ssh_packet_need_rekeying V outbound_packet_len s \<longleftrightarrow>
     (if \<not> s_after_authentication s then False
      else if ssh_packet_is_rekeying s then False
      else if ps_packets (s_p_send s) = 0 \<and> ps_packets (s_p_read s) = 0 then False
      else if s_rekey_interval s \<noteq> 0 \<and> s_rekey_time s + uint (s_rekey_interval s) \<le> pv_now V then True
      else ssh_packet_check_rekey_blocklimit outbound_packet_len False s)"

definition ssh_packet_check_rekey_preauth :: "('e, 'z) ssh \<Rightarrow> pstop + unit" where
  "ssh_packet_check_rekey_preauth s =
     (if s_after_authentication s then Inr ()
      else if ssh_packet_check_rekey_blocklimit 0 True s then Inl (Perr SSH_ERR_NEED_REKEY)
      else Inr ())"

text \<open>Setters that change nothing but the fields they name.\<close>

definition ssh_packet_set_maxsize :: "nat \<Rightarrow> ('e, 'z) ssh \<Rightarrow> int \<times> ('e, 'z) ssh" where
  "ssh_packet_set_maxsize n s =
     (if s_set_maxsize_called s then (-1, s)
      else if n < 4 * 1024 \<or> n > 1024 * 1024 then (-1, s)
      else (int n, s\<lparr>s_set_maxsize_called := True, s_max_packet_size := n\<rparr>))"

definition ssh_packet_set_rekey_limits :: "64 word \<Rightarrow> 32 word \<Rightarrow> ('e, 'z) ssh \<Rightarrow> ('e, 'z) ssh" where
  "ssh_packet_set_rekey_limits bytes seconds s =
     (if bytes = 0 \<and> seconds = 0 then s else s\<lparr>s_rekey_limit := bytes, s_rekey_interval := seconds\<rparr>)"

definition ssh_packet_get_rekey_timeout :: "('e, 'z) penv \<Rightarrow> ('e, 'z) ssh \<Rightarrow> int" where
  "ssh_packet_get_rekey_timeout V s =
     (let seconds = s_rekey_time s + uint (s_rekey_interval s) - pv_now V in if seconds \<le> 0 then 1 else seconds)"

definition ssh_packet_set_server :: "('e, 'z) ssh \<Rightarrow> ('e, 'z) presult" where
  "ssh_packet_set_server s =
     rbind (the_kex s) (\<lambda>k. Inr (s\<lparr>s_server_side := True, s_kex := Some (k\<lparr>kx_server := True\<rparr>)\<rparr>))"

definition ssh_packet_set_authenticated :: "('e, 'z) ssh \<Rightarrow> ('e, 'z) ssh" where
  "ssh_packet_set_authenticated s = s\<lparr>s_after_authentication := True\<rparr>"

end
