(* ===== verification/Packet_Send.thy ===== *)
theory Packet_Send
  imports Packet
begin

unbundle bit_operations_syntax

text \<open>
  Sending packets, from \<^verbatim>\<open>packet.c\<close>: a packet is compressed, padded, authenticated, encrypted and appended to the
  output; while keys are exchanged, packets that do not belong to the exchange wait in a queue.  The
  functions of \<^verbatim>\<open>kex.c\<close> that start a key exchange are here because sending can start one.
\<close>

section \<open>One packet\<close>

definition ssh_packet_type_is_kex :: "byte \<Rightarrow> bool" where
  "ssh_packet_type_is_kex t \<longleftrightarrow>
     t \<ge> SSH2_MSG_TRANSPORT_MIN \<and> t \<le> SSH2_MSG_TRANSPORT_MAX \<and>
     t \<noteq> SSH2_MSG_SERVICE_REQUEST \<and> t \<noteq> SSH2_MSG_SERVICE_ACCEPT \<and> t \<noteq> SSH2_MSG_EXT_INFO"

text \<open>What protects the packets of a direction: the active MAC, block size, tag and clear-text lengths.\<close>

definition active_mac :: "newkeys option \<Rightarrow> sshmac option" where
  "active_mac nko =
     (case nko of
        None \<Rightarrow> None
      | Some nk \<Rightarrow> if cipher_authlen (en_cipher (nk_enc nk)) \<noteq> 0 then None else Some (nk_mac nk))"

definition keys_authlen :: "newkeys option \<Rightarrow> nat" where
  "keys_authlen nko = (case nko of None \<Rightarrow> 0 | Some nk \<Rightarrow> cipher_authlen (en_cipher (nk_enc nk)))"

definition keys_block_size :: "newkeys option \<Rightarrow> nat" where
  "keys_block_size nko = (case nko of None \<Rightarrow> 8 | Some nk \<Rightarrow> en_block_size (nk_enc nk))"

definition keys_aadlen :: "newkeys option \<Rightarrow> nat" where
  "keys_aadlen nko =
     (if (case active_mac nko of None \<Rightarrow> False | Some m \<Rightarrow> mc_enabled m \<and> mc_etm m) \<or> keys_authlen nko \<noteq> 0 then 4 else 0)"

definition keys_compress :: "newkeys option \<Rightarrow> bool" where
  "keys_compress nko = (case nko of None \<Rightarrow> False | Some nk \<Rightarrow> co_enabled (nk_comp nk))"

definition put_mac :: "sshmac \<Rightarrow> newkeys option \<Rightarrow> newkeys option" where
  "put_mac m nko = map_option (\<lambda>nk. nk\<lparr>nk_mac := m\<rparr>) nko"

text \<open>The size of the padding; the variables \<^verbatim>\<open>padlen\<close>, \<^verbatim>\<open>pad\<close> and \<^verbatim>\<open>tmp\<close> are bytes.\<close>

definition packet_padlen :: "nat \<Rightarrow> nat \<Rightarrow> byte \<Rightarrow> pstop + byte" where
  "packet_padlen block_size len extra_pad =
     (let padlen = (of_nat (block_size - len mod block_size) :: byte);
          padlen = (if padlen < 4 then padlen + of_nat block_size else padlen) in
      if extra_pad = 0 then Inr padlen
      else let ep = (of_nat (ROUNDUP (unat extra_pad) block_size) :: byte) in
        if ep < extra_pad then Inl (Perr SSH_ERR_INVALID_ARGUMENT)
        else let tmp = (of_nat ((len + unat padlen) mod unat ep) :: byte) in
          if tmp > ep then Inl (Perr SSH_ERR_INVALID_ARGUMENT)
          else let padlen' = padlen + (ep - tmp) in
            if padlen' < padlen then Inl (Perr SSH_ERR_INVALID_ARGUMENT) else Inr padlen')"

text \<open>The parts of \<^verbatim>\<open>ssh_packet_send2_wrapped\<close>: compression of the payload, padding, and protection.\<close>

definition send_compress :: "('e, 'z) penv \<Rightarrow> ('e, 'z) ssh \<Rightarrow> ('e, 'z) presult" where
  "send_compress V s =
     (if \<not> keys_compress (s_newkeys_out s) then Inr s
      else rbind (compress_buffer V (drop 5 (s_outgoing_packet s)) s) (\<lambda>(out, s).
           rbind (buf_append [0, 0, 0, 0, 0] out) (\<lambda>p.
           Inr (s\<lparr>s_compression_buffer := Some out, s_outgoing_packet := p\<rparr>))))"

definition send_pad :: "('e, 'z) penv \<Rightarrow> ('e, 'z) ssh \<Rightarrow> ('e, 'z) presult" where
  "send_pad V s =
     (let nko = s_newkeys_out s; len = length (s_outgoing_packet s) - keys_aadlen nko in
      rbind (packet_padlen (keys_block_size nko) len (s_extra_pad s)) (\<lambda>padlen.
      let padding = (if nko \<noteq> None \<and> \<not> cipher_ctx_is_plaintext (s_send_context s)
                     then map (pv_rnd V (length (s_sent s))) [0..<unat padlen] else replicate (unat padlen) 0) in
      rbind (buf_append (s_outgoing_packet s) padding) (\<lambda>p.
      Inr (s\<lparr>s_extra_pad := 0,
             s_outgoing_packet := POKE_U32 (of_nat (length p - 4)) @ [padlen] @ drop 5 p\<rparr>))))"

definition send_protect :: "('e, 'z) penv \<Rightarrow> ('e, 'z) ssh \<Rightarrow> ('e, 'z) presult" where
  "send_protect V s =
     (let nko = s_newkeys_out s; authlen = keys_authlen nko; aadlen = keys_aadlen nko; p = s_outgoing_packet s;
          len = length p; seqnr = ps_seqnr (s_p_send s) in
      rbind (case active_mac nko of
               Some m \<Rightarrow> if mc_enabled m \<and> \<not> mc_etm m
                         then map_sum Perr (\<lambda>(t, m). (t, Some m)) (mac_compute (pv_mac V) m seqnr p SSH_DIGEST_MAX_LENGTH)
                         else Inr ([], Some m)
             | None \<Rightarrow> Inr ([], None)) (\<lambda>(macbuf, mac).
      if length (s_output s) + (len + authlen) > SSHBUF_SIZE_MAX then Inl (Perr SSH_ERR_NO_BUFFER_SPACE)
      else rbind (lift_err (cipher_crypt (pv_evp V) (s_send_context s) seqnr p (len - aadlen) aadlen authlen)) (\<lambda>(ct, cc).
      rbind (case mac of
               Some m \<Rightarrow> if mc_enabled m \<and> mc_etm m
                         then map_sum Perr (\<lambda>(t, m). (t, Some m)) (mac_compute (pv_mac V) m seqnr (take len ct) SSH_DIGEST_MAX_LENGTH)
                         else Inr (macbuf, Some m)
             | None \<Rightarrow> Inr ([], None)) (\<lambda>(macbuf, mac).
      rbind (case mac of
               Some m \<Rightarrow> if mc_enabled m then buf_append (s_output s @ ct) (take (mc_mac_len m) macbuf) else Inr (s_output s @ ct)
             | None \<Rightarrow> Inr (s_output s @ ct)) (\<lambda>out.
      Inr (s\<lparr>s_send_context := cc, s_output := out,
             s_newkeys_out := (case mac of Some m \<Rightarrow> put_mac m nko | None \<Rightarrow> nko)\<rparr>))))))"

text \<open>Counting a packet; \<^verbatim>\<open>ssh_packet_disconnect\<close> does not return.\<close>

definition count_packet :: "kex option \<Rightarrow> nat \<Rightarrow> nat \<Rightarrow> packet_state \<Rightarrow> pstop + packet_state" where
  "count_packet ko len block_size p =
     (let p = p\<lparr>ps_seqnr := ps_seqnr p + 1\<rparr> in
      rbind (if ps_seqnr p \<noteq> 0 then Inr ()
             else case ko of None \<Rightarrow> Inl Pcrash | Some k \<Rightarrow> if kx_flags k AND KEX_INITIAL \<noteq> 0 then Inl Pfatal else Inr ()) (\<lambda>_.
      let p = p\<lparr>ps_packets := ps_packets p + 1\<rparr> in
        if ps_packets p = 0 then Inl (Perr SSH_ERR_NEED_REKEY)
        else Inr (p\<lparr>ps_blocks := ps_blocks p + of_nat (len div block_size), ps_bytes := ps_bytes p + of_nat len\<rparr>)))"

text \<open>What follows a finalised packet: the sequence number is reset in strict mode, and new keys or compression start.\<close>

definition send_effects :: "('e, 'z) penv \<Rightarrow> byte \<Rightarrow> ('e, 'z) ssh \<Rightarrow> ('e, 'z) presult" where
  "send_effects V typ s =
     (if typ = SSH2_MSG_NEWKEYS
      then rbind (the_kex s) (\<lambda>k.
           ssh_set_newkeys V MODE_OUT (if kx_kex_strict k \<noteq> 0 then s\<lparr>s_p_send := (s_p_send s)\<lparr>ps_seqnr := 0\<rparr>\<rparr> else s))
      else if typ = SSH2_MSG_USERAUTH_SUCCESS \<and> s_server_side s
      then (case ssh_packet_enable_delayed_compress V s of (Some e, s) \<Rightarrow> Inl (Perr e) | (None, s) \<Rightarrow> Inr s)
      else Inr s)"

definition ssh_packet_send2_wrapped :: "('e, 'z) penv \<Rightarrow> ('e, 'z) ssh \<Rightarrow> ('e, 'z) presult" where
  "ssh_packet_send2_wrapped V s =
     (let typ = s_outgoing_packet s ! 5; payload = drop 6 (s_outgoing_packet s); seqnr = ps_seqnr (s_p_send s);
          block_size = keys_block_size (s_newkeys_out s) in
      rbind (send_compress V s) (\<lambda>s.
      rbind (send_pad V s) (\<lambda>s.
      rbind (send_protect V s) (\<lambda>s.
      rbind (count_packet (s_kex s) (length (s_outgoing_packet s)) block_size (s_p_send s)) (\<lambda>p.
      send_effects V typ
        (s\<lparr>s_p_send := p, s_outgoing_packet := [], s_sent := s_sent s @ [(typ, payload, seqnr)]\<rparr>))))))"

section \<open>Composing packets\<close>

definition sshpkt_start :: "byte \<Rightarrow> ('e, 'z) ssh \<Rightarrow> ('e, 'z) ssh" where
  "sshpkt_start typ s = s\<lparr>s_outgoing_packet := [0, 0, 0, 0, 0, typ]\<rparr>"

definition sshpkt_put :: "byte list \<Rightarrow> ('e, 'z) ssh \<Rightarrow> ('e, 'z) presult" where
  "sshpkt_put v s = rbind (buf_append (s_outgoing_packet s) v) (\<lambda>p. Inr (s\<lparr>s_outgoing_packet := p\<rparr>))"

definition sshpkt_put_u8 :: "byte \<Rightarrow> ('e, 'z) ssh \<Rightarrow> ('e, 'z) presult" where
  "sshpkt_put_u8 v = sshpkt_put [v]"

definition sshpkt_put_u32 :: "32 word \<Rightarrow> ('e, 'z) ssh \<Rightarrow> ('e, 'z) presult" where
  "sshpkt_put_u32 v = sshpkt_put (POKE_U32 v)"

definition sshpkt_put_u64 :: "64 word \<Rightarrow> ('e, 'z) ssh \<Rightarrow> ('e, 'z) presult" where
  "sshpkt_put_u64 v = sshpkt_put (POKE_U64 v)"

definition sshpkt_put_string :: "byte list \<Rightarrow> ('e, 'z) ssh \<Rightarrow> ('e, 'z) presult" where
  "sshpkt_put_string v = sshpkt_put (enc_string v)"

definition sshpkt_put_cstring :: "byte list \<Rightarrow> ('e, 'z) ssh \<Rightarrow> ('e, 'z) presult" where
  "sshpkt_put_cstring v = sshpkt_put (enc_string (takeWhile (\<lambda>c. c \<noteq> 0) v))"

definition sshpkt_add_padding :: "byte \<Rightarrow> ('e, 'z) ssh \<Rightarrow> ('e, 'z) ssh" where
  "sshpkt_add_padding pad s = s\<lparr>s_extra_pad := pad\<rparr>"

text \<open>The random words of \<^verbatim>\<open>sshpkt_msg_ignore\<close> are an argument; each gives four bytes.\<close>

fun put_ignore_bytes :: "(nat \<Rightarrow> 32 word) \<Rightarrow> nat \<Rightarrow> nat \<Rightarrow> ('e, 'z) ssh \<Rightarrow> ('e, 'z) presult" where
  "put_ignore_bytes rnd i 0 s = Inr s"
| "put_ignore_bytes rnd i (Suc n) s =
     rbind (sshpkt_put_u8 (ucast (drop_bit (8 * (i mod 4)) (rnd (i div 4)))) s) (put_ignore_bytes rnd (Suc i) n)"

definition sshpkt_msg_ignore :: "(nat \<Rightarrow> 32 word) \<Rightarrow> 32 word \<Rightarrow> ('e, 'z) ssh \<Rightarrow> ('e, 'z) presult" where
  "sshpkt_msg_ignore rnd nbytes s =
     rbind (sshpkt_put_u32 nbytes (sshpkt_start SSH2_MSG_IGNORE s)) (put_ignore_bytes rnd 0 (unat nbytes))"

section \<open>The queue and key exchange\<close>

text \<open>
  \<^verbatim>\<open>ssh_packet_send2\<close> and \<^verbatim>\<open>kex_send_kexinit\<close> call each other.  The packet of a \<^verbatim>\<open>KEXINIT\<close> is neither
  queued nor does it empty the queue, which leaves \<open>send_now\<close> of \<^verbatim>\<open>ssh_packet_send2\<close>; the lemma
  \<open>kex_send_kexinit_send\<close> below shows that this is what the call does.
\<close>

definition send_now :: "('e, 'z) penv \<Rightarrow> byte \<Rightarrow> ('e, 'z) ssh \<Rightarrow> ('e, 'z) presult" where
  "send_now V typ s = ssh_packet_send2_wrapped V (if typ = SSH2_MSG_KEXINIT then s\<lparr>s_rekeying := True\<rparr> else s)"

definition kex_cookie :: "('e, 'z) penv \<Rightarrow> ('e, 'z) ssh \<Rightarrow> byte list" where
  "kex_cookie V s = map (pv_cookie V (length (s_sent s))) [0..<KEX_COOKIE_LEN]"

text \<open>The parameter \<open>send\<close> is the call of \<^verbatim>\<open>sshpkt_send\<close>.\<close>

definition send_kexinit_with ::
    "(('e, 'z) ssh \<Rightarrow> ('e, 'z) presult) \<Rightarrow> ('e, 'z) penv \<Rightarrow> ('e, 'z) ssh \<Rightarrow> ('e, 'z) presult" where
  "send_kexinit_with send V s =
     (case s_kex s of
        None \<Rightarrow> Inl (Perr SSH_ERR_INTERNAL_ERROR)
      | Some k \<Rightarrow>
          if kx_flags k AND KEX_INIT_SENT \<noteq> 0 then Inr s
          else let k = k\<lparr>kx_done := False\<rparr> in
            if length (kx_my k) < KEX_COOKIE_LEN then Inl (Perr SSH_ERR_INVALID_FORMAT)
            else let k = k\<lparr>kx_my := kex_cookie V s @ drop KEX_COOKIE_LEN (kx_my k)\<rparr> in
              rbind (sshpkt_put (kx_my k) (sshpkt_start SSH2_MSG_KEXINIT (s\<lparr>s_kex := Some k\<rparr>))) (\<lambda>s.
              rbind (send s) (\<lambda>s.
              Inr (s\<lparr>s_kex := map_option (\<lambda>k. k\<lparr>kx_flags := kx_flags k OR KEX_INIT_SENT\<rparr>) (s_kex s)\<rparr>))))"

definition kex_send_kexinit :: "('e, 'z) penv \<Rightarrow> ('e, 'z) ssh \<Rightarrow> ('e, 'z) presult" where
  "kex_send_kexinit V =
     send_kexinit_with (\<lambda>s. if s_mux s then Inl (Perr SSH_ERR_INTERNAL_ERROR) else send_now V SSH2_MSG_KEXINIT s) V"

definition kex_start_rekex :: "('e, 'z) penv \<Rightarrow> ('e, 'z) ssh \<Rightarrow> ('e, 'z) presult" where
  "kex_start_rekex V s =
     (case s_kex s of
        None \<Rightarrow> Inl (Perr SSH_ERR_INTERNAL_ERROR)
      | Some k \<Rightarrow>
          if \<not> kx_done k then Inl (Perr SSH_ERR_INTERNAL_ERROR)
          else kex_send_kexinit V (s\<lparr>s_kex := Some (k\<lparr>kx_done := False\<rparr>)\<rparr>))"

definition ssh_packet_check_rekey :: "('e, 'z) penv \<Rightarrow> ('e, 'z) ssh \<Rightarrow> ('e, 'z) presult" where
  "ssh_packet_check_rekey V s =
     rbind (ssh_packet_check_rekey_preauth s) (\<lambda>_. if \<not> ssh_packet_need_rekeying V 0 s then Inr s else kex_start_rekex V s)"

text \<open>Emptying the queue after \<^verbatim>\<open>NEWKEYS\<close>; a packet that triggers a new exchange stays queued with those behind it.\<close>

fun send_queue :: "('e, 'z) penv \<Rightarrow> (byte \<times> byte list) list \<Rightarrow> ('e, 'z) ssh \<Rightarrow> ('e, 'z) presult" where
  "send_queue V [] s = Inr s"
| "send_queue V ((typ, payload) # ps) s =
     (if ssh_packet_need_rekeying V (length payload) s then kex_start_rekex V s
      else rbind (ssh_packet_send2_wrapped V (s\<lparr>s_outgoing_packet := payload, s_outgoing := ps\<rparr>)) (send_queue V ps))"

definition ssh_packet_send2 :: "('e, 'z) penv \<Rightarrow> ('e, 'z) ssh \<Rightarrow> ('e, 'z) presult" where
  "ssh_packet_send2 V s =
     (if length (s_outgoing_packet s) < 6 then Inl (Perr SSH_ERR_INTERNAL_ERROR)
      else let typ = s_outgoing_packet s ! 5; kex = ssh_packet_type_is_kex typ;
               need_rekey = \<not> kex \<and> ssh_packet_need_rekeying V (length (s_outgoing_packet s)) s in
        rbind (if \<not> s_rekeying s \<and> \<not> kex then ssh_packet_check_rekey_preauth s else Inr ()) (\<lambda>_.
        if (need_rekey \<or> s_rekeying s) \<and> \<not> kex
        then if \<not> pv_alloc V then Inl (Perr SSH_ERR_ALLOC_FAIL)
             else let s = s\<lparr>s_outgoing := s_outgoing s @ [(typ, s_outgoing_packet s)], s_outgoing_packet := []\<rparr> in
               if need_rekey then kex_start_rekex V s else Inr s
        else rbind (send_now V typ s) (\<lambda>s.
             if typ = SSH2_MSG_NEWKEYS
             then send_queue V (s_outgoing s) (s\<lparr>s_rekeying := False, s_rekey_time := pv_now V\<rparr>)
             else Inr s)))"

definition ssh_packet_send_mux :: "('e, 'z) ssh \<Rightarrow> ('e, 'z) presult" where
  "ssh_packet_send_mux s =
     (if s_kex s \<noteq> None then Inl (Perr SSH_ERR_INTERNAL_ERROR)
      else let len = length (s_outgoing_packet s) in
        if len < 6 then Inl (Perr SSH_ERR_INTERNAL_ERROR)
        else let typ = s_outgoing_packet s ! 5 in
          if typ \<ge> SSH2_MSG_CONNECTION_MIN \<and> typ \<le> SSH2_MSG_CONNECTION_MAX
          then let p = POKE_U32 (of_nat (len - 4)) @ drop 4 (s_outgoing_packet s) in
            rbind (buf_append (s_output s) p) (\<lambda>out. Inr (s\<lparr>s_output := out, s_outgoing_packet := []\<rparr>))
          else Inr (s\<lparr>s_outgoing_packet := []\<rparr>))"

definition sshpkt_send :: "('e, 'z) penv \<Rightarrow> ('e, 'z) ssh \<Rightarrow> ('e, 'z) presult" where
  "sshpkt_send V s = (if s_mux s then ssh_packet_send_mux s else ssh_packet_send2 V s)"

definition sshpkt_disconnect :: "('e, 'z) penv \<Rightarrow> byte list \<Rightarrow> ('e, 'z) ssh \<Rightarrow> ('e, 'z) presult" where
  "sshpkt_disconnect V msg s =
     rbind (sshpkt_put_u32 SSH2_DISCONNECT_PROTOCOL_ERROR (sshpkt_start SSH2_MSG_DISCONNECT s)) (\<lambda>s.
     rbind (sshpkt_put_cstring (take 1023 msg) s) (\<lambda>s.
     rbind (sshpkt_put_cstring [] s) (sshpkt_send V)))"

text \<open>
  Writing the output to the socket.  A list of results that ends before the output is empty stands for a peer that does not read.
\<close>

definition ssh_packet_write_poll :: "wr_result \<Rightarrow> ('e, 'z) ssh \<Rightarrow> ('e, 'z) presult" where
  "ssh_packet_write_poll w s =
     (if length (s_output s) > 0
      then (case w of
              Wr_again \<Rightarrow> Inr s
            | Wr_error \<Rightarrow> Inl (Perr SSH_ERR_SYSTEM_ERROR)
            | Wr_bytes n \<Rightarrow> if n = 0 then Inl (Perr SSH_ERR_CONN_CLOSED) else Inr (s\<lparr>s_output := drop n (s_output s)\<rparr>))
      else Inr s)"

fun write_wait_loop :: "wr_result option list \<Rightarrow> ('e, 'z) ssh \<Rightarrow> ('e, 'z) presult" where
  "write_wait_loop ws s =
     (if s_output s = [] then Inr s
      else case ws of
        [] \<Rightarrow> Inl Pwait
      | None # _ \<Rightarrow> Inl (Perr SSH_ERR_CONN_TIMEOUT)
      | Some w # ws \<Rightarrow> rbind (ssh_packet_write_poll w s) (write_wait_loop ws))"

definition ssh_packet_write_wait :: "('e, 'z) penv \<Rightarrow> ('e, 'z) ssh \<Rightarrow> ('e, 'z) presult" where
  "ssh_packet_write_wait V s = rbind (ssh_packet_write_poll (fst (pv_writes V)) s) (write_wait_loop (snd (pv_writes V)))"

section \<open>What sending leaves alone\<close>

definition read_side_same :: "('e, 'z) ssh \<Rightarrow> ('e, 'z) ssh \<Rightarrow> bool" where
  "read_side_same s t \<longleftrightarrow>
     s_input t = s_input s \<and> s_incoming_packet t = s_incoming_packet s \<and> s_packlen t = s_packlen s \<and>
     s_p_read t = s_p_read s \<and> s_receive_context t = s_receive_context s \<and> s_mux t = s_mux s \<and>
     s_packet_discard t = s_packet_discard s \<and> s_server_side t = s_server_side s"

definition stage_same :: "('e, 'z) ssh \<Rightarrow> ('e, 'z) ssh \<Rightarrow> bool" where
  "stage_same s t \<longleftrightarrow>
     read_side_same s t \<and> s_sent t = s_sent s \<and> s_outgoing t = s_outgoing s \<and> s_rekeying t = s_rekeying s \<and>
     s_p_send t = s_p_send s \<and> s_kex t = s_kex s"

lemma read_side_same_refl [simp]: "read_side_same s s"
  by (simp add: read_side_same_def)

lemma read_side_same_trans [trans]: "read_side_same s t \<Longrightarrow> read_side_same t u \<Longrightarrow> read_side_same s u"
  by (simp add: read_side_same_def)

lemma stage_same_refl [simp]: "stage_same s s"
  by (simp add: stage_same_def)

lemma stage_same_trans [trans]: "stage_same s t \<Longrightarrow> stage_same t u \<Longrightarrow> stage_same s u"
  by (simp add: stage_same_def read_side_same_def)

lemma delayed_compression_same: "start_delayed_compression V m s = (r, t) \<Longrightarrow> stage_same s t"
  by (auto simp: start_delayed_compression_def ssh_packet_init_compression_def start_compression_out_def start_compression_in_def
      set_newkeys_def stage_same_def read_side_same_def split: option.splits if_splits mode.splits sum.splits zstatus.splits)

lemma enable_delayed_compress_same:
  assumes "ssh_packet_enable_delayed_compress V s = (r, t)"
  shows "stage_same s t"
proof -
  obtain r1 s1 where in1: "delayed_compress_mode V MODE_IN (s\<lparr>s_after_authentication := True\<rparr>) = (r1, s1)" by fastforce
  have mode: "delayed_compress_mode V m s = (r, t) \<Longrightarrow> stage_same s t" for m s r t
    using delayed_compression_same by (auto simp: delayed_compress_mode_def split: option.splits if_splits)
  have "stage_same s (s\<lparr>s_after_authentication := True\<rparr>)" by (simp add: stage_same_def read_side_same_def)
  also from mode [OF in1] have "stage_same \<dots> s1" .
  also have "stage_same s1 t"
    using assms in1 mode by (auto simp: ssh_packet_enable_delayed_compress_def split: option.splits)
  finally show ?thesis .
qed

lemma compress_buffer_same:
  assumes "compress_buffer V inp s = Inr (out, t)"
  shows "stage_same s t"
proof -
  have "t = s \<or> (\<exists>z. t = s\<lparr>s_compression_out := Some z\<rparr>)"
  proof (cases "s_compression_out s")
    case (Some z)
    obtain chunks st z' where d: "pv_deflate V z inp = (chunks, st, z')" by (cases "pv_deflate V z inp") auto
    show ?thesis using assms Some d by (cases st) (auto simp: compress_buffer_def rbind_eq_Inr split: if_splits)
  qed (use assms in \<open>simp add: compress_buffer_def\<close>)
  then show ?thesis by (auto simp: stage_same_def read_side_same_def)
qed

lemma send_compress_same:
  assumes "send_compress V s = Inr t"
  shows "stage_same s t"
proof (cases "keys_compress (s_newkeys_out s)")
  case True
  with assms obtain out u p where c: "compress_buffer V (drop 5 (s_outgoing_packet s)) s = Inr (out, u)"
    and t: "t = u\<lparr>s_compression_buffer := Some out, s_outgoing_packet := p\<rparr>"
    by (auto simp: send_compress_def rbind_eq_Inr)
  have "stage_same s u" by (rule compress_buffer_same [OF c])
  also have "stage_same u t" by (simp add: t stage_same_def read_side_same_def)
  finally show ?thesis .
qed (use assms in \<open>simp add: send_compress_def\<close>)

lemma send_pad_same: "send_pad V s = Inr t \<Longrightarrow> stage_same s t"
  by (auto simp: send_pad_def rbind_eq_Inr Let_def stage_same_def read_side_same_def)

lemma send_protect_same: "send_protect V s = Inr t \<Longrightarrow> stage_same s t"
  by (auto simp: send_protect_def rbind_eq_Inr Let_def stage_same_def read_side_same_def split: if_splits)

lemma set_newkeys_compression_same: "set_newkeys_compression V m nk s = Inr t \<Longrightarrow> stage_same s t"
  using delayed_compression_same by (auto simp: set_newkeys_compression_def split: if_splits option.splits prod.splits)

lemma set_newkeys_out:
  assumes "ssh_set_newkeys V MODE_OUT s = Inr t"
  shows "read_side_same s t \<and> s_sent t = s_sent s \<and> s_outgoing t = s_outgoing s \<and> s_rekeying t = s_rekeying s \<and>
    s_p_send t = (s_p_send s)\<lparr>ps_packets := 0, ps_blocks := 0\<rparr> \<and> s_kex t = map_option (clear_kex_newkeys MODE_OUT) (s_kex s)"
  using assms set_newkeys_compression_same
  by (fastforce simp: ssh_set_newkeys_def rbind_eq_Inr Let_def set_block_limits_def reset_counters_def set_newkeys_def
      set_context_def stage_same_def read_side_same_def the_kex_def split: option.splits)

lemma count_packet_step:
  assumes "count_packet ko len block_size p = Inr q"
  shows "ps_seqnr q = ps_seqnr p + 1 \<and> ps_packets q = ps_packets p + 1 \<and> ps_packets q \<noteq> 0"
  using assms by (auto simp: count_packet_def Let_def rbind_eq_Inr split: if_splits option.splits)

text \<open>What a finalised packet does to the trace, the queue and the counters.\<close>

definition packet_sent :: "byte \<Rightarrow> byte list \<Rightarrow> ('e, 'z) ssh \<Rightarrow> ('e, 'z) ssh \<Rightarrow> bool" where
  "packet_sent typ payload s t \<longleftrightarrow>
     read_side_same s t \<and> s_outgoing t = s_outgoing s \<and> s_rekeying t = s_rekeying s \<and>
     s_sent t = s_sent s @ [(typ, payload, ps_seqnr (s_p_send s))] \<and> ps_packets (s_p_send s) + 1 \<noteq> 0 \<and>
     (if typ = SSH2_MSG_NEWKEYS
      then ps_packets (s_p_send t) = 0 \<and> s_kex t = map_option (clear_kex_newkeys MODE_OUT) (s_kex s)
      else ps_packets (s_p_send t) = ps_packets (s_p_send s) + 1 \<and> ps_seqnr (s_p_send t) = ps_seqnr (s_p_send s) + 1 \<and>
        s_kex t = s_kex s)"

lemma send_effects_sent:
  assumes "send_effects V typ s = Inr t"
  shows "read_side_same s t \<and> s_outgoing t = s_outgoing s \<and> s_rekeying t = s_rekeying s \<and> s_sent t = s_sent s \<and>
    (if typ = SSH2_MSG_NEWKEYS then ps_packets (s_p_send t) = 0 \<and> s_kex t = map_option (clear_kex_newkeys MODE_OUT) (s_kex s)
     else s_p_send t = s_p_send s \<and> s_kex t = s_kex s)"
proof (cases "typ = SSH2_MSG_NEWKEYS")
  case True
  then obtain p where "ssh_set_newkeys V MODE_OUT (s\<lparr>s_p_send := p\<rparr>) = Inr t"
    using assms by (auto simp: send_effects_def rbind_eq_Inr split: if_splits)
      (metis ssh.surjective ssh.update_convs(21))
  from set_newkeys_out [OF this] True show ?thesis by (simp add: read_side_same_def)
next
  case False
  then show ?thesis using assms enable_delayed_compress_same
    by (fastforce simp: send_effects_def stage_same_def split: if_splits option.splits prod.splits)
qed

lemma send2_wrapped_sent:
  assumes "ssh_packet_send2_wrapped V s = Inr t"
  shows "packet_sent (s_outgoing_packet s ! 5) (drop 6 (s_outgoing_packet s)) s t"
proof -
  obtain a b c p where c: "send_compress V s = Inr a" "send_pad V a = Inr b" "send_protect V b = Inr c"
    and p: "count_packet (s_kex c) (length (s_outgoing_packet c)) (keys_block_size (s_newkeys_out s)) (s_p_send c) = Inr p"
    and e: "send_effects V (s_outgoing_packet s ! 5) (c\<lparr>s_p_send := p, s_outgoing_packet := [],
      s_sent := s_sent c @ [(s_outgoing_packet s ! 5, drop 6 (s_outgoing_packet s), ps_seqnr (s_p_send s))]\<rparr>) = Inr t"
    using assms unfolding ssh_packet_send2_wrapped_def by (auto simp: rbind_eq_Inr Let_def)
  have "stage_same s c"
    using send_compress_same [OF c(1)] send_pad_same [OF c(2)] send_protect_same [OF c(3)] by (blast intro: stage_same_trans)
  then show ?thesis
    using send_effects_sent [OF e] count_packet_step [OF p]
    by (simp add: packet_sent_def stage_same_def read_side_same_def split: if_splits)
qed

lemma send2_wrapped_read_side: "ssh_packet_send2_wrapped V s = Inr t \<Longrightarrow> read_side_same s t"
  using send2_wrapped_sent by (auto simp: packet_sent_def)

lemma send_now_read_side: "send_now V ty s = Inr t \<Longrightarrow> read_side_same s t"
  using send2_wrapped_read_side by (fastforce simp: send_now_def read_side_same_def split: if_splits)

lemma kex_start_rekex_read_side:
  assumes "kex_start_rekex V s = Inr t"
  shows "read_side_same s t"
  using assms send_now_read_side
  by (fastforce simp: kex_start_rekex_def kex_send_kexinit_def send_kexinit_with_def rbind_eq_Inr Let_def sshpkt_put_def
      sshpkt_start_def read_side_same_def split: if_splits option.splits)

lemma send_queue_read_side: "send_queue V q s = Inr t \<Longrightarrow> read_side_same s t"
proof (induction V q s rule: send_queue.induct)
  case (2 V ty payload ps s)
  show ?case
  proof (cases "ssh_packet_need_rekeying V (length payload) s")
    case True
    then show ?thesis using 2(2) kex_start_rekex_read_side by auto
  next
    case False
    with 2(2) obtain u where "ssh_packet_send2_wrapped V (s\<lparr>s_outgoing_packet := payload, s_outgoing := ps\<rparr>) = Inr u"
      and "send_queue V ps u = Inr t" by (auto simp: rbind_eq_Inr)
    with send2_wrapped_read_side 2(1) [OF False] show ?thesis by (fastforce simp: read_side_same_def)
  qed
qed simp

lemma send2_read_side:
  assumes "ssh_packet_send2 V s = Inr t"
  shows "read_side_same s t"
  using assms unfolding ssh_packet_send2_def
  by (auto simp: Let_def rbind_eq_Inr read_side_same_def
      dest!: send_now_read_side kex_start_rekex_read_side send_queue_read_side split: if_splits)

lemma sshpkt_send_read_side: "sshpkt_send V s = Inr t \<Longrightarrow> read_side_same s t"
  using send2_read_side
  by (auto simp: sshpkt_send_def ssh_packet_send_mux_def Let_def rbind_eq_Inr read_side_same_def split: if_splits)

lemma check_rekey_read_side: "ssh_packet_check_rekey V s = Inr t \<Longrightarrow> read_side_same s t"
  using kex_start_rekex_read_side by (auto simp: ssh_packet_check_rekey_def rbind_eq_Inr split: if_splits)

lemma send2_kexinit:
  assumes "s_outgoing_packet s = [0, 0, 0, 0, 0, SSH2_MSG_KEXINIT] @ p"
  shows "ssh_packet_send2 V s = send_now V SSH2_MSG_KEXINIT s"
  using assms by (cases "send_now V SSH2_MSG_KEXINIT s")
    (simp_all add: ssh_packet_send2_def Let_def ssh_packet_type_is_kex_def packet_consts)

lemma kex_send_kexinit_send: "kex_send_kexinit V s = send_kexinit_with (sshpkt_send V) V s"
proof -
  have "(if s_mux u then Inl (Perr SSH_ERR_INTERNAL_ERROR) else send_now V SSH2_MSG_KEXINIT u) = sshpkt_send V u"
    if "sshpkt_put p (sshpkt_start SSH2_MSG_KEXINIT (s\<lparr>s_kex := Some k\<rparr>)) = Inr u" for u p k
  proof -
    have "s_outgoing_packet u = [0, 0, 0, 0, 0, SSH2_MSG_KEXINIT] @ p" "s_kex u = Some k"
      using that by (auto simp: sshpkt_put_def sshpkt_start_def buf_append_def rbind_eq_Inr lift_err_def buf_put_def split: if_splits)
    then show ?thesis using send2_kexinit [of u p V] by (simp add: sshpkt_send_def ssh_packet_send_mux_def)
  qed
  then show ?thesis
    unfolding kex_send_kexinit_def send_kexinit_with_def Let_def
    by (auto simp: rbind_def split: option.split sum.split)
qed

end
