(* ===== verification/Packet_Read.thy ===== *)
theory Packet_Read
  imports Packet_Send
begin

unbundle bit_operations_syntax

text \<open>
  Receiving packets, from \<^verbatim>\<open>packet.c\<close>: the length of the next packet is found, the packet is authenticated, decrypted,
  counted and uncompressed, and the messages of the transport layer are handled.  The hook for fuzzing is left out.
\<close>

section \<open>Fields of the incoming packet\<close>

definition sshpkt_read :: "'a reader \<Rightarrow> ('e, 'z) ssh \<Rightarrow> pstop + 'a \<times> ('e, 'z) ssh" where
  "sshpkt_read get s = map_sum Perr (\<lambda>(v, p). (v, s\<lparr>s_incoming_packet := p\<rparr>)) (get (s_incoming_packet s))"

definition sshpkt_get_u8 :: "('e, 'z) ssh \<Rightarrow> pstop + byte \<times> ('e, 'z) ssh" where
  "sshpkt_get_u8 = sshpkt_read bytes_get_u8"

definition sshpkt_get_u32 :: "('e, 'z) ssh \<Rightarrow> pstop + 32 word \<times> ('e, 'z) ssh" where
  "sshpkt_get_u32 = sshpkt_read bytes_get_u32"

definition sshpkt_get_u64 :: "('e, 'z) ssh \<Rightarrow> pstop + 64 word \<times> ('e, 'z) ssh" where
  "sshpkt_get_u64 = sshpkt_read bytes_get_u64"

definition sshpkt_get_string :: "('e, 'z) ssh \<Rightarrow> pstop + byte list \<times> ('e, 'z) ssh" where
  "sshpkt_get_string = sshpkt_read bytes_get_str"

definition sshpkt_get_cstring :: "('e, 'z) ssh \<Rightarrow> pstop + byte list \<times> ('e, 'z) ssh" where
  "sshpkt_get_cstring = sshpkt_read bytes_get_cstring"

definition sshpkt_get_end :: "('e, 'z) ssh \<Rightarrow> pstop + unit" where
  "sshpkt_get_end s = (if length (s_incoming_packet s) > 0 then Inl (Perr SSH_ERR_UNEXPECTED_TRAILING_DATA) else Inr ())"

section \<open>Discarding\<close>

text \<open>
  After a MAC error in CBC mode, input is discarded up to the size of the largest packet before the error is
  reported.  The MAC computed then only takes time.
\<close>

function discard_fill :: "nat \<Rightarrow> byte list \<Rightarrow> ssh_err + byte list" where
  "discard_fill dlen b =
     (if length b < dlen
      then (case buf_put SSHBUF_SIZE_MAX b (replicate 1024 97) of
              None \<Rightarrow> Inl SSH_ERR_NO_BUFFER_SPACE
            | Some b \<Rightarrow> discard_fill dlen b)
      else Inr b)"
  by pat_completeness auto

termination
  by (relation "measure (\<lambda>(dlen, b). dlen - length b)") (auto simp: buf_put_def split: if_splits)

definition ssh_packet_stop_discard :: "('e, 'z) ssh \<Rightarrow> ssh_err" where
  "ssh_packet_stop_discard s =
     (case s_packet_discard_mac s of
        None \<Rightarrow> SSH_ERR_MAC_INVALID
      | Some m \<Rightarrow>
          let already = s_packet_discard_mac_already s;
              dlen = (if PACKET_MAX_SIZE > already then PACKET_MAX_SIZE - already else PACKET_MAX_SIZE) in
          (case discard_fill dlen (s_incoming_packet s) of Inl e \<Rightarrow> e | Inr b \<Rightarrow> SSH_ERR_MAC_INVALID))"

definition ssh_packet_start_discard ::
    "('e, 'z) penv \<Rightarrow> sshmac option \<Rightarrow> nat \<Rightarrow> nat \<Rightarrow> ('e, 'z) ssh \<Rightarrow> ('e, 'z) presult" where
  "ssh_packet_start_discard V mac mac_already discard s =
     (if (case s_newkeys_in s of None \<Rightarrow> True | Some nk \<Rightarrow> \<not> cipher_is_cbc (en_cipher (nk_enc nk))) \<or>
         (case mac of None \<Rightarrow> False | Some m \<Rightarrow> mc_etm m)
      then rbind (sshpkt_disconnect V (str_bytes ''Packet corrupt'') s) (\<lambda>s. Inl (Perr SSH_ERR_MAC_INVALID))
      else let s = (case mac of
                      None \<Rightarrow> s
                    | Some m \<Rightarrow> if mc_enabled m
                                then s\<lparr>s_packet_discard_mac := Some m, s_packet_discard_mac_already := mac_already\<rparr> else s) in
        if length (s_input s) \<ge> discard then Inl (Perr (ssh_packet_stop_discard s))
        else Inr (s\<lparr>s_packet_discard := discard - length (s_input s)\<rparr>))"

definition ssh_packet_process_incoming :: "byte list \<Rightarrow> ('e, 'z) ssh \<Rightarrow> ('e, 'z) presult" where
  "ssh_packet_process_incoming buf s =
     (if s_packet_discard s \<noteq> 0
      then let s = s\<lparr>s_keep_alive_timeouts := 0\<rparr> in
        if length buf \<ge> s_packet_discard s then Inl (Perr (ssh_packet_stop_discard s))
        else Inr (s\<lparr>s_packet_discard := s_packet_discard s - length buf\<rparr>)
      else rbind (buf_append (s_input s) buf) (\<lambda>b. Inr (s\<lparr>s_input := b\<rparr>)))"

section \<open>One packet\<close>

text \<open>Each stage returns whether to go on, with the state; otherwise the function returns 0 without a packet.\<close>

type_synonym ('e, 'z) pstage = "pstop + bool \<times> ('e, 'z) ssh"

definition bad_packlen :: "32 word \<Rightarrow> bool" where
  "bad_packlen n \<longleftrightarrow> unat n < 1 + 4 \<or> unat n > PACKET_MAX_SIZE"

definition keys_maclen :: "newkeys option \<Rightarrow> nat" where
  "keys_maclen nko = (case active_mac nko of None \<Rightarrow> 0 | Some m \<Rightarrow> if mc_enabled m then mc_mac_len m else 0)"

text \<open>
  Finding the length.  When the length is encrypted with the packet, the first block is decrypted, with
  the sequence number of the packets sent, as in the source.
\<close>

definition read_length :: "('e, 'z) penv \<Rightarrow> ('e, 'z) ssh \<Rightarrow> ('e, 'z) pstage" where
  "read_length V s =
     (let nko = s_newkeys_in s; block_size = keys_block_size nko in
      if s_packlen s \<noteq> 0 then Inr (True, s)
      else if keys_aadlen nko \<noteq> 0
      then (case cipher_get_length (s_receive_context s) (ps_seqnr (s_p_read s)) (s_input s) of
              Inl e \<Rightarrow> Inr (False, s)
            | Inr (n, cc) \<Rightarrow>
                let s = s\<lparr>s_packlen := n, s_receive_context := cc\<rparr> in
                if bad_packlen n
                then rbind (sshpkt_disconnect V (str_bytes ''Packet corrupt'') s) (\<lambda>s. Inl (Perr SSH_ERR_CONN_CORRUPT))
                else Inr (True, s\<lparr>s_incoming_packet := []\<rparr>))
      else if length (s_input s) < block_size then Inr (False, s)
      else rbind (lift_err (cipher_crypt (pv_evp V) (s_receive_context s) (ps_seqnr (s_p_send s)) (s_input s) block_size 0 0)) (\<lambda>(p, cc).
           let n = PEEK_U32 p; s = s\<lparr>s_packlen := n, s_receive_context := cc, s_incoming_packet := p\<rparr> in
           if bad_packlen n
           then rbind (ssh_packet_start_discard V (active_mac nko) 0 PACKET_MAX_SIZE s) (\<lambda>s. Inr (False, s))
           else Inr (True, s\<lparr>s_input := drop block_size (s_input s)\<rparr>)))"

definition read_need :: "('e, 'z) ssh \<Rightarrow> 32 word" where
  "read_need s =
     (if keys_aadlen (s_newkeys_in s) \<noteq> 0 then s_packlen s
      else 4 + s_packlen s - of_nat (keys_block_size (s_newkeys_in s)))"

text \<open>Authentication and decryption of the rest, once all of it has arrived.\<close>

definition read_check_etm :: "('e, 'z) penv \<Rightarrow> nat \<Rightarrow> ('e, 'z) ssh \<Rightarrow> ('e, 'z) presult" where
  "read_check_etm V need s =
     (let nko = s_newkeys_in s; aadlen = keys_aadlen nko in
      case active_mac nko of
        None \<Rightarrow> Inr s
      | Some m \<Rightarrow>
          if mc_enabled m \<and> mc_etm m
          then rbind (lift_err (mac_check (pv_mac V) m (ps_seqnr (s_p_read s)) (take (aadlen + need) (s_input s))
                                  (drop (aadlen + need + keys_authlen nko) (s_input s)) (keys_maclen nko))) (\<lambda>m.
               Inr (s\<lparr>s_newkeys_in := put_mac m nko\<rparr>))
          else Inr s)"

definition read_decrypt :: "('e, 'z) penv \<Rightarrow> nat \<Rightarrow> ('e, 'z) ssh \<Rightarrow> ('e, 'z) presult" where
  "read_decrypt V need s =
     (let nko = s_newkeys_in s; aadlen = keys_aadlen nko; authlen = keys_authlen nko in
      if length (s_incoming_packet s) + (aadlen + need) > SSHBUF_SIZE_MAX then Inl (Perr SSH_ERR_NO_BUFFER_SPACE)
      else rbind (lift_err (cipher_crypt (pv_evp V) (s_receive_context s) (ps_seqnr (s_p_read s)) (s_input s) need aadlen authlen)) (\<lambda>(p, cc).
           Inr (s\<lparr>s_receive_context := cc, s_incoming_packet := s_incoming_packet s @ p,
                  s_input := drop (aadlen + need + authlen) (s_input s)\<rparr>)))"

definition read_check_mac :: "('e, 'z) penv \<Rightarrow> nat \<Rightarrow> ('e, 'z) ssh \<Rightarrow> ('e, 'z) pstage" where
  "read_check_mac V need s =
     (let nko = s_newkeys_in s; block_size = keys_block_size nko in
      case active_mac nko of
        None \<Rightarrow> Inr (True, s)
      | Some m \<Rightarrow>
          if \<not> mc_enabled m then Inr (True, s)
          else rbind (if mc_etm m then Inr (True, s)
                      else case mac_check (pv_mac V) m (ps_seqnr (s_p_read s)) (s_incoming_packet s) (s_input s) (keys_maclen nko) of
                        Inr m \<Rightarrow> Inr (True, s\<lparr>s_newkeys_in := put_mac m nko\<rparr>)
                      | Inl e \<Rightarrow>
                          if e \<noteq> SSH_ERR_MAC_INVALID then Inl (Perr e)
                          else if need + block_size > PACKET_MAX_SIZE then Inl (Perr SSH_ERR_INTERNAL_ERROR)
                          else rbind (ssh_packet_start_discard V (Some m) (length (s_incoming_packet s))
                                        (PACKET_MAX_SIZE - need - block_size) s) (\<lambda>s. Inr (False, s))) (\<lambda>(go, s).
               if \<not> go then Inr (False, s)
               else if length (s_input s) < mc_mac_len m then Inl (Perr SSH_ERR_MESSAGE_INCOMPLETE)
               else Inr (True, s\<lparr>s_input := drop (mc_mac_len m) (s_input s)\<rparr>)))"

definition read_body :: "('e, 'z) penv \<Rightarrow> ('e, 'z) ssh \<Rightarrow> ('e, 'z) pstage" where
  "read_body V s =
     (let nko = s_newkeys_in s; block_size = keys_block_size nko; need = read_need s in
      if block_size = 0 then Inl Pcrash
      else if unat need mod block_size \<noteq> 0
      then rbind (ssh_packet_start_discard V (active_mac nko) 0 (PACKET_MAX_SIZE - block_size) s) (\<lambda>s. Inr (False, s))
      else if length (s_input s) <
                unat (of_nat (keys_aadlen nko) + need + of_nat (keys_authlen nko) + of_nat (keys_maclen nko) :: 32 word)
      then Inr (False, s)
      else rbind (read_check_etm V (unat need) s) (\<lambda>s.
           rbind (read_decrypt V (unat need) s) (read_check_mac V (unat need))))"

text \<open>Removing the padding and uncompressing.\<close>

definition read_unpad :: "('e, 'z) penv \<Rightarrow> ('e, 'z) ssh \<Rightarrow> ('e, 'z) presult" where
  "read_unpad V s =
     (let padlen = unat (s_incoming_packet s ! 4) in
      if padlen < 4
      then rbind (sshpkt_disconnect V (str_bytes (''Corrupted padlen '' @ decimal_str padlen @ '' on input.'')) s) (\<lambda>s.
           rbind (ssh_packet_write_wait V s) (\<lambda>s. Inl (Perr SSH_ERR_CONN_CORRUPT)))
      else if length (s_incoming_packet s) < 5 then Inl (Perr SSH_ERR_MESSAGE_INCOMPLETE)
      else let p = drop 5 (s_incoming_packet s) in
        if length p < padlen then Inl (Perr SSH_ERR_MESSAGE_INCOMPLETE)
        else Inr (s\<lparr>s_incoming_packet := take (length p - padlen) p\<rparr>))"

definition read_uncompress :: "('e, 'z) penv \<Rightarrow> ('e, 'z) ssh \<Rightarrow> ('e, 'z) presult" where
  "read_uncompress V s =
     (if \<not> keys_compress (s_newkeys_in s) then Inr s
      else rbind (uncompress_buffer V (s_incoming_packet s) s) (\<lambda>(out, s).
           Inr (s\<lparr>s_compression_buffer := Some out, s_incoming_packet := out\<rparr>)))"

text \<open>
  The type, and what follows it.  An error of \<^verbatim>\<open>ssh_packet_enable_delayed_compress\<close> is overwritten by the result of
  \<^verbatim>\<open>ssh_packet_check_rekey\<close>, as in the source.
\<close>

definition read_effects :: "('e, 'z) penv \<Rightarrow> byte \<Rightarrow> ('e, 'z) ssh \<Rightarrow> ('e, 'z) presult" where
  "read_effects V typ s =
     (let s = (if typ = SSH2_MSG_USERAUTH_SUCCESS \<and> \<not> s_server_side s
               then snd (ssh_packet_enable_delayed_compress V s) else s)\<lparr>s_packlen := 0\<rparr> in
      rbind (if typ = SSH2_MSG_NEWKEYS
             then rbind (the_kex s) (\<lambda>k. Inr (if kx_kex_strict k \<noteq> 0 then s\<lparr>s_p_read := (s_p_read s)\<lparr>ps_seqnr := 0\<rparr>\<rparr> else s))
             else Inr s) (ssh_packet_check_rekey V))"

definition read_type :: "('e, 'z) penv \<Rightarrow> ('e, 'z) ssh \<Rightarrow> pstop + byte \<times> ('e, 'z) ssh" where
  "read_type V s =
     rbind (sshpkt_get_u8 s) (\<lambda>(typ, s).
     if typ < SSH2_MSG_MIN
     then rbind (sshpkt_disconnect V (str_bytes (''Invalid ssh2 packet type: '' @ decimal_str (unat typ))) s) (\<lambda>s.
          rbind (ssh_packet_write_wait V s) (\<lambda>s. Inl (Perr SSH_ERR_PROTOCOL_ERROR)))
     else rbind (read_effects V typ s) (\<lambda>s. Inr (typ, s)))"

definition read_finish :: "('e, 'z) penv \<Rightarrow> ('e, 'z) ssh \<Rightarrow> pstop + (byte \<times> 32 word) option \<times> ('e, 'z) ssh" where
  "read_finish V s =
     (let seqnr = ps_seqnr (s_p_read s) in
      rbind (count_packet (s_kex s) (unat (s_packlen s + 4)) (keys_block_size (s_newkeys_in s)) (s_p_read s)) (\<lambda>p.
      rbind (read_unpad V (s\<lparr>s_p_read := p\<rparr>)) (\<lambda>s.
      rbind (read_uncompress V s) (\<lambda>s.
      rbind (read_type V s) (\<lambda>(typ, s). Inr (Some (typ, seqnr), s))))))"

definition ssh_packet_read_poll2_mux :: "('e, 'z) ssh \<Rightarrow> pstop + (byte \<times> 32 word) option \<times> ('e, 'z) ssh" where
  "ssh_packet_read_poll2_mux s =
     (if s_kex s \<noteq> None then Inl (Perr SSH_ERR_INTERNAL_ERROR)
      else if s_packlen s = 0 \<and> length (s_input s) < 4 + 1 then Inr (None, s)
      else let n = (if s_packlen s = 0 then PEEK_U32 (s_input s) else s_packlen s) in
        if s_packlen s = 0 \<and> (unat n < 4 + 1 \<or> unat n > PACKET_MAX_SIZE) then Inl (Perr SSH_ERR_MESSAGE_INCOMPLETE)
        else let s = s\<lparr>s_packlen := n\<rparr>; need = unat (n + 4) in
          if length (s_input s) < need then Inr (None, s)
          else let s = s\<lparr>s_incoming_packet := take (unat n) (drop 4 (s_input s)), s_input := drop need (s_input s)\<rparr> in
            rbind (sshpkt_get_u8 s) (\<lambda>(pad, s).
            rbind (sshpkt_get_u8 s) (\<lambda>(typ, s).
            Inr (if typ = SSH_MSG_NONE then None else Some (typ, 0), s\<lparr>s_packlen := 0\<rparr>))))"

definition ssh_packet_read_poll2 :: "('e, 'z) penv \<Rightarrow> ('e, 'z) ssh \<Rightarrow> pstop + (byte \<times> 32 word) option \<times> ('e, 'z) ssh" where
  "ssh_packet_read_poll2 V s =
     (if s_mux s then ssh_packet_read_poll2_mux s
      else if s_packet_discard s \<noteq> 0 then Inr (None, s)
      else rbind (read_length V s) (\<lambda>(go, s).
           if \<not> go then Inr (None, s)
           else rbind (read_body V s) (\<lambda>(go, s).
                if \<not> go then Inr (None, s) else read_finish V s)))"

section \<open>Reading makes progress\<close>

definition send_side_same :: "('e, 'z) ssh \<Rightarrow> ('e, 'z) ssh \<Rightarrow> bool" where
  "send_side_same s t \<longleftrightarrow>
     s_sent t = s_sent s \<and> s_outgoing t = s_outgoing s \<and> s_rekeying t = s_rekeying s \<and> s_p_send t = s_p_send s \<and>
     s_kex t = s_kex s \<and> s_mux t = s_mux s"

lemma send_side_same_refl [simp]: "send_side_same s s"
  by (simp add: send_side_same_def)

lemma send_side_same_trans [trans]: "send_side_same s t \<Longrightarrow> send_side_same t u \<Longrightarrow> send_side_same s u"
  by (simp add: send_side_same_def)

lemma start_discard_same:
  assumes "ssh_packet_start_discard V mac already n s = Inr t"
  shows "send_side_same s t \<and> s_input t = s_input s \<and> s_packlen t = s_packlen s \<and> s_newkeys_in t = s_newkeys_in s"
  using assms by (auto simp: ssh_packet_start_discard_def rbind_eq_Inr Let_def send_side_same_def split: if_splits option.splits)

lemma get_length_input: "cipher_get_length cc seqnr cp = Inr r \<Longrightarrow> 4 \<le> length cp"
  by (auto simp: cipher_get_length_def chachapoly_get_length_def split: if_splits prod.splits sum.splits)

lemma read_length_same:
  assumes "read_length V s = Inr (go, t)"
  shows "send_side_same s t" and "length (s_input t) \<le> length (s_input s)"
    and "go \<Longrightarrow> s_packlen s = 0 \<Longrightarrow>
      (if keys_aadlen (s_newkeys_in s) \<noteq> 0 then 4 \<le> length (s_input s) \<and> s_input t = s_input s
       else s_input t = drop (keys_block_size (s_newkeys_in s)) (s_input s) \<and>
         keys_block_size (s_newkeys_in s) \<le> length (s_input s))"
    and "s_newkeys_in t = s_newkeys_in s" and "go \<Longrightarrow> s_packlen s \<noteq> 0 \<Longrightarrow> t = s"
  using assms
  by (auto simp: read_length_def Let_def rbind_eq_Inr send_side_same_def dest!: start_discard_same get_length_input
      split: if_splits sum.splits)

lemma mac_compute_same:
  assumes "mac_compute P m seqno dat dlen = Inr (tag, m')"
  shows "mc_enabled m' = mc_enabled m \<and> mc_etm m' = mc_etm m \<and> mc_mac_len m' = mc_mac_len m \<and> mc_type m' = mc_type m"
  using assms by (cases "mc_type m") (auto simp: mac_compute_def split: if_splits option.splits)

lemma mac_check_same:
  assumes "mac_check P m seqno dat theirs mlen = Inr m'"
  shows "mc_enabled m' = mc_enabled m \<and> mc_etm m' = mc_etm m \<and> mc_mac_len m' = mc_mac_len m \<and> mc_type m' = mc_type m"
  using assms by (auto simp: mac_check_def dest: mac_compute_same split: if_splits sum.splits)

lemma put_mac_keys:
  assumes "active_mac nko = Some m" "mc_enabled m' = mc_enabled m \<and> mc_etm m' = mc_etm m \<and> mc_mac_len m' = mc_mac_len m \<and> mc_type m' = mc_type m"
  shows "active_mac (put_mac m' nko) = Some m'" "keys_authlen (put_mac m' nko) = keys_authlen nko"
    "keys_block_size (put_mac m' nko) = keys_block_size nko" "keys_aadlen (put_mac m' nko) = keys_aadlen nko"
    "keys_compress (put_mac m' nko) = keys_compress nko" "keys_maclen (put_mac m' nko) = keys_maclen nko"
  using assms by (auto simp: active_mac_def put_mac_def keys_authlen_def keys_block_size_def keys_aadlen_def keys_compress_def
      keys_maclen_def split: option.splits if_splits)

lemma read_check_etm_same:
  assumes "read_check_etm V n s = Inr t"
  shows "send_side_same s t \<and> s_input t = s_input s \<and> s_packlen t = s_packlen s \<and> keys_aadlen (s_newkeys_in t) = keys_aadlen (s_newkeys_in s)"
proof (cases "active_mac (s_newkeys_in s)")
  case (Some m)
  show ?thesis
  proof (cases "mc_enabled m \<and> mc_etm m")
    case True
    with assms Some obtain m' p q where "mac_check (pv_mac V) m (ps_seqnr (s_p_read s)) p q (keys_maclen (s_newkeys_in s)) = Inr m'"
      and "t = s\<lparr>s_newkeys_in := put_mac m' (s_newkeys_in s)\<rparr>"
      by (auto simp: read_check_etm_def Let_def rbind_eq_Inr lift_err_def map_sum_def split: sum.splits)
    then show ?thesis using put_mac_keys(4) [OF Some mac_check_same] by (simp add: send_side_same_def)
  qed (use assms Some in \<open>auto simp: read_check_etm_def Let_def\<close>)
qed (use assms in \<open>simp add: read_check_etm_def Let_def\<close>)

lemma read_decrypt_same:
  assumes "read_decrypt V n s = Inr t"
  shows "send_side_same s t \<and> length (s_input t) \<le> length (s_input s) - keys_aadlen (s_newkeys_in s) \<and>
    s_packlen t = s_packlen s \<and> s_newkeys_in t = s_newkeys_in s"
  using assms by (auto simp: read_decrypt_def Let_def rbind_eq_Inr send_side_same_def split: if_splits)

lemma read_check_mac_same:
  assumes "read_check_mac V n s = Inr (go, t)"
  shows "send_side_same s t \<and> length (s_input t) \<le> length (s_input s) \<and> s_packlen t = s_packlen s"
  using assms
  by (auto simp: read_check_mac_def Let_def rbind_eq_Inr send_side_same_def dest!: start_discard_same
      split: if_splits option.splits sum.splits)

lemma read_body_same:
  assumes "read_body V s = Inr (go, t)"
  shows "send_side_same s t"
    and "go \<Longrightarrow> s_packlen t = s_packlen s \<and> length (s_input t) \<le> length (s_input s) - keys_aadlen (s_newkeys_in s)"
    and "go \<Longrightarrow> keys_block_size (s_newkeys_in s) \<noteq> 0"
proof -
  from assms show "keys_block_size (s_newkeys_in s) \<noteq> 0" if go using that by (auto simp: read_body_def Let_def split: if_splits)
  have same: "send_side_same s t \<and> s_packlen t = s_packlen s \<and>
      length (s_input t) \<le> length (s_input s) - keys_aadlen (s_newkeys_in s)"
    if "read_check_etm V n s = Inr a" "read_decrypt V n a = Inr b" "read_check_mac V n b = Inr (go, t)" for n a b
    using read_check_etm_same [OF that(1)] read_decrypt_same [OF that(2)] read_check_mac_same [OF that(3)]
    by (simp add: send_side_same_def)
  from assms same show "send_side_same s t"
    by (auto simp: read_body_def Let_def rbind_eq_Inr dest!: start_discard_same split: if_splits)
  from assms same show "s_packlen t = s_packlen s \<and> length (s_input t) \<le> length (s_input s) - keys_aadlen (s_newkeys_in s)" if go
    using that by (auto simp: read_body_def Let_def rbind_eq_Inr split: if_splits)
qed

lemma sshpkt_read_same:
  assumes "sshpkt_read get s = Inr (v, t)"
  shows "\<exists>p. t = s\<lparr>s_incoming_packet := p\<rparr>"
  using assms by (auto simp: sshpkt_read_def map_sum_def split: sum.splits)

lemma uncompress_buffer_same:
  assumes "uncompress_buffer V inp s = Inr (out, t)"
  shows "\<exists>z. t = s\<lparr>s_compression_in := Some z\<rparr>"
proof (cases "s_compression_in s")
  case (Some z)
  obtain chunks st z' where "pv_inflate V z inp = (chunks, st, z')" by (cases "pv_inflate V z inp") auto
  then show ?thesis using assms Some by (cases st) (auto simp: uncompress_buffer_def rbind_eq_Inr)
qed (use assms in \<open>simp add: uncompress_buffer_def\<close>)

text \<open>
  Everything up to the check of the limits keeps the side of sending, and that check keeps the side of reading.
\<close>

lemma read_effects_cases:
  assumes "read_effects V ty s = Inr t"
  obtains u where "send_side_same s u" "s_input u = s_input s" "s_packlen u = 0" "ssh_packet_check_rekey V u = Inr t"
proof -
  define e where "e = (if ty = SSH2_MSG_USERAUTH_SUCCESS \<and> \<not> s_server_side s
    then snd (ssh_packet_enable_delayed_compress V s) else s)\<lparr>s_packlen := 0\<rparr>"
  have "stage_same s (snd (ssh_packet_enable_delayed_compress V s))"
    by (cases "ssh_packet_enable_delayed_compress V s") (use enable_delayed_compress_same in auto)
  then have e: "send_side_same s e \<and> s_input e = s_input s \<and> s_packlen e = 0"
    by (auto simp: e_def stage_same_def read_side_same_def send_side_same_def)
  from assms have "rbind (if ty = SSH2_MSG_NEWKEYS
      then rbind (the_kex e) (\<lambda>k. Inr (if kx_kex_strict k \<noteq> 0 then e\<lparr>s_p_read := (s_p_read e)\<lparr>ps_seqnr := 0\<rparr>\<rparr> else e))
      else Inr e) (ssh_packet_check_rekey V) = Inr t"
    unfolding read_effects_def Let_def e_def .
  then obtain u where u: "(if ty = SSH2_MSG_NEWKEYS
      then rbind (the_kex e) (\<lambda>k. Inr (if kx_kex_strict k \<noteq> 0 then e\<lparr>s_p_read := (s_p_read e)\<lparr>ps_seqnr := 0\<rparr>\<rparr> else e))
      else Inr e) = Inr u" and t: "ssh_packet_check_rekey V u = Inr t"
    unfolding rbind_eq_Inr [of _ "ssh_packet_check_rekey V"] by blast
  then have "u = e \<or> (\<exists>p. u = e\<lparr>s_p_read := p\<rparr>)"
    by (cases "the_kex e") (auto split: if_splits)
  then have "send_side_same e u \<and> s_input u = s_input e \<and> s_packlen u = s_packlen e"
    by (auto simp: send_side_same_def)
  then show thesis using e t by (intro that) (auto simp: send_side_same_def)
qed

lemma read_finish_cases:
  assumes "read_finish V s = Inr (x, t)"
  obtains u where "send_side_same s u" "s_input u = s_input s" "s_packlen u = 0" "x \<noteq> None"
    and "ssh_packet_check_rekey V u = Inr t"
proof -
  from assms obtain p a b c ty where a: "read_unpad V (s\<lparr>s_p_read := p\<rparr>) = Inr a" and b: "read_uncompress V a = Inr b"
    and c: "read_type V b = Inr (ty, t)" and x: "x = Some (ty, ps_seqnr (s_p_read s))"
    by (auto simp: read_finish_def Let_def rbind_eq_Inr)
  from c obtain d where d: "sshpkt_get_u8 b = Inr (ty, d)" and e: "read_effects V ty d = Inr t"
    by (auto simp: read_type_def rbind_eq_Inr split: if_splits)
  have "send_side_same s a \<and> s_input a = s_input s"
    using a by (auto simp: read_unpad_def Let_def rbind_eq_Inr send_side_same_def split: if_splits)
  moreover have "send_side_same a b \<and> s_input b = s_input a"
    using b by (auto simp: read_uncompress_def rbind_eq_Inr send_side_same_def dest!: uncompress_buffer_same split: if_splits)
  moreover have "send_side_same b d \<and> s_input d = s_input b"
    using sshpkt_read_same d by (fastforce simp: sshpkt_get_u8_def send_side_same_def)
  ultimately have "send_side_same s d" "s_input d = s_input s" by (auto simp: send_side_same_def)
  with read_effects_cases [OF e] that x show thesis by (metis option.distinct(1) send_side_same_trans)
qed

lemma unat_packlen_4: "unat n \<le> PACKET_MAX_SIZE \<Longrightarrow> unat (n + 4 :: 32 word) = unat n + 4"
  using unat_add_nat [of n 4] by (simp add: PACKET_MAX_SIZE_def)

definition read_rank :: "('e, 'z) ssh \<Rightarrow> nat" where
  "read_rank s = 2 * length (s_input s) + (if s_packlen s \<noteq> 0 then 1 else 0)"

lemma read_poll2_progress:
  assumes "ssh_packet_read_poll2 V s = Inr (Some x, t)"
  shows "read_rank t < read_rank s"
proof (cases "s_mux s")
  case True
  then show ?thesis using assms
    by (auto simp: ssh_packet_read_poll2_def ssh_packet_read_poll2_mux_def Let_def rbind_eq_Inr read_rank_def sshpkt_get_u8_def
        unat_packlen_4 dest!: sshpkt_read_same split: if_splits)
next
  case False
  with assms obtain a b where a: "read_length V s = Inr (True, a)" and b: "read_body V a = Inr (True, b)"
    and t: "read_finish V b = Inr (Some x, t)"
    by (auto simp: ssh_packet_read_poll2_def rbind_eq_Inr split: if_splits)
  obtain u where u: "s_input u = s_input b" "s_packlen u = 0" "ssh_packet_check_rekey V u = Inr t"
    by (rule read_finish_cases [OF t])
  then have t': "s_input t = s_input b" "s_packlen t = 0"
    using check_rekey_read_side [OF u(3)] by (simp_all add: read_side_same_def)
  show ?thesis
    using read_length_same(3-5) [OF a] read_body_same(2,3) [OF b] t' by (auto simp: read_rank_def split: if_splits)
qed

section \<open>Reading messages\<close>

definition handle_ping :: "('e, 'z) penv \<Rightarrow> ('e, 'z) ssh \<Rightarrow> ('e, 'z) presult" where
  "handle_ping V s =
     rbind (sshpkt_get_string s) (\<lambda>(d, s).
     if \<not> s_after_authentication s then Inr s
     else if ssh_packet_is_rekeying s then Inr s
     else rbind (sshpkt_put_string d (sshpkt_start SSH2_MSG_PONG s)) (sshpkt_send V))"

definition skip_debug :: "('e, 'z) ssh \<Rightarrow> ('e, 'z) presult" where
  "skip_debug s =
     rbind (sshpkt_get_u8 s) (\<lambda>(v, s). rbind (sshpkt_get_string s) (\<lambda>(msg, s). rbind (sshpkt_get_string s) (\<lambda>(lang, s). Inr s)))"

text \<open>The transport messages handled implicitly; \<open>None\<close> is any other message.\<close>

definition handle_transport :: "('e, 'z) penv \<Rightarrow> byte \<Rightarrow> ('e, 'z) ssh \<Rightarrow> ('e, 'z) presult option" where
  "handle_transport V typ s =
     (if typ = SSH2_MSG_IGNORE then Some (Inr s)
      else if typ = SSH2_MSG_DEBUG then Some (skip_debug s)
      else if typ = SSH2_MSG_UNIMPLEMENTED then Some (rbind (sshpkt_get_u32 s) (\<lambda>(seqnr, s). Inr s))
      else if typ = SSH2_MSG_PING then Some (handle_ping V s)
      else if typ = SSH2_MSG_PONG then Some (rbind (sshpkt_get_string s) (\<lambda>(d, s). Inr s))
      else None)"

definition strict_initial :: "('e, 'z) ssh \<Rightarrow> bool" where
  "strict_initial s \<longleftrightarrow>
     (case s_kex s of None \<Rightarrow> False | Some k \<Rightarrow> kx_flags k AND KEX_INITIAL \<noteq> 0 \<and> kx_kex_strict k \<noteq> 0)"

definition kexinit_received :: "('e, 'z) ssh \<Rightarrow> bool" where
  "kexinit_received s \<longleftrightarrow> (case s_kex s of None \<Rightarrow> False | Some k \<Rightarrow> kx_flags k AND KEX_INIT_RECVD \<noteq> 0)"

lemma handle_transport_input:
  assumes "handle_transport V ty s = Some (Inr t)"
  shows "s_input t = s_input s \<and> s_packlen t = s_packlen s"
proof -
  have get: "\<And>v t. sshpkt_get_u8 s = Inr (v, t) \<Longrightarrow> s_input t = s_input s \<and> s_packlen t = s_packlen s"
    "\<And>w t. sshpkt_get_u32 s = Inr (w, t) \<Longrightarrow> s_input t = s_input s \<and> s_packlen t = s_packlen s"
    "\<And>p t. sshpkt_get_string s = Inr (p, t) \<Longrightarrow> s_input t = s_input s \<and> s_packlen t = s_packlen s" for s :: "('a, 'b) ssh"
    using sshpkt_read_same by (fastforce simp: sshpkt_get_u8_def sshpkt_get_u32_def sshpkt_get_string_def)+
  have ping: "s_input t = s_input s \<and> s_packlen t = s_packlen s" if "handle_ping V s = Inr t"
    using that
    by (auto simp: handle_ping_def rbind_eq_Inr sshpkt_put_string_def sshpkt_put_def sshpkt_start_def read_side_same_def
        dest!: get(3) sshpkt_send_read_side split: if_splits)
  show ?thesis
    using assms ping
    by (auto simp: handle_transport_def skip_debug_def rbind_eq_Inr dest!: get split: if_splits)
qed

function ssh_packet_read_poll_seqnr ::
    "('e, 'z) penv \<Rightarrow> ('e, 'z) ssh \<Rightarrow> pstop + (byte \<times> 32 word) option \<times> ('e, 'z) ssh" where
  "ssh_packet_read_poll_seqnr V s =
     (case ssh_packet_read_poll2 V s of
        Inl e \<Rightarrow> Inl e
      | Inr (None, s) \<Rightarrow> Inr (None, s)
      | Inr (Some (typ, seqnr), s) \<Rightarrow>
          let s = s\<lparr>s_keep_alive_timeouts := 0\<rparr> in
          if typ = SSH2_MSG_DISCONNECT
          then rbind (sshpkt_get_u32 s) (\<lambda>(reason, s).
               rbind (sshpkt_get_string s) (\<lambda>(msg, s). Inl (Perr SSH_ERR_DISCONNECTED)))
          else if strict_initial s then Inr (Some (typ, seqnr), s)
          else case handle_transport V typ s of
            Some (Inl e) \<Rightarrow> Inl e
          | Some (Inr s) \<Rightarrow> ssh_packet_read_poll_seqnr V s
          | None \<Rightarrow>
              if kexinit_received s \<and> \<not> ssh_packet_type_is_kex typ then Inl (Perr SSH_ERR_PROTOCOL_ERROR)
              else Inr (Some (typ, seqnr), s))"
  by pat_completeness auto

termination
proof (relation "measure (\<lambda>(V, s). read_rank s)")
  show "((V, u), (V, s)) \<in> measure (\<lambda>(V, s). read_rank s)"
    if "ssh_packet_read_poll2 V s = Inr p" "(x, a) = p" "x = Some y" "(ty, q) = y" "b = a\<lparr>s_keep_alive_timeouts := 0\<rparr>"
      "handle_transport V ty b = Some r" "r = Inr u" for V :: "('e, 'z) penv" and s u a b p x y ty q r
    using that read_poll2_progress [of V s y a] handle_transport_input [of V ty b u] by (auto simp: read_rank_def)
qed simp

declare ssh_packet_read_poll_seqnr.simps [simp del]

end
