(* ===== verification/Packet_Queue.thy ===== *)
theory Packet_Queue
  imports Packet_Read
begin

unbundle bit_operations_syntax

text \<open>
  What the packets sent on a connection look like, over every sequence of operations.  The
  invariant relates the trace of packets, the queue, the flag \<^verbatim>\<open>rekeying\<close> and the counters.
\<close>

section \<open>Traces\<close>

type_synonym ptrace = "(byte \<times> byte list \<times> 32 word) list"

text \<open>Between \<^verbatim>\<open>KEXINIT\<close> and \<^verbatim>\<open>NEWKEYS\<close>, and before the first \<^verbatim>\<open>NEWKEYS\<close>, only messages of the key exchange are sent.\<close>

fun quiet :: "bool \<Rightarrow> ptrace \<Rightarrow> bool" where
  "quiet kexing [] = True"
| "quiet kexing ((t, p, q) # xs) =
     ((kexing \<longrightarrow> ssh_packet_type_is_kex t) \<and>
      quiet (if t = SSH2_MSG_KEXINIT then True else if t = SSH2_MSG_NEWKEYS then False else kexing) xs)"

fun kexing_after :: "bool \<Rightarrow> ptrace \<Rightarrow> bool" where
  "kexing_after kexing [] = kexing"
| "kexing_after kexing ((t, p, q) # xs) =
     kexing_after (if t = SSH2_MSG_KEXINIT then True else if t = SSH2_MSG_NEWKEYS then False else kexing) xs"

text \<open>The pairs of a key, counted by the \<^verbatim>\<open>NEWKEYS\<close> before, and the sequence number used with it.\<close>

fun nonces :: "nat \<Rightarrow> ptrace \<Rightarrow> (nat \<times> 32 word) list" where
  "nonces e [] = []"
| "nonces e ((t, p, q) # xs) = (e, q) # nonces (if t = SSH2_MSG_NEWKEYS then Suc e else e) xs"

lemma quiet_snoc:
  "quiet k (xs @ [(t, p, q)]) \<longleftrightarrow> quiet k xs \<and> (kexing_after k xs \<longrightarrow> ssh_packet_type_is_kex t)"
  by (induction k xs rule: quiet.induct) auto

lemma kexing_after_snoc:
  "kexing_after k (xs @ [(t, p, q)]) =
    (if t = SSH2_MSG_KEXINIT then True else if t = SSH2_MSG_NEWKEYS then False else kexing_after k xs)"
  by (induction k xs rule: kexing_after.induct) auto

definition key_changes :: "ptrace \<Rightarrow> nat" where
  "key_changes xs = length (filter (\<lambda>x. fst x = SSH2_MSG_NEWKEYS) xs)"

lemma key_changes_simps [simp]:
  "key_changes [] = 0" "key_changes ((t, p, q) # xs) = (if t = SSH2_MSG_NEWKEYS then Suc (key_changes xs) else key_changes xs)"
  "key_changes (xs @ ys) = key_changes xs + key_changes ys"
  by (simp_all add: key_changes_def)

lemma nonces_append: "nonces e (xs @ ys) = nonces e xs @ nonces (e + key_changes xs) ys"
  by (induction e xs rule: nonces.induct) auto

lemma nonces_old:
  assumes "xs \<noteq> []" "fst (last xs) = SSH2_MSG_NEWKEYS" "n \<in> set (nonces e xs)"
  shows "fst n < e + key_changes xs"
  using assms
proof (induction e xs rule: nonces.induct)
  case (2 e t p q xs)
  show ?case
  proof (cases "xs = []")
    case False
    then have "fst (last xs) = SSH2_MSG_NEWKEYS" using 2(3) by simp
    then have "0 < key_changes xs" using False
      by (auto simp: key_changes_def filter_empty_conv intro!: bexI [of _ "last xs"])
    then show ?thesis using 2 False by (auto split: if_splits)
  qed (use 2 in auto)
qed simp

lemma nonces_no_change: "key_changes xs = 0 \<Longrightarrow> nonces e xs = map (\<lambda>x. (e, snd (snd x))) xs"
  by (induction e xs rule: nonces.induct) (auto split: if_splits)

text \<open>The sequence numbers since the last change of keys are consecutive, and there are as many as packets counted.\<close>

definition counted :: "ptrace \<Rightarrow> packet_state \<Rightarrow> bool" where
  "counted xs p \<longleftrightarrow>
     distinct (nonces 0 xs) \<and>
     (\<exists>old new. xs = old @ new \<and> (old \<noteq> [] \<longrightarrow> fst (last old) = SSH2_MSG_NEWKEYS) \<and> key_changes new = 0 \<and>
       length new = unat (ps_packets p) \<and>
       map (\<lambda>x. snd (snd x)) new = map (\<lambda>i. ps_seqnr p - of_nat (length new) + of_nat i) [0..<length new])"

lemma countedI:
  assumes "distinct (nonces 0 xs)" "xs = old @ new" "old \<noteq> [] \<Longrightarrow> fst (last old) = SSH2_MSG_NEWKEYS" "key_changes new = 0"
    and "length new = unat (ps_packets p)"
    and "map (\<lambda>x. snd (snd x)) new = map (\<lambda>i. ps_seqnr p - of_nat (length new) + of_nat i) [0..<length new]"
  shows "counted xs p"
  using assms unfolding counted_def by blast

lemma of_nat_eq_32: "a < 2 ^ 32 \<Longrightarrow> b < 2 ^ 32 \<Longrightarrow> (of_nat a :: 32 word) = of_nat b \<Longrightarrow> a = b"
  by (metis unat_of_nat_32)

lemma counted_fresh:
  assumes "counted xs p"
  shows "distinct (nonces 0 (xs @ [(t, v, ps_seqnr p)]))"
proof -
  from assms obtain old new where xs: "xs = old @ new" and old: "old \<noteq> [] \<longrightarrow> fst (last old) = SSH2_MSG_NEWKEYS"
    and new: "key_changes new = 0" and len: "length new = unat (ps_packets p)"
    and seq: "map (\<lambda>x. snd (snd x)) new = map (\<lambda>i. ps_seqnr p - of_nat (length new) + of_nat i) [0..<length new]"
    unfolding counted_def by blast
  have "(key_changes old, ps_seqnr p) \<notin> set (nonces 0 old)"
  proof
    assume in_old: "(key_changes old, ps_seqnr p) \<in> set (nonces 0 old)"
    then have "old \<noteq> []" by auto
    with old nonces_old [OF this _ in_old] show False by simp
  qed
  moreover have "ps_seqnr p \<notin> set (map (\<lambda>x. snd (snd x)) new)"
  proof
    assume "ps_seqnr p \<in> set (map (\<lambda>x. snd (snd x)) new)"
    then obtain i where i: "i < length new" "ps_seqnr p = ps_seqnr p - of_nat (length new) + of_nat i"
      unfolding seq by auto
    then have "(of_nat (length new) :: 32 word) = of_nat i" by (simp add: algebra_simps)
    with i(1) len of_nat_eq_32 [of "length new" i] show False
      by (metis less_irrefl less_trans unat_less_32)
  qed
  ultimately show ?thesis
    using assms new by (auto simp: counted_def xs nonces_append nonces_no_change image_iff)
qed

lemma counted_newkeys:
  assumes "counted xs p" "ps_packets q = 0"
  shows "counted (xs @ [(SSH2_MSG_NEWKEYS, v, ps_seqnr p)]) q"
  using counted_fresh [OF assms(1)] assms(2)
  by (intro countedI [where old = "xs @ [(SSH2_MSG_NEWKEYS, v, ps_seqnr p)]" and new = "[]"]) auto

lemma counted_next:
  assumes "counted xs p" "t \<noteq> SSH2_MSG_NEWKEYS" "ps_packets p + 1 \<noteq> 0"
    and q: "ps_packets q = ps_packets p + 1" "ps_seqnr q = ps_seqnr p + 1"
  shows "counted (xs @ [(t, v, ps_seqnr p)]) q"
proof -
  from assms(1) obtain old new where xs: "xs = old @ new" and old: "old \<noteq> [] \<longrightarrow> fst (last old) = SSH2_MSG_NEWKEYS"
    and new: "key_changes new = 0" and len: "length new = unat (ps_packets p)"
    and seq: "map (\<lambda>x. snd (snd x)) new = map (\<lambda>i. ps_seqnr p - of_nat (length new) + of_nat i) [0..<length new]"
    unfolding counted_def by blast
  let ?new = "new @ [(t, v, ps_seqnr p)]"
  have "length ?new = unat (ps_packets q)" using assms(3) len q(1) unatSuc [of "ps_packets p"] by (simp add: add.commute)
  moreover have "map (\<lambda>x. snd (snd x)) ?new = map (\<lambda>i. ps_seqnr q - of_nat (length ?new) + of_nat i) [0..<length ?new]"
    using seq q(2) by simp
  moreover have "key_changes ?new = 0" using new assms(2) by simp
  ultimately show ?thesis
    using counted_fresh [OF assms(1)] old by (intro countedI [of _ old ?new]) (simp_all add: xs)
qed

section \<open>The invariant of sending\<close>

definition kex_ok :: "('e, 'z) ssh \<Rightarrow> bool" where
  "kex_ok s \<longleftrightarrow> (case s_kex s of None \<Rightarrow> True | Some k \<Rightarrow> kx_done k \<longrightarrow> kx_flags k AND KEX_INIT_SENT = 0)"

definition queue_ok :: "(byte \<times> byte list) list \<Rightarrow> bool" where
  "queue_ok q \<longleftrightarrow> (\<forall>(t, p) \<in> set q. \<not> ssh_packet_type_is_kex t \<and> 6 \<le> length p \<and> p ! 5 = t)"

definition trace_ok :: "('e, 'z) ssh \<Rightarrow> bool" where
  "trace_ok s \<longleftrightarrow> quiet True (s_sent s) \<and> counted (s_sent s) (s_p_send s)"

definition send_core :: "('e, 'z) ssh \<Rightarrow> bool" where
  "send_core s \<longleftrightarrow> \<not> s_mux s \<and> kex_ok s \<and> queue_ok (s_outgoing s) \<and> trace_ok s \<and> s_rekeying s = kexing_after True (s_sent s)"

definition send_inv :: "('e, 'z) ssh \<Rightarrow> bool" where
  "send_inv s \<longleftrightarrow> send_core s \<and> (\<not> s_rekeying s \<longrightarrow> s_outgoing s = [])"

text \<open>The packets accepted for sending that do not belong to a key exchange: those sent, and behind them those waiting.\<close>

definition accepted :: "('e, 'z) ssh \<Rightarrow> (byte \<times> byte list) list" where
  "accepted s =
     map (\<lambda>(t, p, q). (t, p)) (filter (\<lambda>x. \<not> ssh_packet_type_is_kex (fst x)) (s_sent s)) @
     map (\<lambda>(t, p). (t, drop 6 p)) (s_outgoing s)"

lemma is_kex_simps [simp]: "ssh_packet_type_is_kex SSH2_MSG_KEXINIT" "ssh_packet_type_is_kex SSH2_MSG_NEWKEYS"
    "SSH2_MSG_KEXINIT \<noteq> SSH2_MSG_NEWKEYS" "SSH2_MSG_NEWKEYS \<noteq> SSH2_MSG_KEXINIT"
  by (simp_all add: ssh_packet_type_is_kex_def packet_consts)

lemma packet_sent_trace:
  assumes "packet_sent t p s u" "trace_ok s" "kexing_after True (s_sent s) \<Longrightarrow> ssh_packet_type_is_kex t"
  shows "trace_ok u" and "kexing_after True (s_sent u) =
    (if t = SSH2_MSG_KEXINIT then True else if t = SSH2_MSG_NEWKEYS then False else kexing_after True (s_sent s))"
  using assms counted_newkeys counted_next
  by (auto simp: packet_sent_def trace_ok_def quiet_snoc kexing_after_snoc split: if_splits)

lemma packet_sent_kex_ok: "packet_sent t p s u \<Longrightarrow> kex_ok s \<Longrightarrow> kex_ok u"
  by (auto simp: packet_sent_def kex_ok_def clear_kex_newkeys_def split: if_splits option.splits)

lemma packet_sent_core:
  assumes "packet_sent t p s u" "send_core s" "s_rekeying s \<Longrightarrow> ssh_packet_type_is_kex t" "t \<noteq> SSH2_MSG_KEXINIT"
  shows "send_core (u\<lparr>s_rekeying := s_rekeying s \<and> t \<noteq> SSH2_MSG_NEWKEYS\<rparr>)"
proof -
  have "s_rekeying s = kexing_after True (s_sent s)" "trace_ok s" "kex_ok s" using assms(2) by (simp_all add: send_core_def)
  with packet_sent_trace [OF assms(1)] packet_sent_kex_ok [OF assms(1)] assms show ?thesis
    by (auto simp: send_core_def trace_ok_def kex_ok_def packet_sent_def read_side_same_def)
qed

lemma send_now_sent:
  assumes "send_now V t s = Inr u" "s_outgoing_packet s ! 5 = t"
  shows "packet_sent t (drop 6 (s_outgoing_packet s)) (if t = SSH2_MSG_KEXINIT then s\<lparr>s_rekeying := True\<rparr> else s) u"
  using send2_wrapped_sent [OF assms(1) [unfolded send_now_def]] assms(2) by (simp split: if_splits)

text \<open>Starting a key exchange sends \<^verbatim>\<open>KEXINIT\<close> and leaves the queue alone.\<close>

lemma kex_start_rekex_inv:
  assumes "kex_start_rekex V s = Inr t" "send_core s"
  shows "send_inv t \<and> accepted t = accepted s \<and> read_side_same s t"
proof -
  from assms obtain k where k: "s_kex s = Some k" "kx_done k" "kx_flags k AND KEX_INIT_SENT = 0"
    by (auto simp: kex_start_rekex_def send_core_def kex_ok_def split: option.splits if_splits)
  define p where "p = kex_cookie V (s\<lparr>s_kex := Some (k\<lparr>kx_done := False\<rparr>)\<rparr>) @ drop KEX_COOKIE_LEN (kx_my k)"
  define k' where "k' = k\<lparr>kx_done := False, kx_my := p\<rparr>"
  define s1 where "s1 = s\<lparr>s_kex := Some k', s_outgoing_packet := [0, 0, 0, 0, 0, SSH2_MSG_KEXINIT] @ p\<rparr>"
  have "\<exists>u. send_now V SSH2_MSG_KEXINIT s1 = Inr u \<and>
      t = u\<lparr>s_kex := map_option (\<lambda>k. k\<lparr>kx_flags := kx_flags k OR KEX_INIT_SENT\<rparr>) (s_kex u)\<rparr>"
    using assms k
    by (auto simp: kex_start_rekex_def kex_send_kexinit_def send_kexinit_with_def rbind_eq_Inr Let_def sshpkt_put_def
        sshpkt_start_def buf_append_def lift_err_def buf_put_def send_core_def s1_def k'_def p_def split: if_splits)
  then obtain u where u: "send_now V SSH2_MSG_KEXINIT s1 = Inr u"
    and t: "t = u\<lparr>s_kex := map_option (\<lambda>k. k\<lparr>kx_flags := kx_flags k OR KEX_INIT_SENT\<rparr>) (s_kex u)\<rparr>" by blast
  have k': "\<not> kx_done k'" by (simp add: k'_def)
  let ?s2 = "s1\<lparr>s_rekeying := True\<rparr>"
  have sent: "packet_sent SSH2_MSG_KEXINIT p ?s2 u" using send_now_sent [OF u] by (simp add: s1_def)
  have "trace_ok ?s2" "queue_ok (s_outgoing s)" "\<not> s_mux s" using assms(2) by (simp_all add: send_core_def trace_ok_def s1_def)
  with packet_sent_trace [OF sent] have "trace_ok u" "kexing_after True (s_sent u)" by simp_all
  moreover from sent k' have "kex_ok t" "read_side_same s t" "s_rekeying t" "s_outgoing t = s_outgoing s"
      "accepted t = accepted s"
    by (simp_all add: t s1_def packet_sent_def kex_ok_def read_side_same_def accepted_def)
  ultimately show ?thesis
    using assms(2) by (simp add: send_inv_def send_core_def t trace_ok_def read_side_same_def)
qed

lemma accepted_sent:
  assumes "packet_sent t p s u"
  shows "accepted u =
    map (\<lambda>(t, p, q). (t, p)) (filter (\<lambda>x. \<not> ssh_packet_type_is_kex (fst x)) (s_sent s)) @
    (if ssh_packet_type_is_kex t then [] else [(t, p)]) @ map (\<lambda>(t, p). (t, drop 6 p)) (s_outgoing s)"
  using assms by (simp add: packet_sent_def accepted_def)

lemma send_queue_inv:
  assumes "send_queue V q s = Inr t" "send_core s" "\<not> s_rekeying s" "s_outgoing s = q"
  shows "send_inv t \<and> accepted t = accepted s \<and> read_side_same s t"
  using assms
proof (induction V q s rule: send_queue.induct)
  case (1 V s)
  then show ?case by (simp add: send_inv_def)
next
  case (2 V ty payload ps s)
  show ?case
  proof (cases "ssh_packet_need_rekeying V (length payload) s")
    case True
    then show ?thesis using 2 kex_start_rekex_inv by (auto simp: send_inv_def)
  next
    case False
    let ?s = "s\<lparr>s_outgoing_packet := payload, s_outgoing := ps\<rparr>"
    from 2(2) False obtain u where u: "ssh_packet_send2_wrapped V ?s = Inr u" and t: "send_queue V ps u = Inr t"
      by (auto simp: rbind_eq_Inr)
    have ty: "\<not> ssh_packet_type_is_kex ty" "payload ! 5 = ty"
      using 2(3,5) by (auto simp: send_core_def queue_ok_def)
    then have no_kex: "ty \<noteq> SSH2_MSG_KEXINIT" "ty \<noteq> SSH2_MSG_NEWKEYS" by auto
    have core: "send_core ?s" using 2(3,5) by (simp add: send_core_def kex_ok_def queue_ok_def trace_ok_def)
    from send2_wrapped_sent [OF u] ty have sent: "packet_sent ty (drop 6 payload) ?s u" by simp
    then have same: "\<not> s_rekeying u" "s_outgoing u = ps" using 2(4) by (simp_all add: packet_sent_def)
    then have "send_core (u\<lparr>s_rekeying := False\<rparr>)" using packet_sent_core [OF sent core] 2(4) no_kex by simp
    then have "send_core u" using same(1) by (simp add: send_core_def kex_ok_def trace_ok_def)
    with 2(1) [OF False t] same have "send_inv t \<and> accepted t = accepted u \<and> read_side_same u t" by simp
    moreover have "accepted u = accepted s" using accepted_sent [OF sent] ty(1) 2(5) by (simp add: accepted_def)
    moreover have "read_side_same s u" using sent by (simp add: packet_sent_def read_side_same_def)
    ultimately show ?thesis by (auto intro: read_side_same_trans)
  qed
qed

lemma send2_inv:
  assumes inv: "send_inv s" and res: "ssh_packet_send2 V s = Inr t"
  defines "typ \<equiv> s_outgoing_packet s ! 5"
  shows "send_inv t \<and> read_side_same s t \<and>
    accepted t = accepted s @ (if ssh_packet_type_is_kex typ then [] else [(typ, drop 6 (s_outgoing_packet s))])"
proof -
  have core: "send_core s" and empty: "\<not> s_rekeying s \<Longrightarrow> s_outgoing s = []" using inv by (simp_all add: send_inv_def)
  have len: "6 \<le> length (s_outgoing_packet s)" using res by (auto simp: ssh_packet_send2_def split: if_splits)
  define need where "need \<longleftrightarrow> \<not> ssh_packet_type_is_kex typ \<and> ssh_packet_need_rekeying V (length (s_outgoing_packet s)) s"
  show ?thesis
  proof (cases "(need \<or> s_rekeying s) \<and> \<not> ssh_packet_type_is_kex typ")
    case True
    define q where "q = s\<lparr>s_outgoing := s_outgoing s @ [(typ, s_outgoing_packet s)], s_outgoing_packet := []\<rparr>"
    have t: "(if need then kex_start_rekex V q else Inr q) = Inr t"
      using res len True unfolding ssh_packet_send2_def
      by (auto simp: Let_def rbind_eq_Inr q_def typ_def need_def split: if_splits)
    have q: "send_core q" using core True len by (auto simp: send_core_def q_def kex_ok_def queue_ok_def trace_ok_def typ_def)
    have acc: "accepted q = accepted s @ [(typ, drop 6 (s_outgoing_packet s))]" by (simp add: accepted_def q_def)
    have same: "read_side_same s q" by (simp add: read_side_same_def q_def)
    show ?thesis
    proof (cases need)
      case True
      then show ?thesis
        using t kex_start_rekex_inv [of V q t] q acc same read_side_same_trans [of s q t] by (auto simp: need_def)
    next
      case False
      with True \<open>(need \<or> s_rekeying s) \<and> \<not> ssh_packet_type_is_kex typ\<close> have "s_rekeying q" by (simp add: q_def)
      then show ?thesis using t False q acc same True by (auto simp: send_inv_def)
    qed
  next
    case False
    then obtain u where u: "send_now V typ s = Inr u"
      and t: "(if typ = SSH2_MSG_NEWKEYS then send_queue V (s_outgoing u) (u\<lparr>s_rekeying := False, s_rekey_time := pv_now V\<rparr>)
               else Inr u) = Inr t"
      using res len unfolding ssh_packet_send2_def
      by (auto simp: Let_def rbind_eq_Inr typ_def need_def split: if_splits)
    define s1 where "s1 = (if typ = SSH2_MSG_KEXINIT then s\<lparr>s_rekeying := True\<rparr> else s)"
    have sent: "packet_sent typ (drop 6 (s_outgoing_packet s)) s1 u"
      using send_now_sent [OF u] by (simp add: typ_def s1_def)
    have s1: "read_side_same s s1" "s_sent s1 = s_sent s" "s_outgoing s1 = s_outgoing s" "trace_ok s1" "kex_ok s1"
      using core by (simp_all add: s1_def read_side_same_def trace_ok_def kex_ok_def send_core_def)
    have same: "read_side_same s u"
      using sent s1(1) by (auto simp: packet_sent_def intro: read_side_same_trans)
    have kex: "kexing_after True (s_sent s1) \<Longrightarrow> ssh_packet_type_is_kex typ"
      using False core s1(2) by (auto simp: send_core_def)
    have acc: "accepted u = accepted s @ (if ssh_packet_type_is_kex typ then [] else [(typ, drop 6 (s_outgoing_packet s))])"
    proof (cases "ssh_packet_type_is_kex typ")
      case True
      then show ?thesis using accepted_sent [OF sent] s1 by (simp add: accepted_def)
    next
      case False
      then have "s_outgoing s = []" using \<open>\<not> ((need \<or> s_rekeying s) \<and> \<not> ssh_packet_type_is_kex typ)\<close> empty by blast
      then show ?thesis using False accepted_sent [OF sent] s1 by (simp add: accepted_def)
    qed
    have ok: "trace_ok u" "kex_ok u" "queue_ok (s_outgoing u)" "\<not> s_mux u"
      "kexing_after True (s_sent u) = (if typ = SSH2_MSG_KEXINIT then True else if typ = SSH2_MSG_NEWKEYS then False
        else s_rekeying s)"
      using packet_sent_trace [OF sent s1(4) kex] packet_sent_kex_ok [OF sent s1(5)] core s1(2,3) same sent
      by (simp_all add: send_core_def packet_sent_def read_side_same_def)
    have rk: "s_rekeying u = (if typ = SSH2_MSG_KEXINIT then True else s_rekeying s)"
      using sent by (simp add: packet_sent_def s1_def)
    show ?thesis
    proof (cases "typ = SSH2_MSG_NEWKEYS")
      case True
      let ?u = "u\<lparr>s_rekeying := False, s_rekey_time := pv_now V\<rparr>"
      have "send_core ?u" using ok True by (simp add: send_core_def trace_ok_def kex_ok_def)
      moreover have "send_queue V (s_outgoing ?u) ?u = Inr t" using t True by simp
      ultimately have "send_inv t \<and> accepted t = accepted ?u \<and> read_side_same ?u t" using send_queue_inv by fastforce
      moreover have "accepted ?u = accepted u" by (simp add: accepted_def)
      ultimately show ?thesis using acc same by (auto simp: read_side_same_def)
    next
      case False
      then have tu: "t = u" using t by simp
      have "s_outgoing u = s_outgoing s" using sent s1(3) by (simp add: packet_sent_def)
      then have "send_inv u" using ok rk False empty by (auto simp: send_inv_def send_core_def split: if_splits)
      then show ?thesis using acc same tu by blast
    qed
  qed
qed

section \<open>Runs\<close>

lemma send_side_inv: "send_side_same s t \<Longrightarrow> send_inv s \<Longrightarrow> send_inv t \<and> accepted t = accepted s"
  by (simp add: send_side_same_def send_inv_def send_core_def kex_ok_def trace_ok_def accepted_def)

lemma check_rekey_inv:
  assumes "ssh_packet_check_rekey V s = Inr t" "send_inv s"
  shows "send_inv t \<and> accepted t = accepted s"
  using assms kex_start_rekex_inv by (fastforce simp: ssh_packet_check_rekey_def rbind_eq_Inr send_inv_def split: if_splits)

lemma read_poll2_inv:
  assumes "ssh_packet_read_poll2 V s = Inr (x, t)" "send_inv s"
  shows "send_inv t \<and> accepted t = accepted s"
proof -
  have "\<not> s_mux s" using assms(2) by (simp add: send_inv_def send_core_def)
  then consider "t = s" | go where "read_length V s = Inr (go, t)"
    | a go where "read_length V s = Inr (True, a)" "read_body V a = Inr (go, t)"
    | a b where "read_length V s = Inr (True, a)" "read_body V a = Inr (True, b)" "read_finish V b = Inr (x, t)"
    using assms(1) by (auto simp: ssh_packet_read_poll2_def rbind_eq_Inr split: if_splits)
  then show ?thesis
  proof cases
    case 3
    then show ?thesis
      using send_side_inv [OF send_side_same_trans [OF read_length_same(1) read_body_same(1)]] assms(2) by blast
  next
    case 4
    obtain u where u: "send_side_same b u" "ssh_packet_check_rekey V u = Inr t" by (rule read_finish_cases [OF 4(3)])
    have "send_side_same s u"
      using read_length_same(1) [OF 4(1)] read_body_same(1) [OF 4(2)] u(1) by (blast intro: send_side_same_trans)
    with send_side_inv assms(2) check_rekey_inv [OF u(2)] show ?thesis by metis
  qed (use assms(2) send_side_inv read_length_same(1) read_body_same(1) in \<open>blast+\<close>)
qed

text \<open>
  A connection in use: packets composed and sent, input arriving, packets read, output written, keys and limits
  changed by the other parts of the program.  The list is what was submitted for sending.  The code
  of the key exchange may change \<^verbatim>\<open>struct kex\<close>, but marks an exchange done only together with clearing \<^verbatim>\<open>KEX_INIT_SENT\<close>.
\<close>

inductive packet_run :: "('e, 'z) ssh \<Rightarrow> (byte \<times> byte list) list \<Rightarrow> ('e, 'z) ssh \<Rightarrow> bool" for s where
  start: "packet_run s [] s"
| send: "packet_run s log t \<Longrightarrow> sshpkt_put payload (sshpkt_start ty t) = Inr u \<Longrightarrow> sshpkt_send V u = Inr w \<Longrightarrow>
    packet_run s (log @ [(ty, payload)]) w"
| read: "packet_run s log t \<Longrightarrow> ssh_packet_read_poll2 V t = Inr (x, u) \<Longrightarrow> packet_run s log u"
| input: "packet_run s log t \<Longrightarrow> ssh_packet_process_incoming buf t = Inr u \<Longrightarrow> packet_run s log u"
| fields: "packet_run s log t \<Longrightarrow> packet_run s log (t\<lparr>s_incoming_packet := p\<rparr>)"
| written: "packet_run s log t \<Longrightarrow> ssh_packet_write_poll r t = Inr u \<Longrightarrow> packet_run s log u"
| rekey: "packet_run s log t \<Longrightarrow> kex_start_rekex V t = Inr u \<Longrightarrow> packet_run s log u"
| newkeys: "packet_run s log t \<Longrightarrow> ssh_set_newkeys V MODE_IN t = Inr u \<Longrightarrow> packet_run s log u"
| kex: "packet_run s log t \<Longrightarrow> kex_ok (t\<lparr>s_kex := k\<rparr>) \<Longrightarrow> packet_run s log (t\<lparr>s_kex := k\<rparr>)"
| padding: "packet_run s log t \<Longrightarrow> packet_run s log (sshpkt_add_padding n t)"
| limits: "packet_run s log t \<Longrightarrow> packet_run s log (ssh_packet_set_rekey_limits bytes seconds t)"
| authenticated: "packet_run s log t \<Longrightarrow> packet_run s log (ssh_packet_set_authenticated t)"

lemma set_newkeys_in_same:
  assumes "ssh_set_newkeys V MODE_IN s = Inr t" "send_inv s"
  shows "send_inv t \<and> accepted t = accepted s"
proof -
  have "s_sent t = s_sent s \<and> s_outgoing t = s_outgoing s \<and> s_rekeying t = s_rekeying s \<and> s_p_send t = s_p_send s \<and>
      s_mux t = s_mux s \<and> s_kex t = map_option (clear_kex_newkeys MODE_IN) (s_kex s)"
    using assms(1) set_newkeys_compression_same
    by (fastforce simp: ssh_set_newkeys_def rbind_eq_Inr Let_def set_block_limits_def reset_counters_def set_newkeys_def
        set_context_def stage_same_def read_side_same_def the_kex_def split: option.splits)
  then show ?thesis using assms(2)
    by (auto simp: send_inv_def send_core_def kex_ok_def trace_ok_def accepted_def clear_kex_newkeys_def split: option.splits)
qed

lemma packet_run_inv:
  assumes "packet_run s log t" "send_inv s"
  shows "send_inv t \<and> accepted t = accepted s @ filter (\<lambda>x. \<not> ssh_packet_type_is_kex (fst x)) log"
  using assms
proof (induction rule: packet_run.induct)
  case (send log t payload ty u V w)
  then have t: "send_inv t" by blast
  from send(2) have u: "u = t\<lparr>s_outgoing_packet := [0, 0, 0, 0, 0, ty] @ payload\<rparr>"
    by (auto simp: sshpkt_put_def sshpkt_start_def buf_append_def rbind_eq_Inr lift_err_def buf_put_def split: if_splits)
  have "send_inv u" "accepted u = accepted t" "\<not> s_mux u"
    using t by (simp_all add: u send_inv_def send_core_def kex_ok_def trace_ok_def accepted_def)
  with send2_inv [of u V w] send(3) send(4,5) show ?case by (simp add: sshpkt_send_def u)
next
  case (rekey log t V u)
  then show ?case using kex_start_rekex_inv by (metis send_inv_def)
next
  case (kex log t k)
  then show ?case by (simp add: send_inv_def send_core_def trace_ok_def accepted_def)
next
  case (read log t V x u)
  then show ?case using read_poll2_inv by metis
next
  case (newkeys log t V u)
  then show ?case using set_newkeys_in_same by metis
next
  case (input log t buf u)
  then have "send_side_same t u"
    by (auto simp: ssh_packet_process_incoming_def Let_def rbind_eq_Inr send_side_same_def split: if_splits)
  with input send_side_inv show ?case by metis
next
  case (fields log t p)
  then show ?case using send_side_inv [of t "t\<lparr>s_incoming_packet := p\<rparr>"] by (simp add: send_side_same_def)
next
  case (written log t r u)
  then have "send_side_same t u"
    by (auto simp: ssh_packet_write_poll_def send_side_same_def split: if_splits wr_result.splits)
  with written send_side_inv show ?case by metis
next
  case (padding log t n)
  then show ?case using send_side_inv [of t "sshpkt_add_padding n t"] by (simp add: send_side_same_def sshpkt_add_padding_def)
next
  case (limits log t bytes seconds)
  then show ?case using send_side_inv [of t "ssh_packet_set_rekey_limits bytes seconds t"]
    by (simp add: send_side_same_def ssh_packet_set_rekey_limits_def)
next
  case (authenticated log t)
  then show ?case using send_side_inv [of t "ssh_packet_set_authenticated t"]
    by (simp add: send_side_same_def ssh_packet_set_authenticated_def)
qed simp

lemma new_connection_inv: "ssh_packet_set_connection V = Inr s \<Longrightarrow> send_inv s \<and> accepted s = []"
  by (auto simp: ssh_packet_set_connection_def rbind_eq_Inr ssh_alloc_session_state_def send_inv_def send_core_def kex_ok_def
      kex_new_def queue_ok_def trace_ok_def accepted_def intro!: countedI [of _ "[]" "[]"])

text \<open>
  (C3) Whatever happens on a connection, every packet submitted for sending that does not belong to a key
  exchange is sent or waits in the queue exactly once, and in the order of submission; and from the
  start of a key exchange to its \<^verbatim>\<open>NEWKEYS\<close> only messages of the exchange are sent.
\<close>

theorem packet_queue_order:
  assumes "ssh_packet_set_connection V = Inr s" and "packet_run s log t"
  shows "map (\<lambda>(ty, p, q). (ty, p)) (filter (\<lambda>x. \<not> ssh_packet_type_is_kex (fst x)) (s_sent t)) @
      map (\<lambda>(ty, p). (ty, drop 6 p)) (s_outgoing t) = filter (\<lambda>x. \<not> ssh_packet_type_is_kex (fst x)) log \<and>
    quiet True (s_sent t)"
  using packet_run_inv [OF assms(2)] new_connection_inv [OF assms(1)]
  by (auto simp: accepted_def send_inv_def send_core_def trace_ok_def)

text \<open>
  (C5) No sequence number is used twice with the same key, although it is only 32 bits wide, wraps around,
  and is reset in strict mode: the sequence number is the nonce of \<^verbatim>\<open>chacha20-poly1305\<close>.
\<close>

theorem packet_nonces_distinct:
  assumes "ssh_packet_set_connection V = Inr s" and "packet_run s log t"
  shows "distinct (nonces 0 (s_sent t))"
  using packet_run_inv [OF assms(2)] new_connection_inv [OF assms(1)]
  by (auto simp: send_inv_def send_core_def trace_ok_def counted_def)

definition example_env :: "(unit, unit) penv" where
  "example_env = \<lparr>
     pv_evp = \<lparr>EVP_CIPHER_CTX_new = None, EVP_CipherInit_iv = (\<lambda>_ _ _ _. None), EVP_CipherInit_key = (\<lambda>_ _. None),
       EVP_CTRL_GCM_SET_IV_FIXED = (\<lambda>_ _. None), EVP_CIPHER_CTX_key_length = (\<lambda>_. 0), EVP_CIPHER_CTX_set_key_length = (\<lambda>_ _. None),
       EVP_CTRL_GCM_IV_GEN = (\<lambda>_. None), EVP_CTRL_GCM_SET_TAG = (\<lambda>_ _. None), EVP_CTRL_GCM_GET_TAG = (\<lambda>_ _. None),
       EVP_Cipher_aad = (\<lambda>_ _. None), EVP_Cipher = (\<lambda>_ _. None), EVP_Cipher_final = (\<lambda>_. None),
       EVP_CIPHER_CTX_iv_length = (\<lambda>_. 0), EVP_CTRL_GCM_GET_IV = (\<lambda>_ _. None), EVP_CIPHER_CTX_get_iv = (\<lambda>_ _. None)\<rparr>,
     pv_mac = \<lparr>mo_md = example_md, mo_umac = (\<lambda>_ _ _. replicate 8 0), mo_umac128 = (\<lambda>_ _ _. []), mo_alloc = True\<rparr>,
     pv_alloc = True, pv_rnd = (\<lambda>i j. of_nat (i + j)), pv_cookie = (\<lambda>i j. of_nat (i + j)), pv_now = 0,
     pv_deflateInit = Inl Z_MEM_ERROR, pv_inflateInit = Inl Z_MEM_ERROR, pv_deflate = (\<lambda>z p. ([], Z_MEM_ERROR, z)),
     pv_inflate = (\<lambda>z p. ([], Z_MEM_ERROR, z)), pv_writes = (Wr_again, [])\<rparr>"

definition example_send :: "byte \<Rightarrow> byte list \<Rightarrow> (unit, unit) ssh \<Rightarrow> (unit, unit) presult" where
  "example_send ty p s = rbind (sshpkt_put p (sshpkt_start ty s)) (sshpkt_send example_env)"

definition example_session :: "(unit, unit) presult" where
  "example_session =
     rbind (lift_err (ssh_packet_set_connection example_env)) (\<lambda>s.
     rbind (example_send SSH2_MSG_KEXINIT [1] s) (\<lambda>s.
     rbind (example_send 94 [7] s) (example_send 30 [])))"

lemmas send_defs = sshpkt_send_def ssh_packet_send2_def send_now_def ssh_packet_send2_wrapped_def send_compress_def send_pad_def
  send_protect_def count_packet_def send_effects_def ssh_packet_need_rekeying_def ssh_packet_check_rekey_preauth_def
  ssh_packet_check_rekey_blocklimit_def ssh_packet_is_rekeying_def ssh_packet_type_is_kex_def packet_padlen_def
  keys_block_size_def keys_aadlen_def keys_authlen_def keys_compress_def active_mac_def
  sshpkt_put_def sshpkt_start_def buf_append_def buf_put_def SSHBUF_SIZE_MAX_def packet_consts

lemma example_connection: "ssh_packet_set_connection example_env =
  Inr (ssh_alloc_session_state
    \<lparr>cc_plaintext = True, cc_encrypt = False, cc_evp = None, cc_cp_ctx = None, cc_cipher = none_cipher\<rparr>
    \<lparr>cc_plaintext = True, cc_encrypt = True, cc_evp = None, cc_cp_ctx = None, cc_cipher = none_cipher\<rparr>)"
  by (simp add: ssh_packet_set_connection_def example_env_def cipher_init_def none_cipher_def cipher_by_name_def ciphers_def
      CFLAG_NONE_def CFLAG_CHACHAPOLY_def CFLAG_CBC_def)

lemma none_cipher_simps: "ci_flags none_cipher AND CFLAG_CHACHAPOLY = 0" "ci_flags none_cipher AND CFLAG_NONE \<noteq> 0" "ci_auth_len none_cipher = 0"
  "ci_block_size none_cipher = 8"
  by (simp_all add: none_cipher_def cipher_by_name_def ciphers_def CFLAG_NONE_def CFLAG_CHACHAPOLY_def CFLAG_CBC_def)

lemma example_env_simps:
  "mo_alloc (pv_mac example_env)" "mo_umac (pv_mac example_env) k n d = replicate 8 0"
  "pv_alloc example_env" "pv_rnd example_env i j = of_nat (i + j)" "pv_now example_env = 0"
  by (simp_all add: example_env_def)

lemmas example_defs = send_defs example_send_def ssh_alloc_session_state_def kex_new_def cipher_crypt_def none_cipher_simps
  cipher_ctx_is_plaintext_def example_env_simps Let_def POKE_U32_def

lemma example_session_sent:
  "\<exists>t. example_session = Inr t \<and> s_sent t = [(20, [1], 0), (30, [], 1)] \<and> s_outgoing t = [(94, [0, 0, 0, 0, 0, 94, 7])]"
  unfolding example_session_def
  by (simp add: example_connection example_defs)

lemma example_run:
  "\<exists>s t. ssh_packet_set_connection example_env = Inr s \<and> packet_run s [(20, [1]), (94, [7]), (30, [])] t \<and>
    s_sent t = [(20, [1], 0), (30, [], 1)] \<and> s_outgoing t = [(94, [0, 0, 0, 0, 0, 94, 7])]"
proof -
  obtain t where t: "example_session = Inr t" "s_sent t = [(20, [1], 0), (30, [], 1)]" "s_outgoing t = [(94, [0, 0, 0, 0, 0, 94, 7])]"
    using example_session_sent by blast
  from t(1) obtain s a b where s: "ssh_packet_set_connection example_env = Inr s" "example_send SSH2_MSG_KEXINIT [1] s = Inr a"
      "example_send 94 [7] a = Inr b" "example_send 30 [] b = Inr t"
    unfolding example_session_def rbind_eq_Inr using lift_err_def by (auto simp: example_connection)
  have step: "packet_run s log u \<Longrightarrow> example_send ty p u = Inr w \<Longrightarrow> packet_run s (log @ [(ty, p)]) w" for log u ty p w
    unfolding example_send_def rbind_eq_Inr by (blast intro: packet_run.send)
  have "packet_run s ([] @ [(20, [1])] @ [(94, [7])] @ [(30, [])]) t"
    using step [OF step [OF step [OF packet_run.start s(2)] s(3)] s(4)] by (simp add: SSH2_MSG_KEXINIT_def)
  with s(1) t(2,3) show ?thesis by auto
qed

theorem packet_queue_order_witness:
  "\<exists>s t. ssh_packet_set_connection example_env = Inr s \<and> packet_run s [(20, [1]), (94, [7]), (30, [])] t \<and>
    map fst (s_sent t) = [20, 30] \<and> map (\<lambda>(ty, p). (ty, drop 6 p)) (s_outgoing t) = [(94, [7])] \<and> quiet True (s_sent t)"
proof -
  from example_run obtain s t where run: "ssh_packet_set_connection example_env = Inr s"
      "packet_run s [(20, [1]), (94, [7]), (30, [])] t" "s_sent t = [(20, [1], 0), (30, [], 1)]" by blast
  with packet_queue_order [OF run(1,2)] show ?thesis
    by (intro exI [of _ s] exI [of _ t]) (simp add: ssh_packet_type_is_kex_def packet_consts)
qed

theorem packet_nonces_distinct_witness:
  "\<exists>s t. ssh_packet_set_connection example_env = Inr s \<and> packet_run s [(20, [1]), (94, [7]), (30, [])] t \<and>
    nonces 0 (s_sent t) = [(0, 0), (0, 1)] \<and> distinct (nonces 0 (s_sent t))"
proof -
  from example_run obtain s t where run: "ssh_packet_set_connection example_env = Inr s"
      "packet_run s [(20, [1]), (94, [7]), (30, [])] t" "s_sent t = [(20, [1], 0), (30, [], 1)]" by blast
  with packet_nonces_distinct [OF run(1,2)] show ?thesis
    by (intro exI [of _ s] exI [of _ t]) (simp add: packet_consts)
qed

end
