(* ===== verification/Cipher_Pair.thy ===== *)
theory Cipher_Pair
  imports Cipher
begin

unbundle bit_operations_syntax

text \<open>
  The contract between the packet layer and the ciphers: what the sending context encrypts, the
  receiving context decrypts in the way \<^verbatim>\<open>ssh_packet_read_poll2\<close> calls it, and the two stay in step.
  It holds for the ciphers of the repository, and for those of libcrypto whenever decryption there inverts
  encryption.
\<close>

section \<open>The interface\<close>

text \<open>
  How a packet is decrypted.  With additional data of four bytes, the length is read first and then the whole
  packet decrypted; otherwise the first block is decrypted, under whatever sequence number, and then the rest.
\<close>

definition decrypts :: "'e evp_ops \<Rightarrow> nat \<Rightarrow> nat \<Rightarrow> nat \<Rightarrow> 'e sshcipher_ctx \<Rightarrow> 32 word \<Rightarrow> 32 word \<Rightarrow> byte list \<Rightarrow> byte list \<Rightarrow>
    'e sshcipher_ctx \<Rightarrow> bool" where
  "decrypts E aadlen authlen block rc q q' inp p rc' \<longleftrightarrow>
     (if aadlen \<noteq> 0
      then \<exists>rc1. cipher_get_length rc q inp = Inr (PEEK_U32 p, rc1) \<and>
             cipher_crypt E rc1 q inp (length p - aadlen) aadlen authlen = Inr (p, rc')
      else \<exists>rc1. cipher_crypt E rc q' inp block 0 0 = Inr (take block p, rc1) \<and>
             cipher_crypt E rc1 q (drop block inp) (length p - block) 0 authlen = Inr (drop block p, rc'))"

locale crypt_pair =
  fixes E :: "'e evp_ops" and aadlen authlen block :: nat
    and pair :: "'e sshcipher_ctx \<Rightarrow> 'e sshcipher_ctx \<Rightarrow> bool"
  assumes encrypted_length:
      "pair sc rc \<Longrightarrow> aadlen + block \<le> length p \<Longrightarrow> block dvd length p - aadlen \<Longrightarrow>
       cipher_crypt E sc q p (length p - aadlen) aadlen authlen = Inr (ct, sc') \<Longrightarrow> length ct = length p + authlen"
    and decrypted:
      "pair sc rc \<Longrightarrow> aadlen + block \<le> length p \<Longrightarrow> block dvd length p - aadlen \<Longrightarrow>
       cipher_crypt E sc q p (length p - aadlen) aadlen authlen = Inr (ct, sc') \<Longrightarrow>
       \<exists>rc'. decrypts E aadlen authlen block rc q q' (ct @ rest) p rc' \<and> pair sc' rc'"

section \<open>The ciphers of the repository\<close>

definition chacha_pair :: "'e sshcipher_ctx \<Rightarrow> 'e sshcipher_ctx \<Rightarrow> bool" where
  "chacha_pair sc rc \<longleftrightarrow>
     ci_flags (cc_cipher sc) AND CFLAG_CHACHAPOLY \<noteq> 0 \<and> ci_flags (cc_cipher rc) AND CFLAG_CHACHAPOLY \<noteq> 0 \<and>
     cc_encrypt sc \<and> \<not> cc_encrypt rc \<and>
     (\<exists>a b. cc_cp_ctx sc = Some a \<and> cc_cp_ctx rc = Some b \<and> chachapoly_same_key a b)"

definition none_pair :: "'e sshcipher_ctx \<Rightarrow> 'e sshcipher_ctx \<Rightarrow> bool" where
  "none_pair sc rc \<longleftrightarrow>
     (\<forall>c \<in> {cc_cipher sc, cc_cipher rc}. ci_flags c AND CFLAG_CHACHAPOLY = 0 \<and> ci_flags c AND CFLAG_NONE \<noteq> 0)"

lemma chachapoly_same_key_sym: "chachapoly_same_key a b \<Longrightarrow> chachapoly_same_key b a"
  by (simp add: chachapoly_same_key_def chacha_same_key_def)

lemma chachapoly_same_key_trans: "chachapoly_same_key a b \<Longrightarrow> chachapoly_same_key b c \<Longrightarrow> chachapoly_same_key a c"
  by (simp add: chachapoly_same_key_def chacha_same_key_def)

lemma chachapoly_decrypts:
  assumes "chachapoly_same_key a b" "length p = 4 + n"
  obtains ct where "fst (chachapoly_crypt a q p n 4 16 True) = Inr ct" "length ct = length p + 16"
    and "\<And>b' rest. chachapoly_same_key b b' \<Longrightarrow> fst (chachapoly_crypt b' q (ct @ rest) n 4 16 False) = Inr p"
    and "\<And>b' rest. chachapoly_same_key b b' \<Longrightarrow> fst (chachapoly_get_length b' q (ct @ rest)) = Inr (PEEK_U32 p)"
proof -
  define dest where "dest = crypt_header b q (take 4 p) @ crypt_body b q (drop 4 p)"
  define ct where "ct = dest @ poly1305_auth dest (poly_key b q)"
  note eq = same_key_streams [OF assms(1)]
  have len: "length dest = 4 + n" using assms(2) eq by (simp add: dest_def)
  show thesis
  proof (rule that)
    show "fst (chachapoly_crypt a q p n 4 16 True) = Inr ct"
      using assms(2) by (simp add: chachapoly_crypt_result eq ct_def dest_def)
    show "length ct = length p + 16" using assms(2) len by (simp add: ct_def)
    fix b' :: chachapoly_ctx and rest assume "chachapoly_same_key b b'"
    note eq' = same_key_streams [OF this]
    have parts: "crypt_header b' q (take 4 dest) = take 4 p" "crypt_body b' q (take n (drop 4 dest)) = drop 4 p"
      using assms(2) eq eq' by (simp_all add: dest_def)
    show "fst (chachapoly_crypt b' q (ct @ rest) n 4 16 False) = Inr p"
      using len parts eq' by (simp add: chachapoly_crypt_result ct_def POLY1305_TAGLEN_def)
    show "fst (chachapoly_get_length b' q (ct @ rest)) = Inr (PEEK_U32 p)"
      using len parts(1) assms(2) PEEK_take(2) [of p]
      by (simp add: chachapoly_get_length_def ct_def case_prod_beta Let_def flip: crypt_header_def)
  qed
qed

lemma cipher_crypt_chacha:
  assumes "ci_flags (cc_cipher cc) AND CFLAG_CHACHAPOLY \<noteq> 0" "cc_cp_ctx cc = Some c"
  shows "cipher_crypt E cc q src len aadlen authlen =
    map_sum id (\<lambda>dest. (dest, cc\<lparr>cc_cp_ctx := Some (snd (chachapoly_crypt c q src len aadlen authlen (cc_encrypt cc)))\<rparr>))
      (fst (chachapoly_crypt c q src len aadlen authlen (cc_encrypt cc)))"
    and "cipher_get_length cc q src =
    map_sum id (\<lambda>n. (n, cc\<lparr>cc_cp_ctx := Some (snd (chachapoly_get_length c q src))\<rparr>)) (fst (chachapoly_get_length c q src))"
  using assms by (auto simp: cipher_crypt_def cipher_get_length_def split: prod.split sum.split)

interpretation cp_etm: crypt_pair E 4 16 8 chacha_pair for E :: "'e evp_ops"
proof
  fix sc rc sc' :: "'e sshcipher_ctx" and p ct q q' rest
  assume pair: "chacha_pair sc rc" and len: "4 + 8 \<le> length p"
    and enc: "cipher_crypt E sc q p (length p - 4) 4 16 = Inr (ct, sc')"
  from pair obtain a b where ab: "cc_cp_ctx sc = Some a" "cc_cp_ctx rc = Some b" "chachapoly_same_key a b"
    and flags: "ci_flags (cc_cipher sc) AND CFLAG_CHACHAPOLY \<noteq> 0" "ci_flags (cc_cipher rc) AND CFLAG_CHACHAPOLY \<noteq> 0"
      "cc_encrypt sc" "\<not> cc_encrypt rc" by (auto simp: chacha_pair_def)
  obtain ct' where ct': "fst (chachapoly_crypt a q p (length p - 4) 4 16 True) = Inr ct'" "length ct' = length p + 16"
    and dec: "\<And>b' rest. chachapoly_same_key b b' \<Longrightarrow> fst (chachapoly_crypt b' q (ct' @ rest) (length p - 4) 4 16 False) = Inr p"
      "\<And>b' rest. chachapoly_same_key b b' \<Longrightarrow> fst (chachapoly_get_length b' q (ct' @ rest)) = Inr (PEEK_U32 p)"
    using chachapoly_decrypts [OF ab(3), of p "length p - 4" q] len by auto
  have ct: "ct = ct'" and sc': "sc' = sc\<lparr>cc_cp_ctx := Some (snd (chachapoly_crypt a q p (length p - 4) 4 16 True))\<rparr>"
    using enc ct'(1) flags by (auto simp: cipher_crypt_chacha [OF flags(1) ab(1)])
  show "length ct = length p + 16" using ct ct'(2) by simp
  note wf = same_key_streams(4,5) [OF ab(3)]
  define b1 where "b1 = snd (chachapoly_get_length b q (ct @ rest))"
  define b2 where "b2 = snd (chachapoly_crypt b1 q (ct @ rest) (length p - 4) 4 16 False)"
  have b1: "chachapoly_same_key b b1"
    using chachapoly_crypt_keeps_key(2) [OF wf(2)] by (simp add: b1_def chachapoly_same_key_sym)
  have b2: "chachapoly_same_key b1 b2"
    using chachapoly_crypt_keeps_key(1) [OF same_key_streams(5) [OF b1]] by (simp add: b2_def chachapoly_same_key_sym)
  have "chachapoly_same_key (snd (chachapoly_crypt a q p (length p - 4) 4 16 True)) b2"
    using chachapoly_crypt_keeps_key(1) [OF wf(1)] ab(3) b1 b2 by (blast intro: chachapoly_same_key_trans)
  then have "chacha_pair sc' (rc\<lparr>cc_cp_ctx := Some b2\<rparr>)" using flags by (simp add: chacha_pair_def sc')
  moreover have "cipher_get_length rc q (ct @ rest) = Inr (PEEK_U32 p, rc\<lparr>cc_cp_ctx := Some b1\<rparr>)"
    using dec(2) [of b] wf chachapoly_same_key_trans [OF b1 chachapoly_same_key_sym [OF b1]]
    by (simp add: cipher_crypt_chacha(2) [OF flags(2) ab(2)] ct b1_def)
  moreover have "cipher_crypt E (rc\<lparr>cc_cp_ctx := Some b1\<rparr>) q (ct @ rest) (length p - 4) 4 16 = Inr (p, rc\<lparr>cc_cp_ctx := Some b2\<rparr>)"
    using dec(1) [OF b1] flags by (subst cipher_crypt_chacha(1) [where c = b1]) (simp_all add: ct b2_def)
  ultimately show "\<exists>rc'. decrypts E 4 16 8 rc q q' (ct @ rest) p rc' \<and> chacha_pair sc' rc'" by (auto simp: decrypts_def)
qed

lemma none_pair_crypt:
  assumes "none_pair sc rc"
  shows "cipher_crypt E sc q src len aadlen authlen = Inr (take (aadlen + len) src, sc)"
    and "cipher_crypt E rc q src len aadlen authlen = Inr (take (aadlen + len) src, rc)"
    and "4 \<le> length src \<Longrightarrow> cipher_get_length rc q src = Inr (PEEK_U32 src, rc)"
  using assms by (simp_all add: none_pair_def cipher_crypt_def cipher_get_length_def)

interpretation none_etm: crypt_pair E 4 0 8 none_pair for E :: "'e evp_ops"
proof
  fix sc rc sc' :: "'e sshcipher_ctx" and p ct q q' rest
  assume pair: "none_pair sc rc" and len: "4 + 8 \<le> length p"
    and enc: "cipher_crypt E sc q p (length p - 4) 4 0 = Inr (ct, sc')"
  have eq: "ct = p" "sc' = sc" using enc len by (auto simp: none_pair_crypt [OF pair])
  show "length ct = length p + 0" by (simp add: eq)
  show "\<exists>rc'. decrypts E 4 0 8 rc q q' (ct @ rest) p rc' \<and> none_pair sc' rc'"
    using pair len PEEK_take(2) [of "p @ rest"] PEEK_take(2) [of p] by (auto simp: decrypts_def none_pair_crypt [OF pair] eq)
qed

interpretation none_mac: crypt_pair E 0 0 8 none_pair for E :: "'e evp_ops"
proof
  fix sc rc sc' :: "'e sshcipher_ctx" and p ct q q' rest
  assume pair: "none_pair sc rc" and len: "0 + 8 \<le> length p"
    and enc: "cipher_crypt E sc q p (length p - 0) 0 0 = Inr (ct, sc')"
  have eq: "ct = p" "sc' = sc" using enc by (auto simp: none_pair_crypt [OF pair])
  show "length ct = length p + 0" by (simp add: eq)
  show "\<exists>rc'. decrypts E 0 0 8 rc q q' (ct @ rest) p rc' \<and> none_pair sc' rc'"
    using pair len by (auto simp: decrypts_def none_pair_crypt [OF pair] eq)
qed

end
