(* ===== verification/Packet_Link.thy ===== *)
theory Packet_Link
  imports Packet_Queue Cipher_Pair
begin

unbundle bit_operations_syntax

text \<open>
  The two ends of a connection: what \<^verbatim>\<open>ssh_packet_send2_wrapped\<close> puts on the wire, \<^verbatim>\<open>ssh_packet_read_poll2\<close> of the
  other end takes off it.  The proof is made once, over the contract \<open>crypt_pair\<close> of the ciphers; MACs
  enter through the agreement of two ends with the same key.
\<close>

lemma lift_err_Inr [simp]: "lift_err r = Inr a \<longleftrightarrow> r = Inr a"
  by (cases r) simp_all

section \<open>Padding\<close>

lemma padlen_base:
  fixes len block :: nat
  assumes b: "4 \<le> block" "block \<le> 252"
  defines "p0 \<equiv> (of_nat (block - len mod block) :: byte)"
  defines "p \<equiv> (if p0 < 4 then p0 + of_nat block else p0)"
  shows "4 \<le> unat p" "unat p < block + 4" "block dvd len + unat p"
proof -
  define k where "k = block - len mod block"
  have k: "0 < k" "k \<le> block" using b by (simp_all add: k_def)
  have dvd: "block dvd len + k"
  proof -
    have "len mod block \<le> len" "len mod block < block" using b by simp_all
    then have "len + k = (len - len mod block) + block" by (simp add: k_def)
    then show ?thesis by (simp add: minus_mod_eq_mult_div)
  qed
  have p0: "unat p0 = k" using k b by (simp add: p0_def k_def [symmetric] unat_of_nat)
  have lt: "p0 < 4 \<longleftrightarrow> k < 4" using p0 by (simp add: word_less_nat_alt)
  have up: "unat p = (if k < 4 then k + block else k)"
  proof (cases "k < 4")
    case True
    have "unat (p0 + of_nat block) = k + block"
      using True b p0 by (simp add: unat_word_ariths unat_of_nat)
    then show ?thesis using True lt by (simp add: p_def)
  qed (simp add: p_def lt p0)
  show "4 \<le> unat p" "unat p < block + 4" using up k b by (auto split: if_splits)
  have "block dvd len + k + block" using dvd by simp
  then show "block dvd len + unat p" using dvd up by (auto simp: add.assoc split: if_splits)
qed

lemma dvd_ROUNDUP: "y dvd ROUNDUP x y"
  by (simp add: ROUNDUP_def)

definition padlen_ok :: "nat \<Rightarrow> nat \<Rightarrow> byte \<Rightarrow> bool" where
  "padlen_ok block len pad \<longleftrightarrow> 4 \<le> unat pad \<and> block dvd len + unat pad"

lemma packet_padlen_ok:
  assumes b: "4 \<le> block" "block \<le> 252" and r: "packet_padlen block len extra = Inr pad"
  shows "padlen_ok block len pad" and "extra = 0 \<Longrightarrow> unat pad < block + 4"
proof -
  define p0 :: byte where "p0 = of_nat (block - len mod block)"
  define p where "p = (if p0 < 4 then p0 + of_nat block else p0)"
  note base = padlen_base [OF b, of len, folded p0_def, folded p_def]
  have r: "(if extra = 0 then Inr p
      else let ep = (of_nat (ROUNDUP (unat extra) block) :: byte) in
        if ep < extra then Inl (Perr SSH_ERR_INVALID_ARGUMENT)
        else let tmp = (of_nat ((len + unat p) mod unat ep) :: byte) in
          if tmp > ep then Inl (Perr SSH_ERR_INVALID_ARGUMENT)
          else let padlen' = p + (ep - tmp) in
            if padlen' < p then Inl (Perr SSH_ERR_INVALID_ARGUMENT) else Inr padlen') = Inr pad"
    using r unfolding packet_padlen_def Let_def p0_def [symmetric] p_def [symmetric] .
  show "unat pad < block + 4" if "extra = 0" using r that base by simp
  show "padlen_ok block len pad"
  proof (cases "extra = 0")
    case True
    then show ?thesis using r base by (simp add: padlen_ok_def)
  next
    case False
    define n where "n = ROUNDUP (unat extra) block"
    define ep :: byte where "ep = of_nat n"
    define tmp :: byte where "tmp = of_nat ((len + unat p) mod unat ep)"
    have c: "\<not> ep < extra" "\<not> tmp > ep" "\<not> p + (ep - tmp) < p" "pad = p + (ep - tmp)"
      using r False unfolding Let_def n_def [symmetric] ep_def [symmetric] tmp_def [symmetric] by (auto split: if_splits)
    have x: "unat extra < 256" "0 < unat extra" using unsigned_less [of extra] False by (simp_all add: unat_gt_0)
    have ep0: "0 < unat ep" using c(1) x(2) by (simp add: word_less_nat_alt)
    have n: "block dvd n" by (simp add: n_def dvd_ROUNDUP)
    have "n \<le> unat extra + (block - 1)"
      using x b by (simp add: n_def ROUNDUP_def size_add_def SIZE_MAX_def)
    then have "n < 512" using x b by simp
    have up: "unat ep = n"
    proof (rule ccontr)
      assume "unat ep \<noteq> n"
      moreover have "unat ep = n mod 256" by (simp add: ep_def unat_of_nat)
      ultimately have "256 \<le> n" by (metis mod_less not_le)
      moreover from this have "unat ep = n - 256" using \<open>unat ep = n mod 256\<close> \<open>n < 512\<close> by (simp add: mod_if)
      moreover have "n - 256 < unat extra" using \<open>n \<le> unat extra + (block - 1)\<close> b \<open>256 \<le> n\<close> x by arith
      ultimately show False using c(1) by (simp add: word_less_nat_alt)
    qed
    have tn: "unat tmp = (len + unat p) mod n"
    proof -
      have "(len + unat p) mod n < n" using ep0 up by simp
      moreover have "unat ep < 256" using unsigned_less [of ep] by simp
      ultimately have "(len + unat p) mod n < 256" using up by simp
      then show ?thesis by (simp add: tmp_def up unat_of_nat)
    qed
    have "unat (ep - tmp) = n - (len + unat p) mod n"
      using tn up c(2) by (simp add: unat_sub_if' word_less_nat_alt)
    moreover have "unat pad = unat p + unat (ep - tmp)"
      using c(3) unfolding c(4) not_less unat_plus_simple .
    ultimately have up': "unat pad = unat p + (n - (len + unat p) mod n)" by simp
    have "block dvd (len + unat p) mod n" using base(3) n by (simp add: dvd_mod_iff)
    then have "block dvd n - (len + unat p) mod n" using n by (simp add: dvd_diff_nat)
    then show ?thesis using base up' by (simp add: padlen_ok_def flip: add.assoc)
  qed
qed

section \<open>Two ends with the same keys\<close>

text \<open>The MAC contexts of the two ends.\<close>

definition mac_match :: "mac_ops \<Rightarrow> sshmac \<Rightarrow> sshmac \<Rightarrow> bool" where
  "mac_match P a b \<longleftrightarrow>
     mc_enabled a = mc_enabled b \<and> mc_etm a = mc_etm b \<and>
     (mc_enabled a \<longrightarrow> (\<exists>m key. mac_keyed P m key a \<and> mac_keyed P m key b))"

definition keys_match :: "mac_ops \<Rightarrow> newkeys option \<Rightarrow> newkeys option \<Rightarrow> bool" where
  "keys_match P nko nki \<longleftrightarrow>
     (case (nko, nki) of
        (None, None) \<Rightarrow> True
      | (Some a, Some b) \<Rightarrow>
          en_cipher (nk_enc a) = en_cipher (nk_enc b) \<and> en_block_size (nk_enc a) = en_block_size (nk_enc b) \<and>
          \<not> co_enabled (nk_comp a) \<and> \<not> co_enabled (nk_comp b) \<and>
          (cipher_authlen (en_cipher (nk_enc a)) = 0 \<longrightarrow> mac_match P (nk_mac a) (nk_mac b))
      | _ \<Rightarrow> False)"

lemma keys_match_same:
  assumes "keys_match P nko nki"
  shows "keys_authlen nki = keys_authlen nko" "keys_block_size nki = keys_block_size nko" "keys_aadlen nki = keys_aadlen nko"
    "\<not> keys_compress nko" "\<not> keys_compress nki"
    "rel_option (mac_match P) (active_mac nko) (active_mac nki)"
  using assms
  by (auto simp: keys_match_def keys_authlen_def keys_block_size_def keys_aadlen_def keys_compress_def active_mac_def mac_match_def
      split: option.splits)

lemma put_mac_match:
  assumes "keys_match P nko nki" "active_mac nko = Some a" "active_mac nki = Some b" "mac_match P a' b'"
  shows "keys_match P (put_mac a' nko) (put_mac b' nki)"
  using assms by (auto simp: keys_match_def put_mac_def split: option.splits)

lemma put_mac_self [simp]: "active_mac nko = Some m \<Longrightarrow> put_mac m nko = nko"
  by (auto simp: active_mac_def put_mac_def split: option.splits if_splits)

text \<open>
  What the receiver needs of a tag: it accepts it, and the contexts still match.  The tag is of the clear text, or of the
  cipher text in the encrypt-then-MAC mode.
\<close>

definition tag_accepted ::
    "mac_ops \<Rightarrow> newkeys option \<Rightarrow> newkeys option \<Rightarrow> 32 word \<Rightarrow> byte list \<Rightarrow> byte list \<Rightarrow> byte list \<Rightarrow> bool" where
  "tag_accepted P nko' nki q p ct tag \<longleftrightarrow>
     length tag = keys_maclen nki \<and>
     (case active_mac nki of
        None \<Rightarrow> keys_match P nko' nki
      | Some m \<Rightarrow>
          if mc_enabled m
          then \<forall>rest. \<exists>m'. mac_check P m q (if mc_etm m then ct else p) (tag @ rest) (mc_mac_len m) = Inr m' \<and>
                 keys_match P nko' (put_mac m' nki)
          else keys_match P nko' nki)"

lemma mac_tag_accepted:
  assumes P: "mac_sizes P" and k: "keys_match P nko nki" and a: "active_mac nko = Some a" "mc_enabled a"
    and c: "mac_compute P a q (if mc_etm a then ct else p) SSH_DIGEST_MAX_LENGTH = Inr (tag, a')"
  shows "tag_accepted P (put_mac a' nko) nki q p ct (take (mc_mac_len a') tag)"
proof -
  from keys_match_same(6) [OF k] a(1) obtain b where b: "active_mac nki = Some b" and m: "mac_match P a b"
    by (auto elim: option.rel_cases)
  from m a(2) obtain mm key where keyed: "mac_keyed P mm key a" "mac_keyed P mm key b"
    and same: "mc_enabled b" "mc_etm b = mc_etm a" by (auto simp: mac_match_def)
  let ?d = "if mc_etm a then ct else p"
  obtain a1 where a1: "mac_compute P a q ?d SSH_DIGEST_MAX_LENGTH = Inr (mac_value P mm key q ?d, a1)"
    "mac_keyed P mm key a1" "length (mac_value P mm key q ?d) = mac_tag_len mm" using mac_compute_keyed [OF P keyed(1)] by metis
  with c have tag: "tag = mac_value P mm key q ?d" "a' = a1" by simp_all
  have len: "mc_mac_len a' = mac_tag_len mm" "mc_mac_len b = mac_tag_len mm"
    using a1(2) keyed(2) tag by (simp_all add: mac_keyed_def)
  have "\<exists>m'. mac_check P b q ?d (tag @ rest) (mc_mac_len b) = Inr m' \<and> keys_match P (put_mac a' nko) (put_mac m' nki)" for rest
  proof -
    obtain b' where b': "mac_check P b q ?d (tag @ rest) (mc_mac_len b) = Inr b'" "mac_keyed P mm key b'"
      using mac_check_keyed [OF P keyed(2), of "mc_mac_len b" "tag @ rest" q ?d] len a1(3) tag by auto
    have "mac_match P a' b'"
      using mac_check_same [OF b'(1)] mac_compute_same [OF c] b'(2) a1(2) tag(2) same a(2) by (auto simp: mac_match_def)
    then show ?thesis using put_mac_match [OF k a(1) b] b'(1) by blast
  qed
  then show ?thesis
    using b same len a1(3) tag by (simp add: tag_accepted_def keys_maclen_def)
qed

lemma no_tag_accepted:
  assumes k: "keys_match P nko nki" and a: "case active_mac nko of None \<Rightarrow> True | Some a \<Rightarrow> \<not> mc_enabled a"
  shows "tag_accepted P nko nki q p ct []"
proof -
  have "case active_mac nki of None \<Rightarrow> True | Some a \<Rightarrow> \<not> mc_enabled a"
    using keys_match_same(6) [OF k] a by (auto simp: mac_match_def elim!: option.rel_cases)
  then show ?thesis using k by (auto simp: tag_accepted_def keys_maclen_def split: option.splits)
qed

lemma send_protect_tag:
  assumes P: "mac_sizes (pv_mac V)" and k: "keys_match (pv_mac V) (s_newkeys_out s) nki" and r: "send_protect V s = Inr t"
  defines "nko \<equiv> s_newkeys_out s" and "p \<equiv> s_outgoing_packet s" and "q \<equiv> ps_seqnr (s_p_send s)"
  obtains ct cc tag nko' where
    "cipher_crypt (pv_evp V) (s_send_context s) q p (length p - keys_aadlen nko) (keys_aadlen nko) (keys_authlen nko) = Inr (ct, cc)"
    and "t = s\<lparr>s_send_context := cc, s_output := s_output s @ ct @ tag, s_newkeys_out := nko'\<rparr>"
    and "length ct = length p + keys_authlen nko \<Longrightarrow> tag_accepted (pv_mac V) nko' nki q p ct tag"
proof -
  obtain macbuf mac where m1: "(case active_mac nko of
               Some m \<Rightarrow> if mc_enabled m \<and> \<not> mc_etm m
                         then map_sum Perr (\<lambda>(t, m). (t, Some m)) (mac_compute (pv_mac V) m q p SSH_DIGEST_MAX_LENGTH)
                         else Inr ([], Some m)
             | None \<Rightarrow> Inr ([], None)) = Inr (macbuf, mac)"
    using r unfolding send_protect_def Let_def nko_def p_def q_def by (auto simp: rbind_eq_Inr)
  obtain ct cc where c: "cipher_crypt (pv_evp V) (s_send_context s) q p (length p - keys_aadlen nko) (keys_aadlen nko) (keys_authlen nko) = Inr (ct, cc)"
    using r m1 unfolding send_protect_def Let_def nko_def [symmetric] p_def [symmetric] q_def [symmetric]
    by (auto simp: rbind_eq_Inr split: if_splits)
  obtain macbuf' mac' where m2: "(case mac of
               Some m \<Rightarrow> if mc_enabled m \<and> mc_etm m
                         then map_sum Perr (\<lambda>(t, m). (t, Some m)) (mac_compute (pv_mac V) m q (take (length p) ct) SSH_DIGEST_MAX_LENGTH)
                         else Inr (macbuf, Some m)
             | None \<Rightarrow> Inr ([], None)) = Inr (macbuf', mac')"
    using r m1 c unfolding send_protect_def Let_def nko_def [symmetric] p_def [symmetric] q_def [symmetric]
    by (auto simp: rbind_eq_Inr split: if_splits)
  obtain out where o: "(case mac' of
               Some m \<Rightarrow> if mc_enabled m then buf_append (s_output s @ ct) (take (mc_mac_len m) macbuf') else Inr (s_output s @ ct)
             | None \<Rightarrow> Inr (s_output s @ ct)) = Inr out"
    and t: "t = s\<lparr>s_send_context := cc, s_output := out,
             s_newkeys_out := (case mac' of Some m \<Rightarrow> put_mac m nko | None \<Rightarrow> nko)\<rparr>"
    using r m1 c m2 unfolding send_protect_def Let_def nko_def [symmetric] p_def [symmetric] q_def [symmetric]
    by (auto simp: rbind_eq_Inr split: if_splits)
  have k: "keys_match (pv_mac V) nko nki" using k by (simp add: nko_def)
  show thesis
  proof (cases "active_mac nko")
    case None
    with m1 m2 o have "out = s_output s @ ct" "mac' = None" by auto
    then show thesis using t c no_tag_accepted [OF k] None by (intro that [of ct cc nko "[]"]) auto
  next
    case (Some a)
    show thesis
    proof (cases "mc_enabled a")
      case False
      have "macbuf = []" "mac = Some a" using m1 Some False by simp_all
      with m2 False have "macbuf' = []" "mac' = Some a" by simp_all
      with o False have "out = s_output s @ ct" "mac' = Some a" by simp_all
      then show thesis using t c no_tag_accepted [OF k] Some False by (intro that [of ct cc nko "[]"]) auto
    next
      case True
      have auth: "keys_authlen nko = 0" using Some by (auto simp: active_mac_def keys_authlen_def split: option.splits if_splits)
      obtain a' where a': "mac_compute (pv_mac V) a q (if mc_etm a then take (length p) ct else p) SSH_DIGEST_MAX_LENGTH = Inr (macbuf', a')"
        and mac': "mac' = Some a'" and en: "mc_enabled a'"
      proof (cases "mc_etm a")
        case etm: True
        have "mac = Some a" using m1 Some etm by simp
        with m2 etm True obtain a' where "mac_compute (pv_mac V) a q (take (length p) ct) SSH_DIGEST_MAX_LENGTH = Inr (macbuf', a')" "mac' = Some a'"
          by (auto simp: map_sum_def split: sum.splits)
        then show thesis using that etm True mac_compute_same by metis
      next
        case False
        with m1 Some True obtain a' where c1: "mac_compute (pv_mac V) a q p SSH_DIGEST_MAX_LENGTH = Inr (macbuf, a')" "mac = Some a'"
          by (auto simp: map_sum_def split: sum.splits)
        with m2 mac_compute_same [OF c1(1)] False have "macbuf' = macbuf" "mac' = Some a'" by auto
        then show thesis using that False True c1 mac_compute_same [OF c1(1)] by simp
      qed
      have "out = s_output s @ ct @ take (mc_mac_len a') macbuf'"
        using o mac' en by (auto simp: buf_append_def buf_appends_eq lift_err_def split: if_splits)
      moreover have "mac_compute (pv_mac V) a q (if mc_etm a then ct else p) SSH_DIGEST_MAX_LENGTH = Inr (macbuf', a')" if "length ct = length p"
        using a' that by (cases "mc_etm a") simp_all
      ultimately show thesis
        using t c mac' auth mac_tag_accepted [OF P k Some True, of q ct p macbuf' a'] by (intro that [of ct cc "put_mac a' nko" "take (mc_mac_len a') macbuf'"]) auto
    qed
  qed
qed

text \<open>A packet on its way: length, padding length, the payload with its type, and the padding.\<close>

definition frame :: "byte list \<Rightarrow> byte list \<Rightarrow> byte list" where
  "frame body padding = POKE_U32 (of_nat (1 + length body + length padding)) @ [of_nat (length padding)] @ body @ padding"

lemma length_frame [simp]: "length (frame body padding) = 5 + length body + length padding"
  by (simp add: frame_def)

lemma send_pad_frame:
  assumes r: "send_pad V s = Inr t" and b: "4 \<le> keys_block_size (s_newkeys_out s)" "keys_block_size (s_newkeys_out s) \<le> 252"
    and len: "5 \<le> length (s_outgoing_packet s)"
  obtains padding where "t = s\<lparr>s_extra_pad := 0, s_outgoing_packet := frame (drop 5 (s_outgoing_packet s)) padding\<rparr>"
    and "4 \<le> length padding" "length padding < 256"
    and "keys_block_size (s_newkeys_out s) dvd
      length (frame (drop 5 (s_outgoing_packet s)) padding) - keys_aadlen (s_newkeys_out s)"
proof -
  obtain pad where
    pad: "packet_padlen (keys_block_size (s_newkeys_out s)) (length (s_outgoing_packet s) - keys_aadlen (s_newkeys_out s)) (s_extra_pad s) = Inr pad"
    using r by (auto simp: send_pad_def Let_def rbind_eq_Inr)
  define padding where "padding = (if s_newkeys_out s \<noteq> None \<and> \<not> cipher_ctx_is_plaintext (s_send_context s)
    then map (pv_rnd V (length (s_sent s))) [0..<unat pad] else replicate (unat pad) 0)"
  have padding: "length padding = unat pad" by (simp add: padding_def)
  have t: "t = s\<lparr>s_extra_pad := 0, s_outgoing_packet := POKE_U32 (of_nat (length (s_outgoing_packet s @ padding) - 4)) @ [pad] @
      drop 5 (s_outgoing_packet s @ padding)\<rparr>"
    using r unfolding send_pad_def Let_def pad rbind_simps padding_def [symmetric]
    by (simp add: buf_append_def buf_appends_eq split: if_splits)
  note ok = packet_padlen_ok(1) [OF b pad, unfolded padlen_ok_def]
  have aad: "keys_aadlen (s_newkeys_out s) \<le> 4" by (simp add: keys_aadlen_def)
  have "pad = of_nat (length padding)" by (simp add: padding)
  moreover have "1 + length (drop 5 (s_outgoing_packet s)) + length padding = length (s_outgoing_packet s @ padding) - 4"
    using len by simp
  ultimately have t: "t = s\<lparr>s_extra_pad := 0, s_outgoing_packet := frame (drop 5 (s_outgoing_packet s)) padding\<rparr>"
    using len t by (simp add: frame_def)
  have "unat pad < 256" using unsigned_less [of pad] by simp
  moreover have "length (frame (drop 5 (s_outgoing_packet s)) padding) - keys_aadlen (s_newkeys_out s) =
      length (s_outgoing_packet s) - keys_aadlen (s_newkeys_out s) + unat pad"
    using len aad by (simp add: padding)
  ultimately show thesis using that [OF t] ok by (simp add: padding)
qed

lemma send2_wrapped_frame:
  assumes P: "mac_sizes (pv_mac V)" and k: "keys_match (pv_mac V) (s_newkeys_out s) nki"
    and b: "4 \<le> keys_block_size (s_newkeys_out s)" "keys_block_size (s_newkeys_out s) \<le> 252"
    and len: "6 \<le> length (s_outgoing_packet s)"
    and ty: "s_outgoing_packet s ! 5 \<noteq> SSH2_MSG_NEWKEYS" "s_outgoing_packet s ! 5 \<noteq> SSH2_MSG_USERAUTH_SUCCESS"
    and r: "ssh_packet_send2_wrapped V s = Inr t"
  defines "nko \<equiv> s_newkeys_out s" and "q \<equiv> ps_seqnr (s_p_send s)"
  obtains padding p ct tag where "p = frame (drop 5 (s_outgoing_packet s)) padding"
    and "4 \<le> length padding" "length padding < 256" "keys_block_size nko dvd length p - keys_aadlen nko"
    and "cipher_crypt (pv_evp V) (s_send_context s) q p (length p - keys_aadlen nko) (keys_aadlen nko) (keys_authlen nko) =
      Inr (ct, s_send_context t)"
    and "s_output t = s_output s @ ct @ tag" "ps_seqnr (s_p_send t) = q + 1"
    and "length ct = length p + keys_authlen nko \<Longrightarrow> tag_accepted (pv_mac V) (s_newkeys_out t) nki q p ct tag"
proof -
  note nc = keys_match_same(4) [OF k]
  from r nc obtain a c n where pad: "send_pad V s = Inr a" and prot: "send_protect V a = Inr c"
    and cnt: "count_packet (s_kex c) (length (s_outgoing_packet c)) (keys_block_size (s_newkeys_out s)) (s_p_send c) = Inr n"
    and t: "send_effects V (s_outgoing_packet s ! 5) (c\<lparr>s_p_send := n, s_outgoing_packet := [],
      s_sent := s_sent c @ [(s_outgoing_packet s ! 5, drop 6 (s_outgoing_packet s), ps_seqnr (s_p_send s))]\<rparr>) = Inr t"
    unfolding ssh_packet_send2_wrapped_def Let_def rbind_eq_Inr send_compress_def by auto
  have "5 \<le> length (s_outgoing_packet s)" using len by simp
  from send_pad_frame [OF pad b this] obtain padding where
    a: "a = s\<lparr>s_extra_pad := 0, s_outgoing_packet := frame (drop 5 (s_outgoing_packet s)) padding\<rparr>"
    and pl: "4 \<le> length padding" "length padding < 256"
      "keys_block_size nko dvd length (frame (drop 5 (s_outgoing_packet s)) padding) - keys_aadlen nko"
    unfolding nko_def by metis
  let ?p = "frame (drop 5 (s_outgoing_packet s)) padding"
  have "keys_match (pv_mac V) (s_newkeys_out a) nki" using k by (simp add: a)
  from send_protect_tag [OF P this prot] obtain ct cc tag nko' where
    ct: "cipher_crypt (pv_evp V) (s_send_context s) q ?p (length ?p - keys_aadlen nko) (keys_aadlen nko) (keys_authlen nko) = Inr (ct, cc)"
    and c: "c = a\<lparr>s_send_context := cc, s_output := s_output s @ ct @ tag, s_newkeys_out := nko'\<rparr>"
    and tag: "length ct = length ?p + keys_authlen nko \<Longrightarrow> tag_accepted (pv_mac V) nko' nki q ?p ct tag"
    unfolding nko_def q_def by (simp add: a) metis
  have "t = c\<lparr>s_p_send := n, s_outgoing_packet := [],
      s_sent := s_sent c @ [(s_outgoing_packet s ! 5, drop 6 (s_outgoing_packet s), ps_seqnr (s_p_send s))]\<rparr>"
    using t ty by (simp add: send_effects_def)
  then have "s_output t = s_output s @ ct @ tag" "ps_seqnr (s_p_send t) = q + 1" "s_newkeys_out t = nko'" "s_send_context t = cc"
    using count_packet_step [OF cnt] by (simp_all add: c a q_def)
  then show thesis using that [OF refl pl] ct tag by simp
qed

section \<open>Reading what was sent\<close>

definition frame_ok :: "nat \<Rightarrow> nat \<Rightarrow> byte list \<Rightarrow> byte list \<Rightarrow> bool" where
  "frame_ok block aadlen body padding \<longleftrightarrow>
     4 \<le> block \<and> block \<le> 252 \<and> body \<noteq> [] \<and> 4 \<le> length padding \<and> length padding < 256 \<and>
     block dvd length (frame body padding) - aadlen \<and> length body + 256 \<le> PACKET_MAX_SIZE"

lemma frame_length:
  assumes "frame_ok block aadlen body padding"
  defines "n \<equiv> of_nat (1 + length body + length padding) :: 32 word"
  shows "PEEK_U32 (frame body padding) = n" "4 \<le> k \<Longrightarrow> PEEK_U32 (take k (frame body padding)) = n"
    "unat n = 1 + length body + length padding" "\<not> bad_packlen n" "n \<noteq> 0" "unat (n + 4) = length (frame body padding)"
proof -
  show peek: "PEEK_U32 (frame body padding) = n" by (simp only: frame_def n_def PEEK_POKE_U32)
  show "PEEK_U32 (take k (frame body padding)) = n" if "4 \<le> k"
    using peek PEEK_take(2) [of "take k (frame body padding)"] PEEK_take(2) [of "frame body padding"] that by (simp add: min_def)
  have small: "1 + length body + length padding \<le> PACKET_MAX_SIZE" using assms(1) by (simp add: frame_ok_def)
  show u: "unat n = 1 + length body + length padding"
    using small unfolding n_def PACKET_MAX_SIZE_def unat_of_nat by simp
  show "\<not> bad_packlen n" unfolding bad_packlen_def u using assms(1) small by (cases body) (auto simp: frame_ok_def)
  show "n \<noteq> 0" using u by auto
  have "unat (n + 4) = unat n + 4" by (rule unat_packlen_4) (use u small in simp)
  then show "unat (n + 4) = length (frame body padding)" unfolding u by simp
qed

text \<open>The part of the packet that is decrypted to find the length.\<close>

definition head_len :: "nat \<Rightarrow> nat \<Rightarrow> nat" where
  "head_len aadlen block = (if aadlen \<noteq> 0 then 0 else block)"

lemma read_length_frame:
  fixes r :: "('e, 'z) ssh"
  assumes f: "frame_ok (keys_block_size (s_newkeys_in r)) (keys_aadlen (s_newkeys_in r)) body padding"
  defines "p \<equiv> frame body padding" and "aadlen \<equiv> keys_aadlen (s_newkeys_in r)" and "authlen \<equiv> keys_authlen (s_newkeys_in r)"
    and "block \<equiv> keys_block_size (s_newkeys_in r)" and "q \<equiv> ps_seqnr (s_p_read r)"
  assumes d: "decrypts (pv_evp V) aadlen authlen block (s_receive_context r) q (ps_seqnr (s_p_send r)) (s_input r) p rc'"
    and len: "length p \<le> length (s_input r)" and r: "s_packlen r = 0"
  defines "k \<equiv> head_len aadlen block"
  obtains rc1 where "read_length V r = Inr (True, r\<lparr>s_packlen := of_nat (1 + length body + length padding), s_receive_context := rc1,
      s_incoming_packet := take k p, s_input := drop k (s_input r)\<rparr>)"
    and "cipher_crypt (pv_evp V) rc1 q (drop k (s_input r)) (length p - aadlen - k) aadlen authlen = Inr (drop k p, rc')"
    and "k \<le> length p"
proof (cases "aadlen = 0")
  case False
  with d obtain rc1 where rc1: "cipher_get_length (s_receive_context r) q (s_input r) = Inr (PEEK_U32 p, rc1)"
    "cipher_crypt (pv_evp V) rc1 q (s_input r) (length p - aadlen) aadlen authlen = Inr (p, rc')"
    by (auto simp: decrypts_def)
  show thesis
    using that [of rc1] False rc1 r frame_length(1,4) [OF f]
    by (simp add: read_length_def Let_def aadlen_def q_def p_def k_def head_len_def)
next
  case True
  with d obtain rc1 where rc1: "cipher_crypt (pv_evp V) (s_receive_context r) (ps_seqnr (s_p_send r)) (s_input r) block 0 0 = Inr (take block p, rc1)"
    "cipher_crypt (pv_evp V) rc1 q (drop block (s_input r)) (length p - block) 0 authlen = Inr (drop block p, rc')"
    by (auto simp: decrypts_def)
  have b: "4 \<le> block" "block dvd length p" using f True by (simp_all add: frame_ok_def block_def p_def aadlen_def)
  have "block \<le> length p" using b(2) by (rule dvd_imp_le) (simp add: p_def)
  then show thesis
    using that [of rc1] True rc1 r frame_length(4) [OF f] frame_length(2) [OF f b(1)] len
    by (simp add: read_length_def Let_def aadlen_def q_def p_def k_def head_len_def block_def)
qed

text \<open>The keys of the receiver once the tags of the encrypt-then-MAC mode have been checked.\<close>

definition etm_checked ::
    "mac_ops \<Rightarrow> newkeys option \<Rightarrow> newkeys option \<Rightarrow> 32 word \<Rightarrow> byte list \<Rightarrow> byte list \<Rightarrow> newkeys option \<Rightarrow> bool" where
  "etm_checked P nko' nki q ct theirs nki1 \<longleftrightarrow>
     (case active_mac nki of
        None \<Rightarrow> nki1 = nki \<and> keys_match P nko' nki
      | Some m \<Rightarrow>
          if mc_enabled m \<and> mc_etm m
          then \<exists>m'. nki1 = put_mac m' nki \<and> mac_check P m q ct theirs (mc_mac_len m) = Inr m' \<and> keys_match P nko' nki1
          else nki1 = nki)"

lemma read_check_etm_tag:
  assumes nki: "s_newkeys_in r = nki" and q: "ps_seqnr (s_p_read r) = q" and tag: "tag_accepted (pv_mac V) nko' nki q p ct tag"
    and inp: "keys_aadlen nki \<noteq> 0 \<Longrightarrow> s_input r = ct @ tag @ rest \<and> keys_aadlen nki + need = length p"
    and ct: "length ct = length p + keys_authlen nki"
  obtains nki1 where "read_check_etm V need r = Inr (r\<lparr>s_newkeys_in := nki1\<rparr>)" and
    "etm_checked (pv_mac V) nko' nki q ct (tag @ rest) nki1"
proof (cases "active_mac nki")
  case None
  then show thesis using that [of nki] nki tag by (simp add: read_check_etm_def Let_def tag_accepted_def etm_checked_def)
next
  case (Some m)
  show thesis
  proof (cases "mc_enabled m \<and> mc_etm m")
    case False
    then show thesis using that [of nki] nki Some by (auto simp: read_check_etm_def Let_def etm_checked_def)
  next
    case True
    have aad: "keys_aadlen nki \<noteq> 0" using True Some by (simp add: keys_aadlen_def)
    have auth: "keys_authlen nki = 0" using Some by (auto simp: active_mac_def keys_authlen_def split: option.splits if_splits)
    from tag True Some obtain m' where m': "mac_check (pv_mac V) m q ct (tag @ rest) (mc_mac_len m) = Inr m'"
      "keys_match (pv_mac V) nko' (put_mac m' nki)" by (auto simp: tag_accepted_def etm_checked_def)
    have "read_check_etm V need r = Inr (r\<lparr>s_newkeys_in := put_mac m' nki\<rparr>)"
      using True Some nki q m'(1) inp [OF aad] ct auth by (simp add: read_check_etm_def Let_def keys_maclen_def)
    then show thesis using that Some True m' by (auto simp: etm_checked_def)
  qed
qed

lemma read_check_mac_tag:
  assumes q: "ps_seqnr (s_p_read r) = q" and tag: "tag_accepted (pv_mac V) nko' nki q p ct tag"
    and nki1: "etm_checked (pv_mac V) nko' nki q ct (tag @ rest) (s_newkeys_in r)"
    and r: "s_input r = tag @ rest" "s_incoming_packet r = p"
  obtains nki' where "read_check_mac V need r = Inr (True, r\<lparr>s_newkeys_in := nki', s_input := rest\<rparr>)" "keys_match (pv_mac V) nko' nki'"
    "keys_block_size nki' = keys_block_size nki"
proof (cases "active_mac nki")
  case None
  then show thesis using that [of nki] nki1 r tag
    by (simp add: read_check_mac_def Let_def tag_accepted_def etm_checked_def keys_maclen_def)
next
  case (Some m)
  show thesis
  proof (cases "mc_enabled m")
    case False
    then show thesis using that [of nki] nki1 r tag Some
      by (simp add: read_check_mac_def Let_def tag_accepted_def etm_checked_def keys_maclen_def)
  next
    case en: True
    have len: "length tag = mc_mac_len m" using tag Some en by (simp add: tag_accepted_def etm_checked_def keys_maclen_def)
    show thesis
    proof (cases "mc_etm m")
      case True
      with nki1 Some en obtain m' where m': "s_newkeys_in r = put_mac m' nki" "mac_check (pv_mac V) m q ct (tag @ rest) (mc_mac_len m) = Inr m'"
        "keys_match (pv_mac V) nko' (put_mac m' nki)" by (auto simp: etm_checked_def)
      note same = mac_check_same [OF m'(2)]
      show thesis
        using that [of "put_mac m' nki"] put_mac_keys(1,3) [OF Some same] same en True m'(1,3) len r
        by (simp add: read_check_mac_def Let_def)
    next
      case False
      with tag en Some obtain m' where m': "mac_check (pv_mac V) m q p (tag @ rest) (mc_mac_len m) = Inr m'"
        "keys_match (pv_mac V) nko' (put_mac m' nki)" by (auto simp: tag_accepted_def etm_checked_def)
      have nk: "s_newkeys_in r = nki" using nki1 Some False by (simp add: etm_checked_def)
      show thesis
        using that [of "put_mac m' nki"] put_mac_keys(3) [OF Some mac_check_same [OF m'(1)]] nk m' len r Some en False q
        by (simp add: read_check_mac_def Let_def keys_maclen_def)
    qed
  qed
qed

lemma unat_sum_le: "unat (of_nat a + n + of_nat b + of_nat c :: 32 word) \<le> a + unat n + b + c"
proof -
  have "(of_nat a + n + of_nat b + of_nat c :: 32 word) = of_nat (a + unat n + b + c)" by simp
  then show ?thesis by (simp only: unat_of_nat mod_less_eq_dividend)
qed

lemma read_body_frame:
  fixes r :: "('e, 'z) ssh"
  defines "nki \<equiv> s_newkeys_in r"
  defines "aadlen \<equiv> keys_aadlen nki" and "authlen \<equiv> keys_authlen nki" and "block \<equiv> keys_block_size nki"
    and "q \<equiv> ps_seqnr (s_p_read r)"
  defines "k \<equiv> head_len aadlen block"
  assumes f: "frame_ok block aadlen body padding"
  defines "p \<equiv> frame body padding"
  assumes pl: "s_packlen r = of_nat (1 + length body + length padding)"
    and inc: "s_incoming_packet r = take k p" and inp: "s_input r = drop k (ct @ tag @ rest)" and k: "k \<le> length p"
    and ct: "length ct = length p + authlen" and tag: "tag_accepted (pv_mac V) nko' nki q p ct tag"
    and d: "cipher_crypt (pv_evp V) (s_receive_context r) q (s_input r) (length p - aadlen - k) aadlen authlen = Inr (drop k p, rc')"
  obtains nki' where "read_body V r = Inr (True, r\<lparr>s_receive_context := rc', s_incoming_packet := p, s_newkeys_in := nki', s_input := rest\<rparr>)"
    and "keys_match (pv_mac V) nko' nki'" "keys_block_size nki' = block"
proof -
  note fl = frame_length [OF f]
  have b: "4 \<le> block" "block dvd length p - aadlen" using f by (simp_all add: frame_ok_def p_def)
  have aad: "aadlen = 0 \<or> aadlen = 4" by (simp add: aadlen_def keys_aadlen_def)
  have small: "length p \<le> PACKET_MAX_SIZE + 4" using f by (simp add: frame_ok_def p_def)
  have need: "unat (read_need r) = length p - aadlen - k"
  proof (cases "aadlen = 0")
    case False
    then show ?thesis using fl(3) aad pl by (simp add: read_need_def aadlen_def nki_def p_def k_def head_len_def)
  next
    case True
    have kb: "k = block" using True by (simp add: k_def head_len_def)
    have "read_need r = of_nat (length p - block)"
      using True k kb pl by (simp add: read_need_def aadlen_def nki_def block_def p_def of_nat_diff algebra_simps)
    moreover have "length p - block < 2 ^ 32" using small by (simp add: PACKET_MAX_SIZE_def)
    ultimately show ?thesis using True kb by (simp add: unat_of_nat)
  qed
  have nd: "aadlen + unat (read_need r) + k = length p"
    using need k aad by (auto simp: k_def head_len_def p_def split: if_splits)
  have mod: "unat (read_need r) mod block = 0"
    using b(2) need by (auto simp: k_def head_len_def dvd_eq_mod_eq_0 [symmetric] dvd_diff_nat)
  have taglen: "length tag = keys_maclen nki" using tag by (simp add: tag_accepted_def)
  have "length (s_input r) = aadlen + unat (read_need r) + authlen + length tag + length rest"
    using inp ct nd by simp
  then have long: "\<not> length (s_input r) < unat (of_nat aadlen + read_need r + of_nat authlen + of_nat (keys_maclen nki) :: 32 word)"
    using unat_sum_le [of aadlen "read_need r" authlen "keys_maclen nki"] taglen by simp
  have einp: "s_input r = ct @ tag @ rest \<and> keys_aadlen nki + unat (read_need r) = length p" if "keys_aadlen nki \<noteq> 0"
    using inp nd that by (simp add: k_def head_len_def aadlen_def)
  obtain nki1 where etm: "read_check_etm V (unat (read_need r)) r = Inr (r\<lparr>s_newkeys_in := nki1\<rparr>)" and
    nki1: "etm_checked (pv_mac V) nko' nki q ct (tag @ rest) nki1"
    by (rule read_check_etm_tag [OF meta_eq_to_obj_eq [OF nki_def, symmetric] meta_eq_to_obj_eq [OF q_def, symmetric] tag einp ct [unfolded authlen_def]])
  have same: "keys_aadlen nki1 = aadlen" "keys_authlen nki1 = authlen"
    using nki1 put_mac_keys(2,4) mac_check_same by (auto simp: etm_checked_def aadlen_def authlen_def split: option.splits if_splits)
  let ?r2 = "r\<lparr>s_newkeys_in := nki1, s_receive_context := rc', s_incoming_packet := p, s_input := tag @ rest\<rparr>"
  have dec: "read_decrypt V (unat (read_need r)) (r\<lparr>s_newkeys_in := nki1\<rparr>) = Inr ?r2"
  proof -
    have "length (take k p) + (aadlen + unat (read_need r)) = length p" using nd k by simp
    then have "\<not> length (s_incoming_packet r) + (aadlen + unat (read_need r)) > SSHBUF_SIZE_MAX"
      using small inc by (simp add: PACKET_MAX_SIZE_def SSHBUF_SIZE_MAX_def)
    moreover have "drop (aadlen + unat (read_need r) + authlen) (s_input r) = tag @ rest"
      using inp nd ct by (simp add: add.commute)
    ultimately show ?thesis using same d need inc by (simp add: read_decrypt_def Let_def q_def)
  qed
  obtain nki' where mac: "read_check_mac V (unat (read_need r)) ?r2 = Inr (True, ?r2\<lparr>s_newkeys_in := nki', s_input := rest\<rparr>)"
    and m: "keys_match (pv_mac V) nko' nki'" "keys_block_size nki' = keys_block_size nki"
    by (rule read_check_mac_tag [of ?r2 q V nko' nki p ct tag rest "unat (read_need r)"]) (use nki1 tag in \<open>simp_all add: q_def\<close>)
  have "read_body V r = Inr (True, ?r2\<lparr>s_newkeys_in := nki', s_input := rest\<rparr>)"
    using b mod long etm dec mac unfolding read_body_def Let_def nki_def [symmetric] block_def [symmetric] aadlen_def [symmetric] authlen_def [symmetric]
    by simp
  then show thesis using that m by (simp add: block_def)
qed

lemma read_finish_frame:
  fixes r :: "('e, 'z) ssh"
  assumes f: "frame_ok (keys_block_size (s_newkeys_in r)) aadlen (ty # payload) padding"
    and pl: "s_packlen r = of_nat (1 + length (ty # payload) + length padding)" and inc: "s_incoming_packet r = frame (ty # payload) padding"
    and nc: "\<not> keys_compress (s_newkeys_in r)" and ty: "ty \<noteq> 0" "ty \<noteq> SSH2_MSG_NEWKEYS" "ty \<noteq> SSH2_MSG_USERAUTH_SUCCESS"
    and cnt: "ps_seqnr (s_p_read r) + 1 \<noteq> 0" "ps_packets (s_p_read r) + 1 \<noteq> 0"
  obtains n where "ps_seqnr n = ps_seqnr (s_p_read r) + 1"
    and "read_finish V r = rbind (ssh_packet_check_rekey V (r\<lparr>s_p_read := n, s_incoming_packet := payload, s_packlen := 0\<rparr>))
      (\<lambda>s. Inr (Some (ty, ps_seqnr (s_p_read r)), s))"
proof -
  obtain n where n: "count_packet (s_kex r) (unat (s_packlen r + 4)) (keys_block_size (s_newkeys_in r)) (s_p_read r) = Inr n"
    and q: "ps_seqnr n = ps_seqnr (s_p_read r) + 1"
    using cnt by (simp add: count_packet_def)
  have pad: "unat (frame (ty # payload) padding ! 4) = length padding" "4 \<le> length padding"
    using f by (simp_all add: frame_def frame_ok_def nth_append unat_of_nat)
  have body: "drop 5 (frame (ty # payload) padding) = ty # payload @ padding" by (simp add: frame_def)
  have unpad: "read_unpad V (r\<lparr>s_p_read := n\<rparr>) = Inr (r\<lparr>s_p_read := n, s_incoming_packet := ty # payload\<rparr>)"
    using pad inc by (simp add: read_unpad_def Let_def body)
  have min: "\<not> ty < SSH2_MSG_MIN" using ty(1) by (simp add: SSH2_MSG_MIN_def word_less_nat_alt unat_gt_0)
  have "read_finish V r = rbind (read_effects V ty (r\<lparr>s_p_read := n, s_incoming_packet := payload\<rparr>))
      (\<lambda>s. Inr (Some (ty, ps_seqnr (s_p_read r)), s))"
    using n unpad nc min
    by (cases "read_effects V ty (r\<lparr>s_p_read := n, s_incoming_packet := payload\<rparr>)")
      (simp_all add: read_finish_def Let_def read_uncompress_def read_type_def sshpkt_get_u8_def sshpkt_read_def)
  moreover have "read_effects V ty (r\<lparr>s_p_read := n, s_incoming_packet := payload\<rparr>) =
      ssh_packet_check_rekey V (r\<lparr>s_p_read := n, s_incoming_packet := payload, s_packlen := 0\<rparr>)"
    using ty by (simp add: read_effects_def)
  ultimately show thesis using that q by simp
qed

text \<open>The two ends of a connection in step: same sequence number, matching keys and ciphers, and no packet half read.\<close>

definition linked :: "('e sshcipher_ctx \<Rightarrow> 'e sshcipher_ctx \<Rightarrow> bool) \<Rightarrow> mac_ops \<Rightarrow> ('e, 'z) ssh \<Rightarrow> ('e, 'y) ssh \<Rightarrow> bool" where
  "linked pair P s r \<longleftrightarrow>
     ps_seqnr (s_p_send s) = ps_seqnr (s_p_read r) \<and> keys_match P (s_newkeys_out s) (s_newkeys_in r) \<and>
     pair (s_send_context s) (s_receive_context r) \<and> s_packlen r = 0 \<and> s_packet_discard r = 0 \<and> \<not> s_mux r"

text \<open>A packet that neither changes the keys nor starts compression, and fits.\<close>

definition plain_packet :: "byte list \<Rightarrow> byte \<Rightarrow> byte list \<Rightarrow> bool" where
  "plain_packet out ty payload \<longleftrightarrow>
     6 \<le> length out \<and> drop 5 out = ty # payload \<and> ty \<notin> {0, SSH2_MSG_NEWKEYS, SSH2_MSG_USERAUTH_SUCCESS} \<and>
     length payload + 257 \<le> PACKET_MAX_SIZE"

context crypt_pair
begin

lemma read_back:
  fixes s :: "('e, 'z) ssh" and r :: "('e, 'y) ssh"
  assumes P: "mac_sizes (pv_mac V)" and env: "pv_evp V = E" "pv_evp W = E" "pv_mac W = pv_mac V"
    and l: "linked pair (pv_mac V) s r"
    and keys: "keys_aadlen (s_newkeys_out s) = aadlen" "keys_authlen (s_newkeys_out s) = authlen" "keys_block_size (s_newkeys_out s) = block"
    and b: "4 \<le> block" "block \<le> 252"
    and pk: "plain_packet (s_outgoing_packet s) ty payload" and snd: "ssh_packet_send2_wrapped V s = Inr t"
    and inp: "s_input r = drop (length (s_output s)) (s_output t) @ rest"
    and cnt: "ps_seqnr (s_p_read r) + 1 \<noteq> 0" "ps_packets (s_p_read r) + 1 \<noteq> 0"
  shows "\<exists>u. s_incoming_packet u = payload \<and> s_input u = rest \<and> linked pair (pv_mac V) t u \<and>
    ssh_packet_read_poll2 W r =
      rbind (ssh_packet_check_rekey W u) (\<lambda>v. Inr (Some (ty, ps_seqnr (s_p_send s)), v))"
proof -
  define nki where "nki = s_newkeys_in r"
  define q where "q = ps_seqnr (s_p_send s)"
  have km: "keys_match (pv_mac V) (s_newkeys_out s) nki" and q: "ps_seqnr (s_p_read r) = q"
    and pair: "pair (s_send_context s) (s_receive_context r)" and r0: "s_packlen r = 0" "s_packet_discard r = 0" "\<not> s_mux r"
    using l by (simp_all add: linked_def nki_def q_def)
  note same = keys_match_same [OF km]
  have out: "6 \<le> length (s_outgoing_packet s)" "drop 5 (s_outgoing_packet s) = ty # payload"
    and ty: "ty \<noteq> 0" "ty \<noteq> SSH2_MSG_NEWKEYS" "ty \<noteq> SSH2_MSG_USERAUTH_SUCCESS" and size: "length payload + 257 \<le> PACKET_MAX_SIZE"
    using pk by (auto simp: plain_packet_def)
  have ty5: "s_outgoing_packet s ! 5 = ty" using out nth_drop [of 5 "s_outgoing_packet s" 0] by simp
  obtain padding p ct tag where p: "p = frame (ty # payload) padding" and pl: "4 \<le> length padding" "length padding < 256" "block dvd length p - aadlen"
    and crypt: "cipher_crypt E (s_send_context s) q p (length p - aadlen) aadlen authlen = Inr (ct, s_send_context t)"
    and t: "s_output t = s_output s @ ct @ tag" "ps_seqnr (s_p_send t) = q + 1"
    and tag: "length ct = length p + authlen \<Longrightarrow> tag_accepted (pv_mac V) (s_newkeys_out t) nki q p ct tag"
    by (rule send2_wrapped_frame [OF P km _ _ out(1) _ _ snd, unfolded keys env out(2) ty5, folded q_def, OF b ty(2,3)]) blast
  have f: "frame_ok block aadlen (ty # payload) padding"
    using pl b size p by (simp add: frame_ok_def)
  have aad: "aadlen \<le> 4" using keys by (auto simp: keys_aadlen_def)
  have "aadlen + block \<le> length p"
  proof -
    have "0 < length p - aadlen" using aad p by simp
    then have "block \<le> length p - aadlen" using pl(3) by (simp add: dvd_imp_le)
    then show ?thesis using aad p by simp
  qed
  note enc = pair this pl(3) crypt
  note ctlen = encrypted_length [OF enc]
  obtain rc' where rc': "decrypts E aadlen authlen block (s_receive_context r) q (ps_seqnr (s_p_send r)) (ct @ tag @ rest) p rc'"
    and pair': "pair (s_send_context t) rc'" using decrypted [OF enc] by metis
  have inp: "s_input r = ct @ tag @ rest" using inp t(1) by simp
  have kr: "keys_aadlen (s_newkeys_in r) = aadlen" "keys_authlen (s_newkeys_in r) = authlen" "keys_block_size (s_newkeys_in r) = block"
    using same keys by (simp_all add: nki_def)
  obtain rc1 where len: "read_length W r = Inr (True, r\<lparr>s_packlen := of_nat (1 + length (ty # payload) + length padding), s_receive_context := rc1,
      s_incoming_packet := take (head_len aadlen block) p, s_input := drop (head_len aadlen block) (s_input r)\<rparr>)"
    and dec: "cipher_crypt E rc1 q (drop (head_len aadlen block) (s_input r)) (length p - aadlen - head_len aadlen block) aadlen authlen = Inr (drop (head_len aadlen block) p, rc')"
    and hl: "head_len aadlen block \<le> length p"
    using read_length_frame [of r "ty # payload" padding W rc'] f rc' inp r0(1) ctlen unfolding kr p q env by (auto simp: p)
  define r1 where "r1 = r\<lparr>s_packlen := of_nat (1 + length (ty # payload) + length padding), s_receive_context := rc1,
      s_incoming_packet := take (head_len aadlen block) p, s_input := drop (head_len aadlen block) (s_input r)\<rparr>"
  have r1: "s_newkeys_in r1 = s_newkeys_in r" "s_p_read r1 = s_p_read r" "s_receive_context r1 = rc1"
    "s_packlen r1 = of_nat (1 + length (ty # payload) + length padding)" "s_incoming_packet r1 = take (head_len aadlen block) p"
    "s_input r1 = drop (head_len aadlen block) (ct @ tag @ rest)" by (simp_all add: r1_def inp)
  obtain nki' where body: "read_body W r1 = Inr (True, r1\<lparr>s_receive_context := rc', s_incoming_packet := p, s_newkeys_in := nki', s_input := rest\<rparr>)"
    and km': "keys_match (pv_mac V) (s_newkeys_out t) nki'" "keys_block_size nki' = block"
    using read_body_frame [of r1 "ty # payload" padding ct tag rest W "s_newkeys_out t" rc'] f hl ctlen tag [OF ctlen] dec inp
    unfolding r1 kr q env p by (auto simp: nki_def)
  define r2 where "r2 = r1\<lparr>s_receive_context := rc', s_incoming_packet := p, s_newkeys_in := nki', s_input := rest\<rparr>"
  obtain n where n: "ps_seqnr n = q + 1" and fin: "read_finish W r2 =
      rbind (ssh_packet_check_rekey W (r2\<lparr>s_p_read := n, s_incoming_packet := payload, s_packlen := 0\<rparr>)) (\<lambda>v. Inr (Some (ty, q), v))"
    using read_finish_frame [of r2 aadlen ty payload padding W] f p ty cnt km'(2) keys_match_same(5) [OF km'(1)] q
    by (auto simp: r2_def r1_def)
  let ?u = "r2\<lparr>s_p_read := n, s_incoming_packet := payload, s_packlen := 0\<rparr>"
  have "ssh_packet_read_poll2 W r = read_finish W r2"
    using r0 len body by (simp add: ssh_packet_read_poll2_def r1_def r2_def)
  moreover have "linked pair (pv_mac V) t ?u"
    using km'(1) n pair' r0 t(2) by (simp add: linked_def r2_def r1_def)
  ultimately show ?thesis using fin by (intro exI [of _ ?u]) (simp add: r2_def q_def)
qed

end

text \<open>
  (C40) The padding of a packet is always at least four bytes and fills its last block.  Without extra padding a packet always gets one,
  of fewer than four bytes more than a block.
\<close>

theorem packet_padding:
  assumes "4 \<le> block_size" and "block_size \<le> 252"
  shows "case packet_padlen block_size len extra_pad of
      Inl e \<Rightarrow> extra_pad \<noteq> 0 \<and> e = Perr SSH_ERR_INVALID_ARGUMENT
    | Inr pad \<Rightarrow> 4 \<le> unat pad \<and> block_size dvd len + unat pad \<and> (extra_pad = 0 \<longrightarrow> unat pad < block_size + 4)"
proof (cases "packet_padlen block_size len extra_pad")
  case (Inl e)
  then show ?thesis by (auto simp: packet_padlen_def Let_def split: if_splits)
next
  case (Inr pad)
  with packet_padlen_ok [OF assms Inr] show ?thesis by (simp add: padlen_ok_def)
qed

theorem packet_padding_witness:
  "packet_padlen 16 21 0 = Inr 11 \<and> 4 \<le> (11 :: nat) \<and> 16 dvd 21 + (11 :: nat)"
  using packet_padding [of 16 21 0] by (simp add: packet_padlen_def)

text \<open>
  (C1) What one end sends the other end reads.  Let the two ends have the same sequence number, the same cipher with contexts that match,
  MACs set up with the same key, and no compression.  A packet that is sent, and whose bytes then arrive with others behind
  them, is read back with its type, payload and sequence number; the bytes behind it stay in the input, and the two ends are again in step.  What is
  left of the read is the check whether to rekey.
\<close>

theorem packet_roundtrip:
  fixes s :: "('e, 'z) ssh" and r :: "('e, 'y) ssh"
  assumes "crypt_pair (pv_evp V) (keys_aadlen (s_newkeys_out s)) (keys_authlen (s_newkeys_out s)) (keys_block_size (s_newkeys_out s)) pair"
    and "mac_sizes (pv_mac V)" and "pv_evp W = pv_evp V" "pv_mac W = pv_mac V"
    and "linked pair (pv_mac V) s r"
    and "4 \<le> keys_block_size (s_newkeys_out s)" "keys_block_size (s_newkeys_out s) \<le> 252"
    and "plain_packet (s_outgoing_packet s) ty payload" and "ssh_packet_send2_wrapped V s = Inr t"
    and "s_input r = drop (length (s_output s)) (s_output t) @ rest"
    and "ps_seqnr (s_p_read r) + 1 \<noteq> 0" "ps_packets (s_p_read r) + 1 \<noteq> 0"
  shows "\<exists>u. s_incoming_packet u = payload \<and> s_input u = rest \<and> linked pair (pv_mac V) t u \<and>
    ssh_packet_read_poll2 W r = rbind (ssh_packet_check_rekey W u) (\<lambda>v. Inr (Some (ty, ps_seqnr (s_p_send s)), v))"
  by (rule crypt_pair.read_back [OF assms(1,2) refl assms(3,4,5) refl refl refl assms(6-12)])

text \<open>The two ciphers of the repository: \<^verbatim>\<open>chacha20-poly1305\<close>, and no encryption with either kind of MAC.\<close>

lemmas chachapoly_read_back = cp_etm.read_back
lemmas none_read_back = none_mac.read_back none_etm.read_back

definition example_chacha_keys :: newkeys where
  "example_chacha_keys = \<lparr>
     nk_enc = \<lparr>en_name = ''chacha20-poly1305@openssh.com'', en_cipher = the (cipher_by_name ''chacha20-poly1305@openssh.com''),
       en_enabled = 1, en_key_len = 64, en_iv_len = 0, en_block_size = 8, en_key = None, en_iv = None\<rparr>,
     nk_mac = example_mac, nk_comp = \<lparr>co_type = 0, co_enabled = False, co_name = ''none''\<rparr>\<rparr>"

definition example_chacha_ctx :: "bool \<Rightarrow> unit sshcipher_ctx" where
  "example_chacha_ctx do_encrypt = \<lparr>cc_plaintext = False, cc_encrypt = do_encrypt, cc_evp = None, cc_cp_ctx = Some example_cp,
     cc_cipher = the (cipher_by_name ''chacha20-poly1305@openssh.com'')\<rparr>"

definition example_end :: "(unit, unit) ssh" where
  "example_end = (ssh_alloc_session_state (example_chacha_ctx False) (example_chacha_ctx True))
     \<lparr>s_newkeys_in := Some example_chacha_keys, s_newkeys_out := Some example_chacha_keys,
      s_outgoing_packet := [0, 0, 0, 0, 0, 94, 7]\<rparr>"

definition example_env_mac :: "(unit, unit) penv" where
  "example_env_mac = example_env\<lparr>pv_mac := example_mac_ops\<rparr>"

lemma example_chacha_simps: "ci_flags (the (cipher_by_name ''chacha20-poly1305@openssh.com'')) AND CFLAG_CHACHAPOLY \<noteq> 0"
  "cipher_authlen (the (cipher_by_name ''chacha20-poly1305@openssh.com'')) = 16"
  by (simp_all add: cipher_by_name_def ciphers_def CFLAG_CHACHAPOLY_def cipher_authlen_def CFLAG_NONE_def CFLAG_CBC_def)

lemma example_cp_same: "chachapoly_same_key example_cp example_cp" "chachapoly_wf example_cp"
  by (simp_all add: example_cp_def chachapoly_same_key_def chacha_same_key_def chachapoly_wf_def)

lemma example_end_keys:
  "keys_aadlen (s_newkeys_out example_end) = 4" "keys_authlen (s_newkeys_out example_end) = 16" "keys_block_size (s_newkeys_out example_end) = 8"
  by (simp_all add: example_end_def keys_aadlen_def keys_authlen_def keys_block_size_def example_chacha_keys_def example_chacha_simps)

lemma example_crypt: "\<exists>ct cc. cipher_crypt E (example_chacha_ctx True) q p n 4 16 = Inr (ct, cc)"
proof -
  have "cc_cp_ctx (example_chacha_ctx True) = Some example_cp" "cc_encrypt (example_chacha_ctx True)"
    "ci_flags (cc_cipher (example_chacha_ctx True)) AND CFLAG_CHACHAPOLY \<noteq> 0"
    using example_chacha_simps by (simp_all add: example_chacha_ctx_def)
  then show ?thesis
    by (simp add: cipher_crypt_chacha(1) [where c = example_cp] chachapoly_crypt_result [OF example_cp_same(2)] Let_def)
qed

lemma example_end_sends: "\<exists>t. ssh_packet_send2_wrapped example_env_mac example_end = Inr t"
proof -
  let ?p = "frame [94, 7] [0, 1, 2, 3, 4]"
  have pad: "send_pad example_env_mac example_end = Inr (example_end\<lparr>s_outgoing_packet := ?p\<rparr>)"
    unfolding send_pad_def example_end_keys Let_def
    by (simp add: packet_padlen_def example_end_def ssh_alloc_session_state_def example_env_mac_def example_env_def buf_append_def
        buf_put_def SSHBUF_SIZE_MAX_def frame_def cipher_ctx_is_plaintext_def example_chacha_ctx_def upt_rec)
  have am: "active_mac (s_newkeys_out example_end) = None"
    by (simp add: active_mac_def example_end_def example_chacha_keys_def example_chacha_simps)
  obtain ct cc where ct: "cipher_crypt (pv_evp example_env_mac) (example_chacha_ctx True) 0 ?p 8 4 16 = Inr (ct, cc)"
    using example_crypt by blast
  have "send_protect example_env_mac (example_end\<lparr>s_outgoing_packet := ?p\<rparr>) = 
      Inr (example_end\<lparr>s_outgoing_packet := ?p, s_send_context := cc, s_output := ct\<rparr>)"
    using ct am example_end_keys unfolding send_protect_def Let_def
    by (simp add: example_end_def ssh_alloc_session_state_def SSHBUF_SIZE_MAX_def)
  then show ?thesis
    using pad unfolding ssh_packet_send2_wrapped_def Let_def
    by (simp add: send_compress_def keys_compress_def example_end_def ssh_alloc_session_state_def example_chacha_keys_def count_packet_def
        send_effects_def packet_consts)
qed

theorem packet_roundtrip_witness:
  "\<exists>t u. ssh_packet_send2_wrapped example_env_mac example_end = Inr t \<and> s_incoming_packet u = [7] \<and> s_input u = [1, 2] \<and>
    ssh_packet_read_poll2 example_env_mac (example_end\<lparr>s_input := s_output t @ [1, 2]\<rparr>) =
      rbind (ssh_packet_check_rekey example_env_mac u) (\<lambda>v. Inr (Some (94, 0), v))"
proof -
  obtain t where t: "ssh_packet_send2_wrapped example_env_mac example_end = Inr t" using example_end_sends by blast
  let ?r = "example_end\<lparr>s_input := s_output t @ [1, 2]\<rparr>"
  have link: "linked chacha_pair (pv_mac example_env_mac) example_end ?r"
    by (simp add: linked_def example_end_def ssh_alloc_session_state_def keys_match_def mac_match_def example_chacha_keys_def
        example_mac_def chacha_pair_def example_chacha_ctx_def example_chacha_simps example_cp_same)
  have "mac_sizes (pv_mac example_env_mac)" by (simp add: example_env_mac_def example_mac_sizes)
  moreover have "plain_packet (s_outgoing_packet example_end) 94 [7]"
    by (simp add: plain_packet_def example_end_def packet_consts)
  moreover have "s_input ?r = drop (length (s_output example_end)) (s_output t) @ [1, 2]"
    by (simp add: example_end_def ssh_alloc_session_state_def)
  ultimately have "\<exists>u. s_incoming_packet u = [7] \<and> s_input u = [1, 2] \<and> linked chacha_pair (pv_mac example_env_mac) t u \<and>
    ssh_packet_read_poll2 example_env_mac ?r =
      rbind (ssh_packet_check_rekey example_env_mac u) (\<lambda>v. Inr (Some (94, ps_seqnr (s_p_send example_end)), v))"
    by (intro packet_roundtrip [OF _ _ refl refl link _ _ _ t])
      (simp_all add: example_end_keys cp_etm.crypt_pair_axioms, simp_all add: example_end_def ssh_alloc_session_state_def)
  moreover have "ps_seqnr (s_p_send example_end) = 0" by (simp add: example_end_def ssh_alloc_session_state_def)
  ultimately show ?thesis using t by auto
qed

end
