(* ===== verification/Kex.thy ===== *)
theory Kex
  imports Packet_Read
begin

unbundle bit_operations_syntax

text \<open>
  Key exchange, from \<^verbatim>\<open>kex.c\<close>: the proposals of the two ends, the negotiation of algorithms, and the derivation
  of keys from the shared secret.  A proposal is a list of ten strings, in the order of \<^verbatim>\<open>enum kex_init_proposals\<close>.
\<close>

section \<open>Proposals\<close>

datatype kex_init_proposals = PROPOSAL_KEX_ALGS | PROPOSAL_SERVER_HOST_KEY_ALGS | PROPOSAL_ENC_ALGS_CTOS | PROPOSAL_ENC_ALGS_STOC
  | PROPOSAL_MAC_ALGS_CTOS | PROPOSAL_MAC_ALGS_STOC | PROPOSAL_COMP_ALGS_CTOS | PROPOSAL_COMP_ALGS_STOC
  | PROPOSAL_LANG_CTOS | PROPOSAL_LANG_STOC

definition PROPOSAL_MAX :: nat where "PROPOSAL_MAX = 10"

fun prop_at :: "string list \<Rightarrow> kex_init_proposals \<Rightarrow> string" where
  "prop_at p PROPOSAL_KEX_ALGS = p ! 0"
| "prop_at p PROPOSAL_SERVER_HOST_KEY_ALGS = p ! 1"
| "prop_at p PROPOSAL_ENC_ALGS_CTOS = p ! 2"
| "prop_at p PROPOSAL_ENC_ALGS_STOC = p ! 3"
| "prop_at p PROPOSAL_MAC_ALGS_CTOS = p ! 4"
| "prop_at p PROPOSAL_MAC_ALGS_STOC = p ! 5"
| "prop_at p PROPOSAL_COMP_ALGS_CTOS = p ! 6"
| "prop_at p PROPOSAL_COMP_ALGS_STOC = p ! 7"
| "prop_at p PROPOSAL_LANG_CTOS = p ! 8"
| "prop_at p PROPOSAL_LANG_STOC = p ! 9"

definition kex_prop2buf :: "string list \<Rightarrow> ssh_err + byte list" where
  "kex_prop2buf proposal =
     buf_appends [] (replicate KEX_COOKIE_LEN [0] @ map (\<lambda>p. enc_string (str_bytes p)) proposal @ [[0], POKE_U32 0])"

fun get_proposals :: "nat \<Rightarrow> byte list \<Rightarrow> ssh_err + string list \<times> byte list" where
  "get_proposals 0 b = Inr ([], b)"
| "get_proposals (Suc n) b =
     rbind (bytes_get_cstring b) (\<lambda>(p, b). rbind (get_proposals n b) (\<lambda>(ps, b). Inr (cstring_of p # ps, b)))"

text \<open>The result is \<^verbatim>\<open>first_kex_follows\<close> with the proposal.\<close>

definition kex_buf2prop :: "bool \<Rightarrow> byte list \<Rightarrow> ssh_err + byte \<times> string list" where
  "kex_buf2prop alloc raw =
     (if \<not> alloc then Inl SSH_ERR_ALLOC_FAIL
      else rbind (bytes_get KEX_COOKIE_LEN raw) (\<lambda>(cookie, b).
           rbind (get_proposals PROPOSAL_MAX b) (\<lambda>(proposal, b).
           rbind (bytes_get_u8 b) (\<lambda>(v, b).
           rbind (bytes_get_u32 b) (\<lambda>(reserved, b). Inr (v, proposal))))))"

section \<open>Choosing algorithms\<close>

text \<open>The fields of \<^verbatim>\<open>struct newkeys\<close> as \<^verbatim>\<open>calloc\<close> leaves them.\<close>

definition mac_zero :: sshmac where
  "mac_zero = \<lparr>mc_name = None, mc_enabled = False, mc_mac_len = 0, mc_key = None, mc_key_len = 0, mc_type = SSH_DIGEST,
     mc_etm = False, mc_hmac_ctx = None, mc_umac_ctx = None\<rparr>"

definition choose_enc :: "string \<Rightarrow> string \<Rightarrow> ssh_err + sshenc" where
  "choose_enc client server =
     (case fst (match_list client server) of
        None \<Rightarrow> Inl SSH_ERR_NO_CIPHER_ALG_MATCH
      | Some name \<Rightarrow>
          (case cipher_by_name name of
             None \<Rightarrow> Inl SSH_ERR_INTERNAL_ERROR
           | Some c \<Rightarrow> Inr \<lparr>en_name = name, en_cipher = c, en_enabled = 0, en_key_len = cipher_keylen c, en_iv_len = cipher_ivlen c,
               en_block_size = cipher_blocksize c, en_key = None, en_iv = None\<rparr>))"

definition choose_mac :: "mac_ops \<Rightarrow> string \<Rightarrow> string \<Rightarrow> ssh_err + sshmac" where
  "choose_mac P client server =
     (case fst (match_list client server) of
        None \<Rightarrow> Inl SSH_ERR_NO_MAC_ALG_MATCH
      | Some name \<Rightarrow>
          (case mac_setup P (Some mac_zero) name of
             Inr (Some mac) \<Rightarrow> Inr (mac\<lparr>mc_name := Some name, mc_key := None, mc_enabled := False\<rparr>)
           | _ \<Rightarrow> Inl SSH_ERR_INTERNAL_ERROR))"

definition choose_comp :: "string \<Rightarrow> string \<Rightarrow> ssh_err + sshcomp" where
  "choose_comp client server =
     (case fst (match_list client server) of
        None \<Rightarrow> Inl SSH_ERR_NO_COMPRESS_ALG_MATCH
      | Some name \<Rightarrow>
          if name = ''zlib@openssh.com'' then Inr \<lparr>co_type = COMP_DELAYED, co_enabled = False, co_name = name\<rparr>
          else if name = ''none'' then Inr \<lparr>co_type = COMP_NONE, co_enabled = False, co_name = name\<rparr>
          else Inl SSH_ERR_INTERNAL_ERROR)"

definition choose_kex :: "string \<Rightarrow> string \<Rightarrow> kex \<Rightarrow> ssh_err + kex" where
  "choose_kex client server k =
     (case fst (match_list client server) of
        None \<Rightarrow> Inl SSH_ERR_NO_KEX_ALG_MATCH
      | Some name \<Rightarrow>
          if \<not> kex_name_valid name then Inl SSH_ERR_INTERNAL_ERROR
          else Inr (k\<lparr>kx_name := Some name, kx_kex_type := kex_type_from_name name, kx_hash_alg := kex_hash_from_name name,
                     kx_ec_nid := kex_nid_from_name name\<rparr>))"

definition choose_hostkeyalg :: "string \<Rightarrow> string \<Rightarrow> kex \<Rightarrow> ssh_err + kex" where
  "choose_hostkeyalg client server k =
     (case fst (match_list client server) of
        None \<Rightarrow> Inl SSH_ERR_NO_HOSTKEY_ALG_MATCH
      | Some name \<Rightarrow>
          if sshkey_type_from_name name = KEY_UNSPEC then Inl SSH_ERR_INTERNAL_ERROR
          else Inr (k\<lparr>kx_hostkey_alg := Some name, kx_hostkey_type := sshkey_type_from_name name,
                     kx_hostkey_nid := sshkey_ecdsa_nid_from_name name\<rparr>))"

definition proposals_match :: "string list \<Rightarrow> string list \<Rightarrow> bool" where
  "proposals_match my peer \<longleftrightarrow>
     (\<forall>i \<in> {PROPOSAL_KEX_ALGS, PROPOSAL_SERVER_HOST_KEY_ALGS}. hd (strsep_all (prop_at my i)) = hd (strsep_all (prop_at peer i)))"

definition kexalgs_contains :: "string list \<Rightarrow> string \<Rightarrow> bool" where
  "kexalgs_contains peer ext \<longleftrightarrow> kex_has_any_alg (prop_at peer PROPOSAL_KEX_ALGS) ext"

definition KEX_RSA_SHA2_256_SUPPORTED :: "32 word" where "KEX_RSA_SHA2_256_SUPPORTED = 8"
definition KEX_RSA_SHA2_512_SUPPORTED :: "32 word" where "KEX_RSA_SHA2_512_SUPPORTED = 16"

text \<open>
  \<^verbatim>\<open>kex_choose_conf\<close> in the order of its parts: the extensions the peer supports, the methods, the algorithms of each
  direction, and the length of key material.  A failure comes with the state, in which \<^verbatim>\<open>failed_choice\<close> is set.
\<close>

type_synonym kex_result = "(pstop \<times> kex) + kex"

definition choose_extensions :: "32 word \<Rightarrow> string list \<Rightarrow> kex \<Rightarrow> kex_result" where
  "choose_extensions seq peer k =
     (if kx_flags k AND KEX_INITIAL = 0 then Inr k
      else let k = (if kx_server k
                    then k\<lparr>kx_ext_info_c := kexalgs_contains peer ''ext-info-c'',
                           kx_kex_strict := of_bool (kexalgs_contains peer ''kex-strict-c-v00@openssh.com'')\<rparr>
                    else k\<lparr>kx_ext_info_s := kexalgs_contains peer ''ext-info-s'',
                           kx_kex_strict := of_bool (kexalgs_contains peer ''kex-strict-s-v00@openssh.com'')\<rparr>) in
        if kx_kex_strict k \<noteq> 0 \<and> seq \<noteq> 0 then Inl (Pfatal, k) else Inr k)"

definition choose_rsa_sha2 :: "string list \<Rightarrow> kex \<Rightarrow> kex" where
  "choose_rsa_sha2 peer k =
     (if kx_server k \<and> kx_flags k AND KEX_INITIAL \<noteq> 0
      then let algs = prop_at peer PROPOSAL_SERVER_HOST_KEY_ALGS;
               k = (if kex_has_any_alg algs ''rsa-sha2-256,rsa-sha2-256-cert-v01@openssh.com''
                    then k\<lparr>kx_flags := kx_flags k OR KEX_RSA_SHA2_256_SUPPORTED\<rparr> else k) in
        if kex_has_any_alg algs ''rsa-sha2-512,rsa-sha2-512-cert-v01@openssh.com''
        then k\<lparr>kx_flags := kx_flags k OR KEX_RSA_SHA2_512_SUPPORTED\<rparr> else k
      else k)"

definition failed_choice :: "string \<Rightarrow> kex \<Rightarrow> ssh_err + 'a \<Rightarrow> (pstop \<times> kex) + 'a" where
  "failed_choice alg k r = map_sum (\<lambda>e. (Perr e, k\<lparr>kx_failed_choice := Some alg\<rparr>)) id r"

definition kex_ctos :: "kex \<Rightarrow> mode \<Rightarrow> bool" where
  "kex_ctos k m \<longleftrightarrow> \<not> kx_server k \<and> m = MODE_OUT \<or> kx_server k \<and> m = MODE_IN"

definition set_kex_newkeys :: "mode \<Rightarrow> newkeys \<Rightarrow> kex \<Rightarrow> kex" where
  "set_kex_newkeys m nk k = (case m of MODE_IN \<Rightarrow> k\<lparr>kx_newkeys_in := Some nk\<rparr> | MODE_OUT \<Rightarrow> k\<lparr>kx_newkeys_out := Some nk\<rparr>)"

text \<open>The algorithms of one direction; the keys that were being chosen when it fails are left out of the state.\<close>

definition choose_direction ::
    "('e, 'z) penv \<Rightarrow> string list \<Rightarrow> string list \<Rightarrow> string list \<Rightarrow> bool \<Rightarrow> kex \<Rightarrow> (pstop \<times> kex) + newkeys" where
  "choose_direction V cprop sprop peer ctos k =
     (let nenc = (if ctos then PROPOSAL_ENC_ALGS_CTOS else PROPOSAL_ENC_ALGS_STOC);
          nmac = (if ctos then PROPOSAL_MAC_ALGS_CTOS else PROPOSAL_MAC_ALGS_STOC);
          ncomp = (if ctos then PROPOSAL_COMP_ALGS_CTOS else PROPOSAL_COMP_ALGS_STOC) in
      if \<not> pv_alloc V then Inl (Perr SSH_ERR_ALLOC_FAIL, k)
      else rbind (failed_choice (prop_at peer nenc) k (choose_enc (prop_at cprop nenc) (prop_at sprop nenc))) (\<lambda>enc.
           rbind (if cipher_authlen (en_cipher enc) = 0
                  then failed_choice (prop_at peer nmac) k (choose_mac (pv_mac V) (prop_at cprop nmac) (prop_at sprop nmac))
                  else Inr mac_zero) (\<lambda>mac.
           rbind (failed_choice (prop_at peer ncomp) k (choose_comp (prop_at cprop ncomp) (prop_at sprop ncomp))) (\<lambda>comp.
           Inr \<lparr>nk_enc = enc, nk_mac = mac, nk_comp = comp\<rparr>))))"

definition key_need :: "newkeys \<Rightarrow> nat" where
  "key_need nk = max (max (max (en_key_len (nk_enc nk)) (en_block_size (nk_enc nk))) (en_iv_len (nk_enc nk))) (mc_key_len (nk_mac nk))"

definition key_dh_need :: "newkeys \<Rightarrow> nat" where
  "key_dh_need nk =
     max (max (max (cipher_seclen (en_cipher (nk_enc nk))) (en_block_size (nk_enc nk))) (en_iv_len (nk_enc nk))) (mc_key_len (nk_mac nk))"

definition choose_algorithms :: "('e, 'z) penv \<Rightarrow> string list \<Rightarrow> string list \<Rightarrow> string list \<Rightarrow> kex \<Rightarrow> kex_result" where
  "choose_algorithms V cprop sprop peer k =
     rbind (failed_choice (prop_at peer PROPOSAL_KEX_ALGS) (k\<lparr>kx_name := fst (match_list (prop_at cprop PROPOSAL_KEX_ALGS) (prop_at sprop PROPOSAL_KEX_ALGS))\<rparr>)
              (choose_kex (prop_at cprop PROPOSAL_KEX_ALGS) (prop_at sprop PROPOSAL_KEX_ALGS) k)) (\<lambda>k.
     rbind (failed_choice (prop_at peer PROPOSAL_SERVER_HOST_KEY_ALGS)
              (k\<lparr>kx_hostkey_alg := fst (match_list (prop_at cprop PROPOSAL_SERVER_HOST_KEY_ALGS) (prop_at sprop PROPOSAL_SERVER_HOST_KEY_ALGS))\<rparr>)
              (choose_hostkeyalg (prop_at cprop PROPOSAL_SERVER_HOST_KEY_ALGS) (prop_at sprop PROPOSAL_SERVER_HOST_KEY_ALGS) k)) (\<lambda>k.
     rbind (choose_direction V cprop sprop peer (kex_ctos k MODE_IN) k) (\<lambda>nk_in.
     let k = set_kex_newkeys MODE_IN nk_in k in
     rbind (choose_direction V cprop sprop peer (kex_ctos k MODE_OUT) k) (\<lambda>nk_out.
     let k = set_kex_newkeys MODE_OUT nk_out k in
     Inr (k\<lparr>kx_we_need := max (key_need nk_in) (key_need nk_out), kx_dh_need := max (key_dh_need nk_in) (key_dh_need nk_out)\<rparr>)))))"

text \<open>The boolean of the result tells whether the next packet is to be skipped.\<close>

definition choose_conf :: "('e, 'z) penv \<Rightarrow> 32 word \<Rightarrow> kex \<Rightarrow> (pstop \<times> kex) + kex \<times> bool" where
  "choose_conf V seq k =
     rbind (map_sum (\<lambda>e. (Perr e, k)) id (kex_buf2prop (pv_alloc V) (kx_my k))) (\<lambda>(ignored, my).
     rbind (map_sum (\<lambda>e. (Perr e, k)) id (kex_buf2prop (pv_alloc V) (kx_peer k))) (\<lambda>(first_kex_follows, peer).
     let cprop = (if kx_server k then peer else my); sprop = (if kx_server k then my else peer) in
     rbind (choose_extensions seq peer k) (\<lambda>k.
     rbind (choose_algorithms V cprop sprop peer (choose_rsa_sha2 peer k)) (\<lambda>k.
     Inr (k, first_kex_follows \<noteq> 0 \<and> \<not> proposals_match my peer)))))"

definition kex_choose_conf :: "('e, 'z) penv \<Rightarrow> 32 word \<Rightarrow> ('e, 'z) ssh \<Rightarrow> ('e, 'z) presult" where
  "kex_choose_conf V seq s =
     rbind (the_kex s) (\<lambda>k.
     case choose_conf V seq k of
       Inl (e, k) \<Rightarrow> Inl e
     | Inr (k, skip) \<Rightarrow> Inr (let s = s\<lparr>s_kex := Some k\<rparr> in if skip then s\<lparr>s_dispatch_skip_packets := 1\<rparr> else s))"

section \<open>Deriving keys\<close>

fun digest_updates :: "md_ops \<Rightarrow> ssh_digest_ctx \<Rightarrow> byte list list \<Rightarrow> ssh_err + ssh_digest_ctx" where
  "digest_updates M ctx [] = Inr ctx"
| "digest_updates M ctx (m # ms) = rbind (ssh_digest_update M ctx m) (\<lambda>ctx. digest_updates M ctx ms)"

text \<open>One hash of \<^verbatim>\<open>derive_key\<close>; any failure has the same error.\<close>

definition kdf_hash :: "md_ops \<Rightarrow> int \<Rightarrow> byte list list \<Rightarrow> ssh_err + byte list" where
  "kdf_hash M alg ms =
     (case ssh_digest_start M alg of
        None \<Rightarrow> Inl SSH_ERR_LIBCRYPTO_ERROR
      | Some ctx \<Rightarrow>
          (case rbind (digest_updates M ctx ms) (\<lambda>ctx. ssh_digest_final M ctx (ssh_digest_bytes alg)) of
             Inl e \<Rightarrow> Inl SSH_ERR_LIBCRYPTO_ERROR
           | Inr h \<Rightarrow> Inr h))"

text \<open>
  The loop that extends the key; \<^verbatim>\<open>have\<close> is the length of what there is.  The caller has checked that the size \<^verbatim>\<open>mdsz\<close> of a
  hash is positive.
\<close>

function expand_key :: "(byte list \<Rightarrow> ssh_err + byte list) \<Rightarrow> nat \<Rightarrow> nat \<Rightarrow> nat \<Rightarrow> byte list \<Rightarrow> ssh_err + byte list" where
  "expand_key hash mdsz need have digest =
     (if need > have \<and> mdsz > 0
      then rbind (hash digest) (\<lambda>h. expand_key hash mdsz need (have + mdsz) (digest @ h))
      else Inr digest)"
  by pat_completeness auto

termination
  by (relation "measure (\<lambda>(h, mdsz, need, n, d). need - n)") auto

declare expand_key.simps [simp del]

text \<open>The buffer has room for the first hash only if some key material is needed.\<close>

definition derive_key ::
    "('e, 'z) penv \<Rightarrow> kex \<Rightarrow> byte \<Rightarrow> nat \<Rightarrow> byte list \<Rightarrow> byte list \<Rightarrow> pstop + byte list" where
  "derive_key V k ident need hash shared_secret =
     (let M = mo_md (pv_mac V); mdsz = ssh_digest_bytes (kx_hash_alg k) in
      if mdsz = 0 then Inl (Perr SSH_ERR_INVALID_ARGUMENT)
      else if \<not> pv_alloc V then Inl (Perr SSH_ERR_ALLOC_FAIL)
      else if need = 0 then Inl Pcrash
      else rbind (lift_err (kdf_hash M (kx_hash_alg k) [shared_secret, hash, [ident], kx_session_id k])) (\<lambda>digest.
           lift_err (expand_key (\<lambda>d. kdf_hash M (kx_hash_alg k) [shared_secret, hash, d]) mdsz need mdsz digest)))"

fun derive_keys :: "('e, 'z) penv \<Rightarrow> kex \<Rightarrow> byte list \<Rightarrow> byte list \<Rightarrow> byte list \<Rightarrow> pstop + byte list list" where
  "derive_keys V k [] hash shared_secret = Inr []"
| "derive_keys V k (c # cs) hash shared_secret =
     rbind (derive_key V k c (kx_we_need k) hash shared_secret) (\<lambda>key.
     rbind (derive_keys V k cs hash shared_secret) (\<lambda>keys. Inr (key # keys)))"

definition install_keys :: "byte list list \<Rightarrow> bool \<Rightarrow> newkeys \<Rightarrow> newkeys" where
  "install_keys keys ctos nk =
     nk\<lparr>nk_enc := (nk_enc nk)\<lparr>en_iv := Some (keys ! (if ctos then 0 else 1)), en_key := Some (keys ! (if ctos then 2 else 3))\<rparr>,
        nk_mac := (nk_mac nk)\<lparr>mc_key := Some (keys ! (if ctos then 4 else 5))\<rparr>\<rparr>"

text \<open>The hash of the first exchange becomes the session identifier.\<close>

definition save_session_id :: "byte list \<Rightarrow> kex \<Rightarrow> pstop + byte list" where
  "save_session_id hash k =
     (if kx_flags k AND KEX_INITIAL \<noteq> 0
      then if length (kx_session_id k) \<noteq> 0 then Inl (Perr SSH_ERR_INTERNAL_ERROR) else buf_append (kx_session_id k) hash
      else if length (kx_session_id k) = 0 then Inl (Perr SSH_ERR_INTERNAL_ERROR) else Inr (kx_session_id k))"

definition kex_derive_keys :: "('e, 'z) penv \<Rightarrow> byte list \<Rightarrow> byte list \<Rightarrow> kex \<Rightarrow> pstop + kex" where
  "kex_derive_keys V hash shared_secret k =
     rbind (save_session_id hash k) (\<lambda>sid.
     let k = k\<lparr>kx_session_id := sid\<rparr> in
     rbind (derive_keys V k [65, 66, 67, 68, 69, 70] hash shared_secret) (\<lambda>keys.
     case (kx_newkeys_in k, kx_newkeys_out k) of
       (Some i, Some out) \<Rightarrow>
         Inr (k\<lparr>kx_newkeys_in := Some (install_keys keys (kex_ctos k MODE_IN) i),
                kx_newkeys_out := Some (install_keys keys (kex_ctos k MODE_OUT) out)\<rparr>)
     | _ \<Rightarrow> Inl Pcrash))"

end
