(* ===== verification/Kex_Dispatch.thy ===== *)
theory Kex_Dispatch
  imports Kex
begin

unbundle bit_operations_syntax

text \<open>
  The dispatcher of packets, from \<^verbatim>\<open>dispatch.c\<close>, and the handlers of the key exchange, from \<^verbatim>\<open>kex.c\<close>.  The
  functions that run a method, \<^verbatim>\<open>kex->kex[]\<close>, and the handlers that other parts of the program put into the dispatch table are
  arguments.
\<close>

section \<open>The dispatch table\<close>

definition ssh_dispatch_init :: "dispatch_fn \<Rightarrow> ('e, 'z) ssh \<Rightarrow> ('e, 'z) ssh" where
  "ssh_dispatch_init dflt s = s\<lparr>s_dispatch := replicate DISPATCH_MAX dflt\<rparr>"

definition ssh_dispatch_set :: "byte \<Rightarrow> dispatch_fn \<Rightarrow> ('e, 'z) ssh \<Rightarrow> ('e, 'z) ssh" where
  "ssh_dispatch_set typ f s = s\<lparr>s_dispatch := (s_dispatch s)[unat typ := f]\<rparr>"

definition ssh_dispatch_range :: "nat \<Rightarrow> nat \<Rightarrow> dispatch_fn \<Rightarrow> ('e, 'z) ssh \<Rightarrow> ('e, 'z) ssh" where
  "ssh_dispatch_range fr to f s =
     s\<lparr>s_dispatch := map (\<lambda>i. if fr \<le> i \<and> i \<le> to then f else s_dispatch s ! i) [0..<length (s_dispatch s)]\<rparr>"

definition send_unimplemented :: "('e, 'z) penv \<Rightarrow> 32 word \<Rightarrow> ('e, 'z) ssh \<Rightarrow> ('e, 'z) presult" where
  "send_unimplemented V seq s = rbind (sshpkt_put_u32 seq (sshpkt_start SSH2_MSG_UNIMPLEMENTED s)) (sshpkt_send V)"

definition dispatch_protocol_error :: "('e, 'z) penv \<Rightarrow> 32 word \<Rightarrow> ('e, 'z) ssh \<Rightarrow> ('e, 'z) presult" where
  "dispatch_protocol_error V seq s =
     (case rbind (send_unimplemented V seq s) (ssh_packet_write_wait V) of Inl e \<Rightarrow> Inl Pfatal | Inr s \<Rightarrow> Inr s)"

definition dispatch_protocol_ignore :: "('e, 'z) ssh \<Rightarrow> ('e, 'z) presult" where
  "dispatch_protocol_ignore s = Inr s"

section \<open>Handlers of the key exchange\<close>

definition kex_protocol_error :: "('e, 'z) penv \<Rightarrow> 32 word \<Rightarrow> ('e, 'z) ssh \<Rightarrow> ('e, 'z) presult" where
  "kex_protocol_error V seq s =
     rbind (the_kex s) (\<lambda>k.
     if kx_flags k AND KEX_INITIAL \<noteq> 0 \<and> kx_kex_strict k \<noteq> 0 then Inl Pfatal else send_unimplemented V seq s)"

definition kex_reset_dispatch :: "('e, 'z) ssh \<Rightarrow> ('e, 'z) ssh" where
  "kex_reset_dispatch s =
     ssh_dispatch_range (unat SSH2_MSG_TRANSPORT_MIN) (unat SSH2_MSG_TRANSPORT_MAX) Fn_kex_protocol_error s"

text \<open>Signature algorithms, each once, for which the allowed list has the plain or a certified name.\<close>

fun server_sig_algs_loop :: "string \<Rightarrow> string list \<Rightarrow> string option \<Rightarrow> string option" where
  "server_sig_algs_loop sigalgs [] acc = acc"
| "server_sig_algs_loop sigalgs (alg # algs) acc =
     (case sshkey_sigalg_by_name alg of
        None \<Rightarrow> server_sig_algs_loop sigalgs algs acc
      | Some sigalg \<Rightarrow>
          if \<not> kex_has_any_alg sigalg sigalgs then server_sig_algs_loop sigalgs algs acc
          else if (case acc of None \<Rightarrow> False | Some a \<Rightarrow> kex_has_any_alg sigalg a) then server_sig_algs_loop sigalgs algs acc
          else server_sig_algs_loop sigalgs algs (xextendf acc '','' sigalg))"

definition kex_set_server_sig_algs :: "string \<Rightarrow> kex \<Rightarrow> pstop + kex" where
  "kex_set_server_sig_algs allowed_algs k =
     (case sshkey_alg_list False True True (CHR '','') of
        None \<Rightarrow> Inl Pfatal
      | Some sigalgs \<Rightarrow>
          Inr (k\<lparr>kx_server_sig_algs := (case server_sig_algs_loop sigalgs (proposals allowed_algs) None of
                    None \<Rightarrow> Some [] | Some a \<Rightarrow> Some a)\<rparr>))"

abbreviation cstr :: "string \<Rightarrow> byte list" where
  "cstr c \<equiv> enc_string (str_bytes c)"

definition kex_compose_ext_info_server :: "byte list \<Rightarrow> kex \<Rightarrow> pstop + byte list \<times> kex" where
  "kex_compose_ext_info_server m k =
     (let algs = (case kx_server_sig_algs k of None \<Rightarrow> sshkey_alg_list False True True (CHR '','') | a \<Rightarrow> a) in
      case algs of
        None \<Rightarrow> Inl (Perr SSH_ERR_ALLOC_FAIL)
      | Some a \<Rightarrow>
          rbind (lift_err (buf_appends m [POKE_U32 4, cstr ''server-sig-algs'', cstr a, cstr ''publickey-hostbound@openssh.com'', cstr ''0'',
              cstr ''ping@openssh.com'', cstr ''0'', cstr ''agent-forward'', cstr ''0''])) (\<lambda>m.
          Inr (m, k\<lparr>kx_server_sig_algs := algs\<rparr>)))"

definition kex_compose_ext_info_client :: "byte list \<Rightarrow> pstop + byte list" where
  "kex_compose_ext_info_client m = lift_err (buf_appends m [POKE_U32 1, cstr ''ext-info-in-auth@openssh.com'', cstr ''0''])"

definition kex_maybe_send_ext_info :: "('e, 'z) penv \<Rightarrow> ('e, 'z) ssh \<Rightarrow> ('e, 'z) presult" where
  "kex_maybe_send_ext_info V s =
     rbind (the_kex s) (\<lambda>k.
     if kx_flags k AND KEX_INITIAL = 0 then Inr s
     else if \<not> kx_ext_info_c k \<and> \<not> kx_ext_info_s k then Inr s
     else if \<not> pv_alloc V then Inl Pfatal
     else rbind (if kx_ext_info_c k then kex_compose_ext_info_server [] k else Inr ([], k)) (\<lambda>(m, k).
          rbind (if kx_ext_info_s k then kex_compose_ext_info_client m else Inr m) (\<lambda>m.
          rbind (sshpkt_put m (sshpkt_start SSH2_MSG_EXT_INFO (s\<lparr>s_kex := Some k\<rparr>))) (sshpkt_send V))))"

definition KEX_HAS_PUBKEY_HOSTBOUND :: "32 word" where "KEX_HAS_PUBKEY_HOSTBOUND = 4"
definition KEX_HAS_PING :: "32 word" where "KEX_HAS_PING = 0x20"
definition KEX_HAS_EXT_INFO_IN_AUTH :: "32 word" where "KEX_HAS_EXT_INFO_IN_AUTH = 0x40"
definition KEX_HAS_NEWAGENT :: "32 word" where "KEX_HAS_NEWAGENT = 0x80"

text \<open>A null pointer as \<^verbatim>\<open>server_sig_algs\<close> is written as an empty string.\<close>

definition kex_server_update_ext_info :: "('e, 'z) penv \<Rightarrow> ('e, 'z) ssh \<Rightarrow> ('e, 'z) presult" where
  "kex_server_update_ext_info V s =
     rbind (the_kex s) (\<lambda>k.
     if kx_flags k AND KEX_HAS_EXT_INFO_IN_AUTH = 0 then Inr s
     else rbind (sshpkt_put_u32 1 (sshpkt_start SSH2_MSG_EXT_INFO s)) (\<lambda>s.
          rbind (sshpkt_put_cstring (str_bytes ''server-sig-algs'') s) (\<lambda>s.
          rbind (sshpkt_put_cstring (case kx_server_sig_algs k of None \<Rightarrow> [] | Some a \<Rightarrow> str_bytes a) s) (sshpkt_send V))))"

definition kex_send_newkeys :: "('e, 'z) penv \<Rightarrow> ('e, 'z) ssh \<Rightarrow> ('e, 'z) presult" where
  "kex_send_newkeys V s =
     rbind (sshpkt_send V (sshpkt_start SSH2_MSG_NEWKEYS (kex_reset_dispatch s))) (\<lambda>s.
     kex_maybe_send_ext_info V (ssh_dispatch_set SSH2_MSG_NEWKEYS Fn_kex_input_newkeys s))"

definition kex_ext_info_check_ver :: "byte list \<Rightarrow> string \<Rightarrow> 32 word \<Rightarrow> kex \<Rightarrow> pstop + kex" where
  "kex_ext_info_check_ver val want_ver flag k =
     (if 0 \<in> set val then Inl (Perr SSH_ERR_INVALID_FORMAT)
      else if bytes_str val = want_ver then Inr (k\<lparr>kx_flags := kx_flags k OR flag\<rparr>) else Inr k)"

definition kex_ext_info_client_parse :: "string \<Rightarrow> byte list \<Rightarrow> kex \<Rightarrow> pstop + kex" where
  "kex_ext_info_client_parse name value k =
     (if name = ''server-sig-algs''
      then if 0 \<in> set value then Inl (Perr SSH_ERR_INVALID_FORMAT) else Inr (k\<lparr>kx_server_sig_algs := Some (bytes_str value)\<rparr>)
      else if kx_ext_info_received k = 1 \<and> name = ''publickey-hostbound@openssh.com''
      then kex_ext_info_check_ver value ''0'' KEX_HAS_PUBKEY_HOSTBOUND k
      else if kx_ext_info_received k = 1 \<and> name = ''ping@openssh.com'' then kex_ext_info_check_ver value ''0'' KEX_HAS_PING k
      else if kx_ext_info_received k = 1 \<and> name = ''agent-forward'' then kex_ext_info_check_ver value ''0'' KEX_HAS_NEWAGENT k
      else Inr k)"

definition kex_ext_info_server_parse :: "string \<Rightarrow> byte list \<Rightarrow> kex \<Rightarrow> pstop + kex" where
  "kex_ext_info_server_parse name value k =
     (if name = ''ext-info-in-auth@openssh.com'' then kex_ext_info_check_ver value ''0'' KEX_HAS_EXT_INFO_IN_AUTH k else Inr k)"

fun ext_info_loop :: "nat \<Rightarrow> ('e, 'z) ssh \<Rightarrow> ('e, 'z) presult" where
  "ext_info_loop 0 s = Inr s"
| "ext_info_loop (Suc n) s =
     rbind (sshpkt_get_cstring s) (\<lambda>(name, s).
     rbind (sshpkt_get_string s) (\<lambda>(val, s).
     rbind (the_kex s) (\<lambda>k.
     rbind (if kx_server k then kex_ext_info_server_parse (cstring_of name) val k
            else kex_ext_info_client_parse (cstring_of name) val k) (\<lambda>k.
     ext_info_loop n (s\<lparr>s_kex := Some k\<rparr>)))))"

definition kex_input_ext_info :: "('e, 'z) penv \<Rightarrow> 32 word \<Rightarrow> ('e, 'z) ssh \<Rightarrow> ('e, 'z) presult" where
  "kex_input_ext_info V seq s =
     rbind (the_kex s) (\<lambda>k.
     let received = kx_ext_info_received k + 1; s = s\<lparr>s_kex := Some (k\<lparr>kx_ext_info_received := received\<rparr>)\<rparr> in
     if received > (if kx_server k then 1 else 2) then dispatch_protocol_error V seq s
     else rbind (sshpkt_get_u32 (ssh_dispatch_set SSH2_MSG_EXT_INFO Fn_kex_protocol_error s)) (\<lambda>(ninfo, s).
          if ninfo \<ge> 1024 then dispatch_protocol_error V seq s
          else rbind (ext_info_loop (unat ninfo) s) (\<lambda>s. rbind (sshpkt_get_end s) (\<lambda>_. Inr s))))"

text \<open>The part of \<^verbatim>\<open>kex_input_newkeys\<close> that takes the signalling of the first exchange out of the own proposal.\<close>

definition drop_signalling :: "('e, 'z) penv \<Rightarrow> kex \<Rightarrow> pstop + kex" where
  "drop_signalling V k =
     rbind (lift_err (kex_buf2prop (pv_alloc V) (kx_my k))) (\<lambda>(ignored, prop).
     case match_filter_denylist (pv_alloc V) (prop_at prop PROPOSAL_KEX_ALGS)
            (if kx_server k then ''ext-info-s,kex-strict-s-v00@openssh.com'' else ''ext-info-c,kex-strict-c-v00@openssh.com'') of
       None \<Rightarrow> Inl (Perr SSH_ERR_INTERNAL_ERROR)
     | Some cp \<Rightarrow>
         (case kex_prop2buf (prop[0 := cp]) of
            Inl e \<Rightarrow> Inl (Perr SSH_ERR_INTERNAL_ERROR)
          | Inr b \<Rightarrow> Inr (k\<lparr>kx_my := b\<rparr>)))"

definition kex_input_newkeys :: "('e, 'z) penv \<Rightarrow> ('e, 'z) ssh \<Rightarrow> ('e, 'z) presult" where
  "kex_input_newkeys V s =
     rbind (the_kex s) (\<lambda>k.
     let initial = (kx_flags k AND KEX_INITIAL \<noteq> 0);
         s = (if kx_ext_info_c k \<and> initial then ssh_dispatch_set SSH2_MSG_EXT_INFO Fn_kex_input_ext_info s else s);
         s = ssh_dispatch_set SSH2_MSG_KEXINIT Fn_kex_input_kexinit (ssh_dispatch_set SSH2_MSG_NEWKEYS Fn_kex_protocol_error s) in
     rbind (sshpkt_get_end s) (\<lambda>_.
     rbind (ssh_set_newkeys V MODE_IN s) (\<lambda>s.
     rbind (the_kex s) (\<lambda>k.
     rbind (if initial then drop_signalling V k else Inr k) (\<lambda>k.
     Inr (s\<lparr>s_kex := Some (k\<lparr>kx_done := True, kx_peer := [],
       kx_flags := kx_flags k AND NOT KEX_INITIAL AND NOT (KEX_INIT_SENT OR KEX_INIT_RECVD)\<rparr>)\<rparr>))))))"

fun sshpkt_skips :: "(('e, 'z) ssh \<Rightarrow> pstop + 'a \<times> ('e, 'z) ssh) \<Rightarrow> nat \<Rightarrow> ('e, 'z) ssh \<Rightarrow> ('e, 'z) presult" where
  "sshpkt_skips get 0 s = Inr s"
| "sshpkt_skips get (Suc n) s = rbind (get s) (\<lambda>(v, s). sshpkt_skips get n s)"

type_synonym ('e, 'z) kex_methods = "kex_exchange \<Rightarrow> (('e, 'z) ssh \<Rightarrow> ('e, 'z) presult) option"

definition kex_input_kexinit ::
    "('e, 'z) penv \<Rightarrow> ('e, 'z) kex_methods \<Rightarrow> 32 word \<Rightarrow> ('e, 'z) ssh \<Rightarrow> ('e, 'z) presult" where
  "kex_input_kexinit V methods seq s =
     (case s_kex s of
        None \<Rightarrow> Inl (Perr SSH_ERR_INTERNAL_ERROR)
      | Some k \<Rightarrow>
          if kx_flags k AND KEX_INIT_RECVD \<noteq> 0 then Inl Pfatal
          else rbind (buf_append (kx_peer k) (s_incoming_packet s)) (\<lambda>peer.
            let k = k\<lparr>kx_name := None, kx_flags := kx_flags k OR KEX_INIT_RECVD, kx_peer := peer\<rparr>;
                s = ssh_dispatch_set SSH2_MSG_KEXINIT Fn_kex_protocol_error (s\<lparr>s_kex := Some k\<rparr>) in
            rbind (sshpkt_skips sshpkt_get_u8 KEX_COOKIE_LEN s) (\<lambda>s.
            rbind (sshpkt_skips sshpkt_get_string PROPOSAL_MAX s) (\<lambda>s.
            rbind (sshpkt_get_u8 s) (\<lambda>(first_kex_follows, s).
            rbind (sshpkt_get_u32 s) (\<lambda>(reserved, s).
            rbind (sshpkt_get_end s) (\<lambda>_.
            rbind (if kx_flags k AND KEX_INIT_SENT = 0 then kex_send_kexinit V s else Inr s) (\<lambda>s.
            rbind (kex_choose_conf V seq s) (\<lambda>s.
            rbind (the_kex s) (\<lambda>k.
            case kx_kex_type k of
              None \<Rightarrow> Inl (Perr SSH_ERR_INTERNAL_ERROR)
            | Some t \<Rightarrow> (case methods t of None \<Rightarrow> Inl (Perr SSH_ERR_INTERNAL_ERROR) | Some f \<Rightarrow> f s)))))))))))"

definition kex_ready :: "string list \<Rightarrow> ('e, 'z) ssh \<Rightarrow> ('e, 'z) presult" where
  "kex_ready proposal s =
     rbind (the_kex s) (\<lambda>k.
     rbind (lift_err (kex_prop2buf proposal)) (\<lambda>my.
     Inr (ssh_dispatch_set SSH2_MSG_KEXINIT Fn_kex_input_kexinit
       (kex_reset_dispatch (s\<lparr>s_kex := Some (k\<lparr>kx_my := my, kx_flags := KEX_INITIAL\<rparr>)\<rparr>)))))"

definition kex_setup :: "('e, 'z) penv \<Rightarrow> string list \<Rightarrow> ('e, 'z) ssh \<Rightarrow> ('e, 'z) presult" where
  "kex_setup V proposal s = rbind (kex_ready proposal s) (kex_send_kexinit V)"

section \<open>The loop of the dispatcher\<close>

type_synonym ('e, 'z) handlers = "nat \<Rightarrow> byte \<Rightarrow> 32 word \<Rightarrow> ('e, 'z) ssh \<Rightarrow> ('e, 'z) presult"

fun call_handler ::
    "('e, 'z) penv \<Rightarrow> ('e, 'z) kex_methods \<Rightarrow> ('e, 'z) handlers \<Rightarrow> dispatch_fn \<Rightarrow> byte \<Rightarrow> 32 word \<Rightarrow> ('e, 'z) ssh \<Rightarrow> ('e, 'z) presult" where
  "call_handler V methods H Fn_null ty seq s = Inl Pcrash"
| "call_handler V methods H Fn_kex_protocol_error ty seq s = kex_protocol_error V seq s"
| "call_handler V methods H Fn_kex_input_kexinit ty seq s = kex_input_kexinit V methods seq s"
| "call_handler V methods H Fn_kex_input_newkeys ty seq s = kex_input_newkeys V s"
| "call_handler V methods H Fn_kex_input_ext_info ty seq s = kex_input_ext_info V seq s"
| "call_handler V methods H Fn_dispatch_protocol_error ty seq s = dispatch_protocol_error V seq s"
| "call_handler V methods H Fn_dispatch_protocol_ignore ty seq s = dispatch_protocol_ignore s"
| "call_handler V methods H (Fn_other n) ty seq s = H n ty seq s"

text \<open>
  One round of the loop without blocking: \<open>None\<close> when no packet is complete, otherwise the type of the packet, and whether it was
  skipped.
\<close>

definition dispatch_step ::
    "('e, 'z) penv \<Rightarrow> ('e, 'z) kex_methods \<Rightarrow> ('e, 'z) handlers \<Rightarrow> ('e, 'z) ssh \<Rightarrow> pstop + (byte \<times> bool) option \<times> ('e, 'z) ssh" where
  "dispatch_step V methods H s =
     rbind (ssh_packet_read_poll_seqnr V s) (\<lambda>(packet, s).
     case packet of
       None \<Rightarrow> Inr (None, s)
     | Some (ty, seq) \<Rightarrow>
         if ty = SSH_MSG_NONE then Inr (None, s)
         else if unat ty < DISPATCH_MAX \<and> s_dispatch s ! unat ty \<noteq> Fn_null
         then if s_dispatch_skip_packets s \<noteq> 0
              then Inr (Some (ty, True), s\<lparr>s_dispatch_skip_packets := s_dispatch_skip_packets s - 1\<rparr>)
              else rbind (call_handler V methods H (s_dispatch s ! unat ty) ty seq s) (\<lambda>s. Inr (Some (ty, False), s))
         else rbind (sshpkt_disconnect V (str_bytes (''protocol error: rcvd type '' @ decimal_str (unat ty))) s) (\<lambda>s.
              Inl (Perr SSH_ERR_DISCONNECTED)))"

text \<open>\<^verbatim>\<open>ssh_dispatch_run\<close> in the mode \<^verbatim>\<open>DISPATCH_NONBLOCK\<close>; \<open>ready\<close> is the flag \<^verbatim>\<open>*done\<close>.  It may run for ever if a handler adds input.\<close>

partial_function (option) ssh_dispatch_run ::
    "('e, 'z) penv \<Rightarrow> ('e, 'z) kex_methods \<Rightarrow> ('e, 'z) handlers \<Rightarrow> (('e, 'z) ssh \<Rightarrow> bool) \<Rightarrow> ('e, 'z) ssh \<Rightarrow> ('e, 'z) presult option" where
  "ssh_dispatch_run V methods H ready s =
     (case dispatch_step V methods H s of
        Inl e \<Rightarrow> Some (Inl e)
      | Inr (None, s) \<Rightarrow> Some (Inr s)
      | Inr (Some (ty, skipped), s) \<Rightarrow>
          if skipped \<or> \<not> ready s then ssh_dispatch_run V methods H ready s else Some (Inr s))"

end
