(* ===== verification/Kex_Agree.thy ===== *)
theory Kex_Agree
  imports Kex_Dispatch Packet_Link
begin

unbundle bit_operations_syntax

text \<open>
  What the negotiation and the derivation of keys achieve: the keys are well-formed whatever the peer proposes, and a client and a server with each
  other's proposal get the same.
\<close>

section \<open>Negotiated keys are well-formed\<close>

lemma failed_choice_Inr [simp]: "failed_choice alg k r = Inr a \<longleftrightarrow> r = Inr a"
  by (cases r) (simp_all add: failed_choice_def)

definition enc_wf :: "sshenc \<Rightarrow> bool" where
  "enc_wf e \<longleftrightarrow> en_cipher e \<in> set ciphers \<and> en_name e = ci_name (en_cipher e) \<and> en_key_len e = cipher_keylen (en_cipher e) \<and>
     en_iv_len e = cipher_ivlen (en_cipher e) \<and> en_block_size e = cipher_blocksize (en_cipher e)"

definition mac_wf :: "mac_ops \<Rightarrow> sshmac \<Rightarrow> bool" where
  "mac_wf P mac \<longleftrightarrow> (\<exists>m \<in> set macs. \<exists>a key.
     mac_setup P (Some (mac_zero\<lparr>mc_name := Some (ma_name m)\<rparr>)) (ma_name m) = Inr (Some a) \<and> mac = a\<lparr>mc_key := key\<rparr>)"

lemma mac_wf_key: "mac_wf P mac \<Longrightarrow> mac_wf P (mac\<lparr>mc_key := x\<rparr>)"
  by (force simp: mac_wf_def)

definition comp_wf :: "sshcomp \<Rightarrow> bool" where
  "comp_wf c \<longleftrightarrow> (co_type c, co_name c) \<in> {(COMP_DELAYED, ''zlib@openssh.com''), (COMP_NONE, ''none'')} \<and> \<not> co_enabled c"

definition newkeys_wf :: "mac_ops \<Rightarrow> newkeys \<Rightarrow> bool" where
  "newkeys_wf P nk \<longleftrightarrow> enc_wf (nk_enc nk) \<and> comp_wf (nk_comp nk) \<and>
     (cipher_authlen (en_cipher (nk_enc nk)) = 0 \<longrightarrow> mac_wf P (nk_mac nk))"

lemma choose_enc_wf: "choose_enc client server = Inr e \<Longrightarrow> enc_wf e \<and> fst (match_list client server) = Some (en_name e)"
  by (auto simp: choose_enc_def enc_wf_def cipher_by_name_def find_Some_iff split: option.splits)

lemma mac_setup_found: "mac_setup P (Some mac) name = Inr (Some a) \<Longrightarrow> \<exists>m \<in> set macs. ma_name m = name"
proof -
  have "mac_setup_loop P (Some mac) name ms = Inr (Some a) \<Longrightarrow> \<exists>m \<in> set ms. ma_name m = name" for ms
    by (induction ms) (auto split: if_splits)
  then show "mac_setup P (Some mac) name = Inr (Some a) \<Longrightarrow> \<exists>m \<in> set macs. ma_name m = name" by (simp add: mac_setup_def)
qed

lemma mac_setup_rename:
  assumes "m \<in> set macs" "mac_setup P (Some mac) (ma_name m) = Inr (Some a)"
  shows "mac_setup P (Some (mac\<lparr>mc_name := n\<rparr>)) (ma_name m) = Inr (Some (a\<lparr>mc_name := n\<rparr>))"
    and "mc_enabled a = mc_enabled mac" "mc_key a = mc_key mac"
  using assms(2) unfolding mac_setup_name [OF assms(1)] mac_setup_by_alg_def Let_def
  by (auto split: if_splits option.splits)

lemma choose_mac_wf: "choose_mac P client server = Inr mac \<Longrightarrow> mac_wf P mac \<and> \<not> mc_enabled mac \<and> mc_key mac = None"
proof -
  assume c: "choose_mac P client server = Inr mac"
  then obtain name a where a: "mac_setup P (Some mac_zero) name = Inr (Some a)"
    and mac: "mac = a\<lparr>mc_name := Some name, mc_key := None, mc_enabled := False\<rparr>"
    by (auto simp: choose_mac_def split: option.splits sum.splits)
  from mac_setup_found [OF a] obtain m where m: "m \<in> set macs" "name = ma_name m" by auto
  note r = mac_setup_rename [OF m(1) a [unfolded m(2)]]
  have "mac = (a\<lparr>mc_name := Some name\<rparr>)\<lparr>mc_key := None\<rparr>" using mac r(2,3) by (simp add: mac_zero_def)
  then show ?thesis using m r(1) [of "Some name"] r(2,3) unfolding mac_wf_def by (auto simp: mac_zero_def)
qed

lemma choose_comp_wf: "choose_comp client server = Inr c \<Longrightarrow> comp_wf c"
  by (auto simp: choose_comp_def comp_wf_def split: option.splits if_splits)

lemma choose_direction_wf:
  assumes "choose_direction V cprop sprop peer ctos k = Inr nk"
  shows "newkeys_wf (pv_mac V) nk" "mc_key_len (nk_mac nk) \<le> key_need nk"
  using assms choose_enc_wf choose_mac_wf choose_comp_wf
  by (auto simp: choose_direction_def Let_def rbind_eq_Inr newkeys_wf_def key_need_def split: if_splits)

section \<open>The two ends agree\<close>

lemma map_sum_id_Inr: "map_sum f id r = Inr a \<longleftrightarrow> r = Inr a"
  by (cases r) simp_all

lemma choose_direction_same:
  assumes "choose_direction V cprop sprop peer ctos k = Inr nk" "pv_alloc W" "pv_mac W = pv_mac V"
  shows "choose_direction W cprop sprop peer' ctos k' = Inr nk"
  using assms by (auto simp: choose_direction_def Let_def rbind_eq_Inr split: if_splits)

lemma choose_kex_same:
  "choose_kex client server k = Inr k1 \<Longrightarrow> \<exists>l1. choose_kex client server l = Inr l1 \<and> l1 = l\<lparr>kx_name := kx_name k1,
     kx_kex_type := kx_kex_type k1, kx_hash_alg := kx_hash_alg k1, kx_ec_nid := kx_ec_nid k1\<rparr>"
  by (auto simp: choose_kex_def split: option.splits if_splits)

lemma choose_hostkeyalg_same:
  "choose_hostkeyalg client server k = Inr k1 \<Longrightarrow> \<exists>l1. choose_hostkeyalg client server l = Inr l1 \<and>
     l1 = l\<lparr>kx_hostkey_alg := kx_hostkey_alg k1, kx_hostkey_type := kx_hostkey_type k1, kx_hostkey_nid := kx_hostkey_nid k1\<rparr>"
  by (auto simp: choose_hostkeyalg_def split: option.splits if_splits)

text \<open>What the ends have in common after the negotiation; the keys of one direction are the same on both sides.\<close>

definition kex_agree :: "kex \<Rightarrow> kex \<Rightarrow> bool" where
  "kex_agree c d \<longleftrightarrow>
     kx_name c = kx_name d \<and> kx_kex_type c = kx_kex_type d \<and> kx_hash_alg c = kx_hash_alg d \<and> kx_ec_nid c = kx_ec_nid d \<and>
     kx_hostkey_alg c = kx_hostkey_alg d \<and> kx_hostkey_type c = kx_hostkey_type d \<and> kx_hostkey_nid c = kx_hostkey_nid d \<and>
     kx_we_need c = kx_we_need d \<and> kx_dh_need c = kx_dh_need d \<and>
     kx_newkeys_out c = kx_newkeys_in d \<and> kx_newkeys_in c = kx_newkeys_out d"

text \<open>What the negotiation leaves of a state, apart from what it chooses.\<close>

definition kex_frame :: "kex \<Rightarrow> kex \<Rightarrow> bool" where
  "kex_frame k l \<longleftrightarrow> kx_server l = kx_server k \<and> kx_session_id l = kx_session_id k \<and> kx_my l = kx_my k \<and> kx_peer l = kx_peer k"

lemma choose_algorithms_agree:
  assumes a: "choose_algorithms V cprop sprop peer k = Inr k1" and W: "pv_alloc W" "pv_mac W = pv_mac V"
    and ends: "kx_server l = (\<not> kx_server k)"
  shows "\<exists>l1. choose_algorithms W cprop sprop peer' l = Inr l1 \<and> kex_agree k1 l1"
proof -
  from a obtain ka kb nki nko where
    ka: "choose_kex (prop_at cprop PROPOSAL_KEX_ALGS) (prop_at sprop PROPOSAL_KEX_ALGS) k = Inr ka"
    and kb: "choose_hostkeyalg (prop_at cprop PROPOSAL_SERVER_HOST_KEY_ALGS) (prop_at sprop PROPOSAL_SERVER_HOST_KEY_ALGS) ka = Inr kb"
    and i: "choose_direction V cprop sprop peer (kex_ctos kb MODE_IN) kb = Inr nki"
    and out: "choose_direction V cprop sprop peer (kex_ctos (set_kex_newkeys MODE_IN nki kb) MODE_OUT) (set_kex_newkeys MODE_IN nki kb) = Inr nko"
    and k1: "k1 = (set_kex_newkeys MODE_OUT nko (set_kex_newkeys MODE_IN nki kb))\<lparr>kx_we_need := max (key_need nki) (key_need nko),
      kx_dh_need := max (key_dh_need nki) (key_dh_need nko)\<rparr>"
    by (auto simp: choose_algorithms_def rbind_eq_Inr Let_def)
  from choose_kex_same [OF ka, of l] obtain la where la: "choose_kex (prop_at cprop PROPOSAL_KEX_ALGS) (prop_at sprop PROPOSAL_KEX_ALGS) l = Inr la"
    "la = l\<lparr>kx_name := kx_name ka, kx_kex_type := kx_kex_type ka, kx_hash_alg := kx_hash_alg ka, kx_ec_nid := kx_ec_nid ka\<rparr>" by blast
  from choose_hostkeyalg_same [OF kb, of la] obtain lb where
    lb: "choose_hostkeyalg (prop_at cprop PROPOSAL_SERVER_HOST_KEY_ALGS) (prop_at sprop PROPOSAL_SERVER_HOST_KEY_ALGS) la = Inr lb"
    "lb = la\<lparr>kx_hostkey_alg := kx_hostkey_alg kb, kx_hostkey_type := kx_hostkey_type kb, kx_hostkey_nid := kx_hostkey_nid kb\<rparr>" by blast
  have frame: "kx_server kb = kx_server k" "kx_name kb = kx_name ka" "kx_kex_type kb = kx_kex_type ka" "kx_hash_alg kb = kx_hash_alg ka"
      "kx_ec_nid kb = kx_ec_nid ka"
    using ka kb by (auto simp: choose_kex_def choose_hostkeyalg_def split: option.splits if_splits)
  have cross: "kex_ctos lb MODE_IN = kex_ctos (set_kex_newkeys MODE_IN nki kb) MODE_OUT"
    "kex_ctos (set_kex_newkeys MODE_IN nko lb) MODE_OUT = kex_ctos kb MODE_IN"
    using ends frame(1) by (auto simp: kex_ctos_def set_kex_newkeys_def lb la)
  define l1 where "l1 = (set_kex_newkeys MODE_OUT nki (set_kex_newkeys MODE_IN nko lb))\<lparr>kx_we_need := max (key_need nko) (key_need nki),
      kx_dh_need := max (key_dh_need nko) (key_dh_need nki)\<rparr>"
  have "choose_algorithms W cprop sprop peer' l = Inr l1"
    using la(1) lb(1) choose_direction_same [OF out W, of peer' lb, folded cross]
      choose_direction_same [OF i W, of peer' "set_kex_newkeys MODE_IN nko lb", folded cross]
    by (simp add: choose_algorithms_def failed_choice_def Let_def l1_def)
  moreover have "kex_agree k1 l1"
    using frame by (simp add: kex_agree_def k1 l1_def set_kex_newkeys_def la lb max.commute)
  ultimately show ?thesis by blast
qed

lemma choose_parts_frame:
  "choose_extensions seq peer k = Inr k1 \<Longrightarrow> kex_frame k k1 \<and> kx_flags k1 = kx_flags k"
  "kex_frame k (choose_rsa_sha2 peer k)"
  by (auto simp: choose_extensions_def choose_rsa_sha2_def kex_frame_def Let_def split: if_splits)

lemma choose_extensions_ok: "(kx_flags k AND KEX_INITIAL \<noteq> 0 \<Longrightarrow> seq = 0) \<Longrightarrow> \<exists>k1. choose_extensions seq peer k = Inr k1"
  by (auto simp: choose_extensions_def Let_def)

lemma choose_conf_agree:
  assumes "kx_server d = (\<not> kx_server c)" and "kx_peer d = kx_my c" "kx_my d = kx_peer c"
    and "pv_alloc W" and "pv_mac W = pv_mac V" and "\<And>f peer. kex_buf2prop (pv_alloc W) (kx_peer d) = Inr (f, peer) \<Longrightarrow> \<exists>da. choose_extensions seq' peer d = Inr da"
    and "choose_conf V seq c = Inr (c1, skip)"
  shows "\<exists>d1 skip'. choose_conf W seq' d = Inr (d1, skip') \<and> kex_agree c1 d1"
proof -
  obtain f my where my: "kex_buf2prop (pv_alloc V) (kx_my c) = Inr (f, my)"
    using assms(7) by (auto simp: choose_conf_def rbind_eq_Inr map_sum_id_Inr)
  obtain g peer where peer: "kex_buf2prop (pv_alloc V) (kx_peer c) = Inr (g, peer)"
    using assms(7) my by (auto simp: choose_conf_def rbind_eq_Inr map_sum_id_Inr)
  obtain ca where ca: "choose_extensions seq peer c = Inr ca"
    and alg: "choose_algorithms V (if kx_server c then peer else my) (if kx_server c then my else peer) peer (choose_rsa_sha2 peer ca) = Inr c1"
    using assms(7) my peer by (auto simp: choose_conf_def rbind_eq_Inr Let_def)
  have "pv_alloc V" using my by (simp add: kex_buf2prop_def split: if_splits)
  then have bufs: "kex_buf2prop (pv_alloc W) (kx_my d) = Inr (g, peer)" "kex_buf2prop (pv_alloc W) (kx_peer d) = Inr (f, my)"
    using my peer assms(2-4) by simp_all
  obtain da where da: "choose_extensions seq' my d = Inr da" using assms(6) [OF bufs(2)] by blast
  have "kx_server (choose_rsa_sha2 my da) = (\<not> kx_server (choose_rsa_sha2 peer ca))"
    using choose_parts_frame(1) [OF ca] choose_parts_frame(1) [OF da] choose_parts_frame(2) [of ca peer] choose_parts_frame(2) [of da my] assms(1)
    by (simp add: kex_frame_def)
  from choose_algorithms_agree [OF alg assms(4,5) this, of my] obtain d1 where
    "choose_algorithms W (if kx_server c then peer else my) (if kx_server c then my else peer) my (choose_rsa_sha2 my da) = Inr d1" "kex_agree c1 d1"
    by blast
  then show ?thesis using bufs da assms(1) by (cases "kx_server c") (auto simp: choose_conf_def)
qed


lemma choose_conf_same:
  assumes "kx_server d = (\<not> kx_server c)" and "kx_peer d = kx_my c" "kx_my d = kx_peer c" and "pv_mac W = pv_mac V"
    and "choose_conf V seq c = Inr (c1, skip)" and "choose_conf W seq' d = Inr (d1, skip')"
  shows "kex_agree c1 d1"
proof -
  have "pv_alloc W" using assms(6) by (auto simp: choose_conf_def rbind_eq_Inr kex_buf2prop_def split: if_splits)
  moreover have "\<exists>da. choose_extensions seq' peer d = Inr da" if "kex_buf2prop (pv_alloc W) (kx_peer d) = Inr (f, peer)" for f peer
    using that assms(6) by (auto simp: choose_conf_def rbind_eq_Inr)
  ultimately show ?thesis using choose_conf_agree [OF assms(1-3) _ assms(4) _ assms(5), of seq'] assms(6) by auto
qed

text \<open>
  (C6) A client and a server that have each other's proposal negotiate the same: if the negotiation succeeds at one end it succeeds at
  the other, with the same method, host key algorithm and size of the key material, and what one end will use to send the other will
  use to receive.
\<close>

theorem kex_choose_conf_agree:
  assumes "kx_server d = (\<not> kx_server c)" and "kx_peer d = kx_my c" "kx_my d = kx_peer c"
    and "pv_alloc W" and "pv_mac W = pv_mac V" and "kx_flags d AND KEX_INITIAL \<noteq> 0 \<Longrightarrow> seq' = 0"
    and "choose_conf V seq c = Inr (c1, skip)"
  shows "\<exists>d1 skip'. choose_conf W seq' d = Inr (d1, skip') \<and> kex_agree c1 d1"
  using choose_conf_agree [OF assms(1-5) choose_extensions_ok [OF assms(6)] assms(7)] .

section \<open>Key material\<close>

lemma kdf_hash_length: "kdf_hash M alg ms = Inr h \<Longrightarrow> length h = ssh_digest_bytes alg"
proof -
  have "ssh_digest_final M ctx n = Inr h \<Longrightarrow> length h = ssh_digest_bytes (dc_alg ctx)" for ctx n
    by (auto simp: ssh_digest_final_def ssh_digest_bytes_def Let_def split: option.splits if_splits)
  moreover have "digest_updates M ctx ms = Inr ctx' \<Longrightarrow> dc_alg ctx' = dc_alg ctx" for ctx ctx'
    by (induction ms arbitrary: ctx) (auto simp: rbind_eq_Inr ssh_digest_update_def split: if_splits)
  moreover have "ssh_digest_start M alg = Some ctx \<Longrightarrow> dc_alg ctx = alg" for ctx
    by (auto simp: ssh_digest_start_def split: option.splits if_splits)
  ultimately show "kdf_hash M alg ms = Inr h \<Longrightarrow> length h = ssh_digest_bytes alg"
    by (fastforce simp: kdf_hash_def rbind_eq_Inr split: option.splits sum.splits)
qed

lemma expand_key_length:
  assumes "0 < mdsz" "length digest = n" "\<And>d h. hash d = Inr h \<Longrightarrow> length h = mdsz" "expand_key hash mdsz need n digest = Inr key"
  shows "need \<le> length key"
  using assms
proof (induction hash mdsz need n digest rule: expand_key.induct)
  case (1 hash mdsz need n digest)
  show ?case
  proof (cases "need > n")
    case True
    with 1(5) 1(2) obtain h where h: "hash digest = Inr h" "expand_key hash mdsz need (n + mdsz) (digest @ h) = Inr key"
      by (subst (asm) expand_key.simps) (auto simp: rbind_eq_Inr)
    show ?thesis by (rule 1(1) [OF _ 1(2) _ 1(4) h(2)]) (use True 1 h in auto)
  qed (use 1 in \<open>auto simp: expand_key.simps\<close>)
qed

lemma derive_key_length:
  assumes "derive_key V k ident need hash secret = Inr key"
  shows "need \<le> length key"
proof -
  obtain digest where d: "kdf_hash (mo_md (pv_mac V)) (kx_hash_alg k) [secret, hash, [ident], kx_session_id k] = Inr digest"
    and e: "expand_key (\<lambda>d. kdf_hash (mo_md (pv_mac V)) (kx_hash_alg k) [secret, hash, d]) (ssh_digest_bytes (kx_hash_alg k)) need
      (ssh_digest_bytes (kx_hash_alg k)) digest = Inr key" and "ssh_digest_bytes (kx_hash_alg k) \<noteq> 0"
    using assms by (auto simp: derive_key_def Let_def rbind_eq_Inr split: if_splits)
  then show ?thesis by (intro expand_key_length [OF _ kdf_hash_length [OF d] kdf_hash_length e]) auto
qed

lemma derive_keys_length:
  "derive_keys V k cs hash secret = Inr keys \<Longrightarrow> length keys = length cs \<and> (\<forall>key \<in> set keys. kx_we_need k \<le> length key)"
  by (induction cs arbitrary: keys) (auto simp: rbind_eq_Inr dest: derive_key_length)

text \<open>Keys that are there and as long as the algorithms ask for.\<close>

definition keys_filled :: "newkeys \<Rightarrow> bool" where
  "keys_filled nk \<longleftrightarrow>
     (\<exists>key iv mkey. en_key (nk_enc nk) = Some key \<and> en_iv (nk_enc nk) = Some iv \<and> mc_key (nk_mac nk) = Some mkey \<and>
        en_key_len (nk_enc nk) \<le> length key \<and> en_iv_len (nk_enc nk) \<le> length iv \<and> mc_key_len (nk_mac nk) \<le> length mkey)"

lemma install_keys_wf:
  assumes "newkeys_wf P nk" "length keys = 6" "\<forall>key \<in> set keys. key_need nk \<le> length key"
  shows "newkeys_wf P (install_keys keys ctos nk)" "keys_filled (install_keys keys ctos nk)"
proof -
  show "newkeys_wf P (install_keys keys ctos nk)"
    using assms(1) by (auto simp: newkeys_wf_def install_keys_def enc_wf_def intro: mac_wf_key)
  have "key_need nk \<le> length (keys ! i)" if "i < 6" for i using assms(2,3) that by simp
  then show "keys_filled (install_keys keys ctos nk)"
    by (force simp: keys_filled_def install_keys_def key_need_def)
qed

lemma flag_other: "a AND b = 0 \<Longrightarrow> (w OR a) AND b = w AND (b :: 32 word)"
  by (simp add: bit.conj_disj_distrib2)

lemma choose_conf_parts:
  assumes "choose_conf V seq k = Inr (k1, skip)"
  obtains cprop sprop peer l where "choose_algorithms V cprop sprop peer l = Inr k1" and "kex_frame k l"
    and "kx_flags l AND KEX_INITIAL = kx_flags k AND KEX_INITIAL"
proof -
  obtain f my where my: "kex_buf2prop (pv_alloc V) (kx_my k) = Inr (f, my)"
    using assms by (auto simp: choose_conf_def rbind_eq_Inr map_sum_id_Inr)
  obtain g peer where peer: "kex_buf2prop (pv_alloc V) (kx_peer k) = Inr (g, peer)"
    using assms my by (auto simp: choose_conf_def rbind_eq_Inr map_sum_id_Inr)
  obtain ka where ka: "choose_extensions seq peer k = Inr ka"
    and alg: "choose_algorithms V (if kx_server k then peer else my) (if kx_server k then my else peer) peer (choose_rsa_sha2 peer ka) = Inr k1"
    using assms my peer by (auto simp: choose_conf_def rbind_eq_Inr Let_def)
  have "kex_frame k (choose_rsa_sha2 peer ka)"
    using choose_parts_frame(1) [OF ka] choose_parts_frame(2) [of ka peer] by (simp add: kex_frame_def)
  moreover have "kx_flags (choose_rsa_sha2 peer ka) AND KEX_INITIAL = kx_flags k AND KEX_INITIAL"
    using choose_parts_frame(1) [OF ka]
    by (simp add: choose_rsa_sha2_def Let_def KEX_INITIAL_def KEX_RSA_SHA2_256_SUPPORTED_def KEX_RSA_SHA2_512_SUPPORTED_def flag_other)
  ultimately show thesis using that alg by blast
qed

lemma choose_algorithms_wf:
  assumes "choose_algorithms V cprop sprop peer k = Inr k1"
  shows "\<exists>i out. kx_newkeys_in k1 = Some i \<and> kx_newkeys_out k1 = Some out \<and> newkeys_wf (pv_mac V) i \<and> newkeys_wf (pv_mac V) out \<and>
    key_need i \<le> kx_we_need k1 \<and> key_need out \<le> kx_we_need k1"
    and "kex_frame k k1" "kx_flags k1 = kx_flags k"
proof -
  from assms obtain ka kb nki nko where
    kab: "choose_kex (prop_at cprop PROPOSAL_KEX_ALGS) (prop_at sprop PROPOSAL_KEX_ALGS) k = Inr ka"
      "choose_hostkeyalg (prop_at cprop PROPOSAL_SERVER_HOST_KEY_ALGS) (prop_at sprop PROPOSAL_SERVER_HOST_KEY_ALGS) ka = Inr kb"
    and dirs: "choose_direction V cprop sprop peer (kex_ctos kb MODE_IN) kb = Inr nki"
      "choose_direction V cprop sprop peer (kex_ctos (set_kex_newkeys MODE_IN nki kb) MODE_OUT) (set_kex_newkeys MODE_IN nki kb) = Inr nko"
    and k1: "k1 = (set_kex_newkeys MODE_OUT nko (set_kex_newkeys MODE_IN nki kb))\<lparr>kx_we_need := max (key_need nki) (key_need nko),
      kx_dh_need := max (key_dh_need nki) (key_dh_need nko)\<rparr>"
    by (auto simp: choose_algorithms_def rbind_eq_Inr Let_def)
  from dirs [THEN choose_direction_wf(1)] show "\<exists>i out. kx_newkeys_in k1 = Some i \<and> kx_newkeys_out k1 = Some out \<and> newkeys_wf (pv_mac V) i \<and>
      newkeys_wf (pv_mac V) out \<and> key_need i \<le> kx_we_need k1 \<and> key_need out \<le> kx_we_need k1"
    by (simp add: k1 set_kex_newkeys_def)
  have "kex_frame k kb \<and> kx_flags kb = kx_flags k"
    using kab by (auto simp: choose_kex_def choose_hostkeyalg_def kex_frame_def split: option.splits if_splits)
  then show "kex_frame k k1" "kx_flags k1 = kx_flags k" by (simp_all add: k1 set_kex_newkeys_def kex_frame_def)
qed

lemma derive_parts:
  assumes "kex_derive_keys V hash secret k = Inr k2" "kx_newkeys_in k = Some i" "kx_newkeys_out k = Some out"
  obtains sid keys where "save_session_id hash k = Inr sid"
    and "derive_keys V (k\<lparr>kx_session_id := sid\<rparr>) [65, 66, 67, 68, 69, 70] hash secret = Inr keys"
    and "length keys = 6" "\<forall>key \<in> set keys. kx_we_need k \<le> length key"
    and "k2 = k\<lparr>kx_session_id := sid, kx_newkeys_in := Some (install_keys keys (kex_ctos k MODE_IN) i),
      kx_newkeys_out := Some (install_keys keys (kex_ctos k MODE_OUT) out)\<rparr>"
proof -
  obtain sid keys where s: "save_session_id hash k = Inr sid"
    and keys: "derive_keys V (k\<lparr>kx_session_id := sid\<rparr>) [65, 66, 67, 68, 69, 70] hash secret = Inr keys"
    using assms(1) unfolding kex_derive_keys_def rbind_eq_Inr Let_def by blast
  show thesis
    using that [OF s keys] derive_keys_length [OF keys] assms s keys by (simp add: kex_derive_keys_def kex_ctos_def)
qed

lemma derived_newkeys:
  assumes "choose_conf V seq k = Inr (k1, skip)" and "kex_derive_keys V hash secret k1 = Inr k2"
  obtains i out i2 out2 where "kx_newkeys_in k1 = Some i" "kx_newkeys_out k1 = Some out" "kx_newkeys_in k2 = Some i2" "kx_newkeys_out k2 = Some out2"
    and "newkeys_wf (pv_mac V) i2" "keys_filled i2" "newkeys_wf (pv_mac V) out2" "keys_filled out2"
    and "en_cipher (nk_enc out2) = en_cipher (nk_enc out)"
proof -
  obtain cprop sprop peer l where a: "choose_algorithms V cprop sprop peer l = Inr k1" by (rule choose_conf_parts [OF assms(1)])
  from choose_algorithms_wf(1) [OF a] obtain i out where io: "kx_newkeys_in k1 = Some i" "kx_newkeys_out k1 = Some out"
    and wf: "newkeys_wf (pv_mac V) i" "newkeys_wf (pv_mac V) out" "key_need i \<le> kx_we_need k1" "key_need out \<le> kx_we_need k1" by blast
  obtain sid keys where keys: "length keys = 6" "\<forall>key \<in> set keys. kx_we_need k1 \<le> length key"
    and k2: "k2 = k1\<lparr>kx_session_id := sid, kx_newkeys_in := Some (install_keys keys (kex_ctos k1 MODE_IN) i),
      kx_newkeys_out := Some (install_keys keys (kex_ctos k1 MODE_OUT) out)\<rparr>" by (rule derive_parts [OF assms(2) io])
  have "\<forall>key \<in> set keys. key_need i \<le> length key" "\<forall>key \<in> set keys. key_need out \<le> length key" using keys(2) wf by fastforce+
  with install_keys_wf keys(1) wf that [OF io] show thesis by (simp add: k2 install_keys_def)
qed

text \<open>
  (C7) Whatever the peer proposes, the keys that come out of the negotiation and the derivation are well-formed in both directions: the cipher, MAC and
  compression are of the tables, the lengths are those of the cipher, a MAC is set up unless the cipher authenticates, and the key, the
  initial vector and the MAC key are at least as long as those lengths.
\<close>

theorem kex_newkeys_typed:
  assumes "choose_conf V seq k = Inr (k1, skip)" and "kex_derive_keys V hash secret k1 = Inr k2"
  shows "\<exists>i out. kx_newkeys_in k2 = Some i \<and> kx_newkeys_out k2 = Some out \<and>
    newkeys_wf (pv_mac V) i \<and> keys_filled i \<and> newkeys_wf (pv_mac V) out \<and> keys_filled out"
  by (rule derived_newkeys [OF assms]) simp

lemma kex_frame_trans: "kex_frame a b \<Longrightarrow> kex_frame b c \<Longrightarrow> kex_frame a c"
  by (simp add: kex_frame_def)

lemma choose_conf_frame:
  assumes "choose_conf V seq k = Inr (k1, skip)"
  shows "kex_frame k k1" "kx_flags k1 AND KEX_INITIAL = kx_flags k AND KEX_INITIAL"
proof -
  obtain cprop sprop peer l where a: "choose_algorithms V cprop sprop peer l = Inr k1" and l: "kex_frame k l"
    "kx_flags l AND KEX_INITIAL = kx_flags k AND KEX_INITIAL" by (rule choose_conf_parts [OF assms])
  show "kex_frame k k1" using choose_algorithms_wf(2) [OF a] l(1) kex_frame_trans by blast
  show "kx_flags k1 AND KEX_INITIAL = kx_flags k AND KEX_INITIAL" using choose_algorithms_wf(3) [OF a] l(2) by simp
qed

lemma derive_key_same:
  assumes "kx_hash_alg l = kx_hash_alg k" "kx_session_id l = kx_session_id k" "pv_mac W = pv_mac V" "pv_alloc W = pv_alloc V"
  shows "derive_key W l = derive_key V k"
  by (intro ext) (simp only: derive_key_def assms)

lemma derive_keys_same:
  assumes "kx_hash_alg l = kx_hash_alg k" "kx_session_id l = kx_session_id k" "kx_we_need l = kx_we_need k"
    "pv_mac W = pv_mac V" "pv_alloc W = pv_alloc V"
  shows "derive_keys W l cs hash secret = derive_keys V k cs hash secret"
  by (induction cs) (simp_all add: assms derive_key_same [OF assms(1,2,4,5)])

lemma kex_derive_keys_agree:
  assumes agree: "kex_agree c d" and ends: "kx_server d = (\<not> kx_server c)" and sid: "kx_session_id d = kx_session_id c"
    and flags: "kx_flags d AND KEX_INITIAL = kx_flags c AND KEX_INITIAL" and env: "pv_mac W = pv_mac V" "pv_alloc W = pv_alloc V"
    and io: "kx_newkeys_in c = Some i" "kx_newkeys_out c = Some out" and r: "kex_derive_keys V hash secret c = Inr c2"
  shows "\<exists>d2. kex_derive_keys W hash secret d = Inr d2 \<and> kex_agree c2 d2"
proof -
  obtain s keys where sc: "save_session_id hash c = Inr s"
    and keys: "derive_keys V (c\<lparr>kx_session_id := s\<rparr>) [65, 66, 67, 68, 69, 70] hash secret = Inr keys"
    and c2: "c2 = c\<lparr>kx_session_id := s, kx_newkeys_in := Some (install_keys keys (kex_ctos c MODE_IN) i),
      kx_newkeys_out := Some (install_keys keys (kex_ctos c MODE_OUT) out)\<rparr>"
    by (rule derive_parts [OF r io])
  have sd: "save_session_id hash d = Inr s" using sc unfolding save_session_id_def sid flags .
  have "derive_keys W (d\<lparr>kx_session_id := s\<rparr>) [65, 66, 67, 68, 69, 70] hash secret = Inr keys"
    using keys agree env by (subst derive_keys_same [of _ "c\<lparr>kx_session_id := s\<rparr>" W V]) (simp_all add: kex_agree_def)
  moreover have "kx_newkeys_in d = Some out" "kx_newkeys_out d = Some i" using agree io by (simp_all add: kex_agree_def)
  ultimately have "kex_derive_keys W hash secret d = Inr (d\<lparr>kx_session_id := s,
      kx_newkeys_in := Some (install_keys keys (kex_ctos d MODE_IN) out), kx_newkeys_out := Some (install_keys keys (kex_ctos d MODE_OUT) i)\<rparr>)"
    unfolding kex_derive_keys_def sd rbind_simps Let_def by (simp add: kex_ctos_def)
  moreover have "kex_ctos d MODE_IN = kex_ctos c MODE_OUT" "kex_ctos d MODE_OUT = kex_ctos c MODE_IN" using ends by (auto simp: kex_ctos_def)
  ultimately show ?thesis using agree by (simp add: kex_agree_def c2)
qed

text \<open>What taking the keys into use leaves, when compression does not start.\<close>

lemma set_newkeys_result:
  assumes r: "ssh_set_newkeys V m s = Inr t" and k: "s_kex s = Some k" and nk: "get_kex_newkeys m k = Some nk"
    and nc: "co_type (nk_comp nk) = COMP_DELAYED \<Longrightarrow> \<not> s_after_authentication s"
  obtains mac key cc where
    "if cipher_authlen (en_cipher (nk_enc nk)) = 0 then mac_init (pv_mac V) (nk_mac nk) = Inr mac else mac = nk_mac nk"
    and "key_bytes (en_key (nk_enc nk)) (en_key_len (nk_enc nk)) = Inr key"
    and "cipher_init (pv_evp V) (pv_alloc V) (en_cipher (nk_enc nk)) key (map_option (take (en_iv_len (nk_enc nk))) (en_iv (nk_enc nk))) (m = MODE_OUT) = Inr cc"
    and "t = set_block_limits m (en_block_size (nk_enc nk)) (set_newkeys m (Some (nk\<lparr>nk_mac := mac\<lparr>mc_enabled := True\<rparr>\<rparr>))
      (set_context m cc ((reset_counters m s)\<lparr>s_kex := Some (clear_kex_newkeys m k)\<rparr>)))"
proof -
  have k': "the_kex (reset_counters m s) = Inr k" using k by (cases m) (simp_all add: the_kex_def reset_counters_def)
  obtain mac where mac: "(if cipher_authlen (en_cipher (nk_enc nk)) = 0 then lift_err (mac_init (pv_mac V) (nk_mac nk)) else Inr (nk_mac nk)) = Inr mac"
    using r unfolding ssh_set_newkeys_def Let_def k' rbind_simps nk option.case by (auto simp: rbind_eq_Inr)
  obtain key where key: "key_bytes (en_key (nk_enc nk)) (en_key_len (nk_enc nk)) = Inr key"
    using r unfolding ssh_set_newkeys_def Let_def k' rbind_simps nk option.case mac by (auto simp: rbind_eq_Inr)
  obtain cc where cc: "cipher_init (pv_evp V) (pv_alloc V) (en_cipher (nk_enc nk)) key (map_option (take (en_iv_len (nk_enc nk))) (en_iv (nk_enc nk))) (m = MODE_OUT) = Inr cc"
    using r unfolding ssh_set_newkeys_def Let_def k' rbind_simps nk option.case mac key by (auto simp: rbind_eq_Inr)
  have auth: "s_after_authentication (set_newkeys m x (set_context m cc ((reset_counters m s)\<lparr>s_kex := y\<rparr>))) = s_after_authentication s" for x y
    by (cases m) (simp_all add: set_newkeys_def set_context_def reset_counters_def)
  have "set_newkeys_compression V m (nk\<lparr>nk_mac := x\<rparr>) u = Inr u" if "s_after_authentication u = s_after_authentication s" for x u
    using nc that by (auto simp: set_newkeys_compression_def)
  then have "t = set_block_limits m (en_block_size (nk_enc nk)) (set_newkeys m (Some (nk\<lparr>nk_mac := mac\<lparr>mc_enabled := True\<rparr>\<rparr>))
      (set_context m cc ((reset_counters m s)\<lparr>s_kex := Some (clear_kex_newkeys m k)\<rparr>)))"
    using r auth unfolding ssh_set_newkeys_def Let_def k' rbind_simps nk option.case mac key cc lift_err_simps by simp
  then show thesis using that mac key cc by (simp split: if_splits)
qed

lemma mac_init_keyed:
  assumes P: "mac_sizes P" and wf: "mac_wf P mac" and key: "mc_key mac = Some key" and i: "mac_init P mac = Inr mac1"
  shows "\<exists>m. mac_keyed P m key mac1"
proof -
  from wf obtain m a x where m: "m \<in> set macs" and a: "mac_setup P (Some (mac_zero\<lparr>mc_name := Some (ma_name m)\<rparr>)) (ma_name m) = Inr (Some a)"
    and mac: "mac = a\<lparr>mc_key := x\<rparr>" by (auto simp: mac_wf_def)
  have mac: "mac = a\<lparr>mc_key := Some key\<rparr>" using mac key by simp
  obtain a' mac2 where "mac_setup P (Some (mac_zero\<lparr>mc_name := Some (ma_name m)\<rparr>)) (ma_name m) = Inr (Some a')"
    and "mac_init P (a'\<lparr>mc_key := Some key\<rparr>) = Inr mac2" and "mac_keyed P m key mac2"
    by (rule mac_setup_keyed [OF P m])
  then show ?thesis using a i mac by auto
qed

section \<open>Proposals on the wire\<close>

lemma get_proposals_enc:
  assumes "\<forall>p \<in> set ps. 0 \<notin> set (str_bytes p) \<and> length p \<le> SSHBUF_SIZE_MAX - 4"
  shows "get_proposals (length ps) (concat (map (\<lambda>p. enc_string (str_bytes p)) ps) @ rest) = Inr (ps, rest)"
  using assms 
proof (induction ps)
  case (Cons p ps)
  have "valid_cstring (str_bytes p)" using Cons.prems by (auto simp: valid_cstring_def dest: in_set_butlastD)
  then show ?case using Cons by (simp add: bytes_get_cstring_enc cstring_of_str_bytes)
qed simp

lemma concat_replicate_1: "concat (replicate n [x]) = replicate n x"
  by (induction n) simp_all

lemma kex_proposals_read_back:
  assumes "kex_prop2buf ps = Inr b" "length ps = PROPOSAL_MAX" "\<forall>p \<in> set ps. 0 \<notin> set (str_bytes p)"
  shows "kex_buf2prop True b = Inr (0, ps)"
proof -
  have b: "b = replicate KEX_COOKIE_LEN 0 @ concat (map (\<lambda>p. enc_string (str_bytes p)) ps) @ 0 # POKE_U32 0 @ []"
    and len: "length b \<le> SSHBUF_SIZE_MAX"
    using assms(1) by (auto simp: kex_prop2buf_def buf_appends_eq concat_replicate_1 split: if_splits)
  have "length p \<le> SSHBUF_SIZE_MAX - 4" if p: "p \<in> set ps" for p
  proof -
    obtain xs ys where "ps = xs @ p # ys" using p by (meson split_list)
    then have "4 + length p \<le> length b" by (simp add: b)
    then show ?thesis using len by simp
  qed
  then have "get_proposals PROPOSAL_MAX (concat (map (\<lambda>p. enc_string (str_bytes p)) ps) @ 0 # POKE_U32 0 @ []) = Inr (ps, 0 # POKE_U32 0 @ [])"
    using get_proposals_enc [of ps "0 # POKE_U32 0 @ []"] assms(2,3) by simp
  moreover have "bytes_get_u32 (POKE_U32 0) = Inr (0, [])" using bytes_get_encoded(2) [of 0 "[]"] by simp
  ultimately show ?thesis unfolding kex_buf2prop_def b by (simp add: bytes_get_def)
qed

section \<open>Keys can always be derived\<close>

lemma kdf_hash_value:
  assumes "md_lengths M" "md_ok M" "ssh_digest_by_alg alg = Some d"
  shows "kdf_hash M alg ms = Inr (md_hash M alg (concat ms))"
proof -
  have "digest_updates M ctx ms = Inr (ctx\<lparr>dc_data := dc_data ctx @ concat ms\<rparr>)" for ctx
    using assms(2) by (induction ms arbitrary: ctx) (simp_all add: ssh_digest_update_def)
  then show ?thesis
    using assms md_lengthsD [OF assms(1,3)] order_trans [OF md_lengthsD(2,3) [OF assms(1,3)]]
    by (simp add: kdf_hash_def ssh_digest_start_def ssh_digest_final_def ssh_digest_bytes_def Let_def)
qed

lemma expand_key_total: "(\<And>d. \<exists>h. hash d = Inr h) \<Longrightarrow> \<exists>key. expand_key hash mdsz need n digest = Inr key"
proof (induction hash mdsz need n digest rule: expand_key.induct)
  case (1 hash mdsz need n digest)
  obtain h where "hash digest = Inr h" using 1(2) by blast
  then show ?case using 1(1) [OF _ 1(2), of h] by (subst expand_key.simps) auto
qed

lemma derive_keys_total:
  assumes "md_lengths (mo_md (pv_mac V))" "md_ok (mo_md (pv_mac V))" "ssh_digest_by_alg (kx_hash_alg k) = Some d" "dg_len d \<noteq> 0"
    and "pv_alloc V" "kx_we_need k \<noteq> 0"
  shows "\<exists>keys. derive_keys V k cs hash secret = Inr keys"
proof (induction cs)
  case (Cons c cs)
  then obtain keys where keys: "derive_keys V k cs hash secret = Inr keys" by blast
  let ?H = "\<lambda>d. kdf_hash (mo_md (pv_mac V)) (kx_hash_alg k) [secret, hash, d]"
  let ?n = "ssh_digest_bytes (kx_hash_alg k)"
  let ?d = "md_hash (mo_md (pv_mac V)) (kx_hash_alg k) (concat [secret, hash, [c], kx_session_id k])"
  note v = kdf_hash_value [OF assms(1-3)]
  obtain key where "expand_key ?H ?n (kx_we_need k) ?n ?d = Inr key"
    using expand_key_total [of ?H ?n "kx_we_need k" ?n ?d] v by blast
  then have "derive_key V k c (kx_we_need k) hash secret = Inr key"
    using assms v by (simp add: derive_key_def Let_def ssh_digest_bytes_def)
  then show ?case using keys by simp
qed simp

section \<open>An example\<close>

definition example_proposal :: "string list" where
  "example_proposal = [''curve25519-sha256'', ''ssh-ed25519'', ''chacha20-poly1305@openssh.com'', ''chacha20-poly1305@openssh.com'',
     ''hmac-sha2-256'', ''hmac-sha2-256'', ''none'', ''none'', [], []]"

definition example_kexinit :: "byte list" where
  "example_kexinit = concat (replicate 16 [0] @ map (\<lambda>p. enc_string (str_bytes p)) example_proposal @ [[0], POKE_U32 0])"

definition example_kex :: "bool \<Rightarrow> kex" where
  "example_kex server = kex_new\<lparr>kx_server := server, kx_my := example_kexinit, kx_peer := example_kexinit, kx_flags := KEX_INITIAL\<rparr>"

definition negotiated :: "kex \<Rightarrow> bool" where
  "negotiated k \<longleftrightarrow> kx_name k = Some ''curve25519-sha256'' \<and> kx_hash_alg k = SSH_DIGEST_SHA256 \<and> kx_we_need k = 64 \<and>
     map_option (\<lambda>nk. ci_name (en_cipher (nk_enc nk))) (kx_newkeys_out k) = Some ''chacha20-poly1305@openssh.com'' \<and>
     map_option (\<lambda>nk. ci_name (en_cipher (nk_enc nk))) (kx_newkeys_in k) = Some ''chacha20-poly1305@openssh.com''"

lemma example_choose_algorithms:
  "case choose_algorithms example_env_mac example_proposal example_proposal example_proposal (example_kex False) of
     Inl e \<Rightarrow> False | Inr k \<Rightarrow> negotiated k"
  by code_simp

lemma example_no_nul: "\<forall>p \<in> set example_proposal. 0 \<notin> set (str_bytes p)"
  by code_simp

lemma example_kexinit_read: "kex_buf2prop True example_kexinit = Inr (0, example_proposal)"
proof (rule kex_proposals_read_back)
  show "kex_prop2buf example_proposal = Inr example_kexinit"
    by (simp add: kex_prop2buf_def buf_appends_eq example_kexinit_def KEX_COOKIE_LEN_def concat_replicate_1)
      (simp add: example_proposal_def SSHBUF_SIZE_MAX_def)
  show "length example_proposal = PROPOSAL_MAX" by (simp add: example_proposal_def PROPOSAL_MAX_def)
qed (rule example_no_nul)

lemma example_no_extensions: "choose_extensions 0 example_proposal (example_kex server) = Inr ((example_kex server)\<lparr>kx_kex_strict := 0\<rparr>)"
proof -
  have "\<not> kexalgs_contains example_proposal ''ext-info-c''" "\<not> kexalgs_contains example_proposal ''ext-info-s''"
    "\<not> kexalgs_contains example_proposal ''kex-strict-c-v00@openssh.com''" "\<not> kexalgs_contains example_proposal ''kex-strict-s-v00@openssh.com''"
    by code_simp+
  then show ?thesis by (simp add: choose_extensions_def Let_def example_kex_def kex_new_def)
qed

lemma example_choose_conf: "\<exists>c1 skip. choose_conf example_env_mac 0 (example_kex False) = Inr (c1, skip) \<and> negotiated c1"
proof -
  have "(example_kex server)\<lparr>kx_kex_strict := 0\<rparr> = example_kex server" for server by (simp add: example_kex_def kex_new_def)
  moreover have "choose_rsa_sha2 example_proposal (example_kex False) = example_kex False"
    by (simp add: choose_rsa_sha2_def example_kex_def kex_new_def)
  moreover have "pv_alloc example_env_mac" "\<not> kx_server (example_kex False)" "kx_my (example_kex False) = example_kexinit"
      "kx_peer (example_kex False) = example_kexinit"
    by (simp_all add: example_env_mac_def example_env_def example_kex_def kex_new_def)
  ultimately show ?thesis
    using example_choose_algorithms by (auto simp: choose_conf_def example_kexinit_read example_no_extensions split: sum.splits)
qed

lemma example_kex_ends:
  "kx_server (example_kex True) = (\<not> kx_server (example_kex False))" "kx_peer (example_kex b) = example_kexinit"
  "kx_my (example_kex b) = example_kexinit" "kx_session_id (example_kex b) = []" "kx_flags (example_kex b) = KEX_INITIAL"
  by (simp_all add: example_kex_def kex_new_def)

lemma example_alloc: "pv_alloc example_env_mac"
  by (simp add: example_env_mac_def example_env_def)

theorem kex_choose_conf_agree_witness:
  "\<exists>c1 d1 skip skip'. choose_conf example_env_mac 0 (example_kex False) = Inr (c1, skip) \<and>
    choose_conf example_env_mac 0 (example_kex True) = Inr (d1, skip') \<and> kx_name c1 = Some ''curve25519-sha256'' \<and> kex_agree c1 d1"
proof -
  obtain c1 skip where c1: "choose_conf example_env_mac 0 (example_kex False) = Inr (c1, skip)" "negotiated c1" using example_choose_conf by blast
  from kex_choose_conf_agree [of "example_kex True" "example_kex False" example_env_mac example_env_mac 0 0 c1 skip] c1
  show ?thesis by (auto simp: example_kex_ends example_alloc negotiated_def)
qed

lemma example_derive:
  assumes "negotiated k1" "kx_flags k1 AND KEX_INITIAL \<noteq> 0" "kx_session_id k1 = []"
  shows "\<exists>k2. kex_derive_keys example_env_mac [1] [2] k1 = Inr k2"
proof -
  have M: "md_lengths (mo_md (pv_mac example_env_mac))" "md_ok (mo_md (pv_mac example_env_mac))"
    using example_mac_sizes by (simp_all add: example_env_mac_def mac_sizes_def example_mac_ops_def example_md_def)
  have alg: "ssh_digest_by_alg (kx_hash_alg (k1\<lparr>kx_session_id := [1]\<rparr>)) = Some \<lparr>dg_id = SSH_DIGEST_SHA256, dg_name = ''SHA256'', dg_len = 32\<rparr>"
    using assms(1) by (simp add: negotiated_def ssh_digest_by_alg_def digests_def SSH_DIGEST_SHA256_def SSH_DIGEST_MAX_def)
  obtain keys where keys: "derive_keys example_env_mac (k1\<lparr>kx_session_id := [1]\<rparr>) [65, 66, 67, 68, 69, 70] [1] [2] = Inr keys"
    using derive_keys_total [OF M alg] example_alloc assms(1) by (fastforce simp: negotiated_def)
  have sid: "save_session_id [1] k1 = Inr [1]" using assms by (simp add: save_session_id_def buf_append_def buf_put_def SSHBUF_SIZE_MAX_def)
  obtain i out where "kx_newkeys_in k1 = Some i" "kx_newkeys_out k1 = Some out" using assms(1) by (auto simp: negotiated_def)
  then show ?thesis unfolding kex_derive_keys_def sid rbind_simps Let_def keys by simp
qed

lemma example_keys:
  obtains c1 skip c2 where "choose_conf example_env_mac 0 (example_kex False) = Inr (c1, skip)" "negotiated c1"
    "kex_derive_keys example_env_mac [1] [2] c1 = Inr c2"
proof -
  obtain c1 skip where c1: "choose_conf example_env_mac 0 (example_kex False) = Inr (c1, skip)" "negotiated c1" using example_choose_conf by blast
  note f = choose_conf_frame [OF c1(1)]
  have "kx_flags c1 AND KEX_INITIAL \<noteq> 0" "kx_session_id c1 = []"
    using f by (simp_all add: kex_frame_def example_kex_ends KEX_INITIAL_def)
  with example_derive [OF c1(2)] that c1 show thesis by blast
qed

theorem kex_newkeys_typed_witness:
  "\<exists>c1 skip c2 i out. choose_conf example_env_mac 0 (example_kex False) = Inr (c1, skip) \<and>
    kex_derive_keys example_env_mac [1] [2] c1 = Inr c2 \<and> kx_newkeys_in c2 = Some i \<and> kx_newkeys_out c2 = Some out \<and>
    keys_filled i \<and> keys_filled out"
  by (rule example_keys) (blast dest: kex_newkeys_typed)

end
