(* ===== verification/Kex_Link.thy ===== *)
theory Kex_Link
  imports Kex_Agree
begin

unbundle bit_operations_syntax

text \<open>
  The key exchange together with the packet layer: the two ends of an exchange can read each other's packets, and in a strict
  exchange every packet before the first keys counts.
\<close>

section \<open>From the negotiation to packets\<close>

text \<open>Two ends that take the same keys into use, one to send and one to receive.\<close>

lemma set_newkeys_linked:
  fixes s :: "('e, 'z) ssh" and r :: "('e, 'y) ssh"
  assumes P: "mac_sizes (pv_mac V)" and env: "pv_evp W = pv_evp V" "pv_mac W = pv_mac V" "pv_alloc W = pv_alloc V"
    and wf: "newkeys_wf (pv_mac V) nk" "keys_filled nk"
    and s: "s_kex s = Some k" "kx_newkeys_out k = Some nk" "\<not> s_after_authentication s" "ssh_set_newkeys V MODE_OUT s = Inr s1"
    and r: "s_kex r = Some l" "kx_newkeys_in l = Some nk" "\<not> s_after_authentication r" "ssh_set_newkeys W MODE_IN r = Inr r1"
    and rest: "ps_seqnr (s_p_send s) = ps_seqnr (s_p_read r)" "s_packlen r = 0" "s_packet_discard r = 0" "\<not> s_mux r"
    and pair: "\<And>a key iv sc rc. cipher_init (pv_evp V) a (en_cipher (nk_enc nk)) key iv True = Inr sc \<Longrightarrow>
      cipher_init (pv_evp V) a (en_cipher (nk_enc nk)) key iv False = Inr rc \<Longrightarrow> pair sc rc"
  shows "linked pair (pv_mac V) s1 r1"
proof -
  let ?c = "en_cipher (nk_enc nk)"
  obtain mac key cc where m1: "if cipher_authlen ?c = 0 then mac_init (pv_mac V) (nk_mac nk) = Inr mac else mac = nk_mac nk"
    and k1: "key_bytes (en_key (nk_enc nk)) (en_key_len (nk_enc nk)) = Inr key"
    and c1: "cipher_init (pv_evp V) (pv_alloc V) ?c key (map_option (take (en_iv_len (nk_enc nk))) (en_iv (nk_enc nk))) (MODE_OUT = MODE_OUT) = Inr cc"
    and s1: "s1 = set_block_limits MODE_OUT (en_block_size (nk_enc nk)) (set_newkeys MODE_OUT (Some (nk\<lparr>nk_mac := mac\<lparr>mc_enabled := True\<rparr>\<rparr>))
      (set_context MODE_OUT cc ((reset_counters MODE_OUT s)\<lparr>s_kex := Some (clear_kex_newkeys MODE_OUT k)\<rparr>)))"
    by (rule set_newkeys_result [OF s(4,1)]) (simp_all add: get_kex_newkeys_def s)
  obtain mac' key' cc' where m2: "if cipher_authlen ?c = 0 then mac_init (pv_mac W) (nk_mac nk) = Inr mac' else mac' = nk_mac nk"
    and k2: "key_bytes (en_key (nk_enc nk)) (en_key_len (nk_enc nk)) = Inr key'"
    and c2: "cipher_init (pv_evp W) (pv_alloc W) ?c key' (map_option (take (en_iv_len (nk_enc nk))) (en_iv (nk_enc nk))) (MODE_IN = MODE_OUT) = Inr cc'"
    and r1: "r1 = set_block_limits MODE_IN (en_block_size (nk_enc nk)) (set_newkeys MODE_IN (Some (nk\<lparr>nk_mac := mac'\<lparr>mc_enabled := True\<rparr>\<rparr>))
      (set_context MODE_IN cc' ((reset_counters MODE_IN r)\<lparr>s_kex := Some (clear_kex_newkeys MODE_IN l)\<rparr>)))"
    by (rule set_newkeys_result [OF r(4,1)]) (simp_all add: get_kex_newkeys_def r)
  have same: "mac' = mac" "key' = key" using m1 m2 k1 k2 env by (auto split: if_splits)
  have "pair cc cc'" using pair c1 c2 unfolding env same by simp
  moreover have "mac_match (pv_mac V) (mac\<lparr>mc_enabled := True\<rparr>) (mac\<lparr>mc_enabled := True\<rparr>)" if a: "cipher_authlen ?c = 0"
  proof -
    obtain mkey where k: "mc_key (nk_mac nk) = Some mkey" using wf(2) by (auto simp: keys_filled_def)
    have w: "mac_wf (pv_mac V) (nk_mac nk)" and i: "mac_init (pv_mac V) (nk_mac nk) = Inr mac" using wf(1) m1 a by (simp_all add: newkeys_wf_def)
    from mac_init_keyed [OF P w k i] obtain m where "mac_keyed (pv_mac V) m mkey mac" by blast
    then have "mac_keyed (pv_mac V) m mkey (mac\<lparr>mc_enabled := True\<rparr>)" by (cases "ma_type m") (simp_all add: mac_keyed_def)
    then show ?thesis by (auto simp: mac_match_def)
  qed
  ultimately show ?thesis
    using rest wf(1)
    by (simp add: linked_def keys_match_def s1 r1 same set_block_limits_def Let_def set_newkeys_def set_context_def reset_counters_def
        newkeys_wf_def comp_wf_def)
qed

text \<open>The ciphers of the repository: contexts made with the same key are a pair.\<close>

lemma chachapoly_new_same: "chachapoly_new key n = Some cp \<Longrightarrow> n \<le> length key \<Longrightarrow> chachapoly_same_key cp cp"
  by (auto simp: chachapoly_new_def chachapoly_same_key_def chacha_same_key_def chachapoly_wf_def chacha_keysetup_def split: if_splits)

lemma cipher_init_chacha_pair:
  assumes "ci_flags cipher AND CFLAG_CHACHAPOLY \<noteq> 0"
    and "cipher_init E a cipher key iv True = Inr sc" "cipher_init E a cipher key iv False = Inr rc"
  shows "chacha_pair sc rc"
proof -
  obtain cp where cp: "chachapoly_new key (length key) = Some cp"
    and sc: "sc = \<lparr>cc_plaintext = (ci_flags cipher AND CFLAG_NONE \<noteq> 0), cc_encrypt = True, cc_evp = None, cc_cp_ctx = Some cp, cc_cipher = cipher\<rparr>"
    using assms by (auto simp: cipher_init_def Let_def split: if_splits option.splits)
  have rc: "rc = sc\<lparr>cc_encrypt := False\<rparr>"
    using assms cp sc by (auto simp: cipher_init_def Let_def split: if_splits)
  have "chachapoly_same_key cp cp" using chachapoly_new_same [OF cp] by simp
  then show ?thesis using assms(1) by (simp add: chacha_pair_def sc rc)
qed

lemma cipher_init_none_pair:
  assumes "ci_flags cipher AND CFLAG_CHACHAPOLY = 0" "ci_flags cipher AND CFLAG_NONE \<noteq> 0"
    and "cipher_init E a cipher key iv True = Inr sc" "cipher_init E a cipher key iv False = Inr rc"
  shows "none_pair sc rc"
  using assms by (auto simp: none_pair_def cipher_init_def Let_def split: if_splits)

section \<open>The strict key exchange\<close>

lemma read_stages_p_read:
  "ssh_packet_start_discard V mac already n s = Inr t \<Longrightarrow> s_p_read t = s_p_read s"
  "read_check_etm V n s = Inr t \<Longrightarrow> s_p_read t = s_p_read s"
  "read_decrypt V n s = Inr t \<Longrightarrow> s_p_read t = s_p_read s"
  by (auto simp: ssh_packet_start_discard_def read_check_etm_def read_decrypt_def rbind_eq_Inr Let_def split: if_splits option.splits)

lemma read_length_p_read: "read_length V s = Inr (go, t) \<Longrightarrow> s_p_read t = s_p_read s"
  by (auto simp: read_length_def Let_def rbind_eq_Inr dest!: read_stages_p_read split: if_splits sum.splits)

lemma read_check_mac_p_read: "read_check_mac V n s = Inr (go, t) \<Longrightarrow> s_p_read t = s_p_read s"
  by (auto simp: read_check_mac_def Let_def rbind_eq_Inr dest!: read_stages_p_read split: if_splits option.splits sum.splits)

lemma read_body_p_read: "read_body V s = Inr (go, t) \<Longrightarrow> s_p_read t = s_p_read s"
  by (auto simp: read_body_def Let_def rbind_eq_Inr dest!: read_stages_p_read read_check_mac_p_read split: if_splits)

text \<open>While an exchange is under way no new one starts, so that a packet is counted once, and the count starts again after \<^verbatim>\<open>NEWKEYS\<close>.\<close>

lemma check_rekey_busy:
  assumes "s_kex s = Some k" "\<not> kx_done k" "ssh_packet_check_rekey V s = Inr t"
  shows "t = s"
proof -
  have "ssh_packet_is_rekeying s" using assms(1,2) by (simp add: ssh_packet_is_rekeying_def)
  then have "\<not> ssh_packet_need_rekeying V 0 s" by (simp add: ssh_packet_need_rekeying_def)
  then show ?thesis using assms(3) by (simp add: ssh_packet_check_rekey_def rbind_eq_Inr)
qed

lemma read_finish_counts:
  assumes k: "s_kex s = Some k" "\<not> kx_done k" "kx_kex_strict k \<noteq> 0" and r: "read_finish V s = Inr (Some (ty, seq), t)"
  shows "seq = ps_seqnr (s_p_read s) \<and> s_kex t = s_kex s \<and>
    ps_seqnr (s_p_read t) = (if ty = SSH2_MSG_NEWKEYS then 0 else seq + 1)"
proof -
  from r obtain p a b where p: "count_packet (s_kex s) (unat (s_packlen s + 4)) (keys_block_size (s_newkeys_in s)) (s_p_read s) = Inr p"
    and a: "read_unpad V (s\<lparr>s_p_read := p\<rparr>) = Inr a" and b: "read_uncompress V a = Inr b"
    and c: "read_type V b = Inr (ty, t)" and seq: "seq = ps_seqnr (s_p_read s)"
    by (auto simp: read_finish_def Let_def rbind_eq_Inr)
  from c obtain d where d: "sshpkt_get_u8 b = Inr (ty, d)" and e: "read_effects V ty d = Inr t"
    by (auto simp: read_type_def rbind_eq_Inr split: if_splits)
  have "s_p_read a = p \<and> s_kex a = s_kex s" using a by (auto simp: read_unpad_def Let_def rbind_eq_Inr split: if_splits)
  moreover have "s_p_read b = s_p_read a \<and> s_kex b = s_kex a"
    using b by (auto simp: read_uncompress_def rbind_eq_Inr dest!: uncompress_buffer_same split: if_splits)
  moreover have "s_p_read d = s_p_read b \<and> s_kex d = s_kex b"
    using sshpkt_read_same d by (fastforce simp: sshpkt_get_u8_def)
  ultimately have d': "s_p_read d = p" "s_kex d = Some k" using k by simp_all
  define f where "f = (if ty = SSH2_MSG_USERAUTH_SUCCESS \<and> \<not> s_server_side d
    then snd (ssh_packet_enable_delayed_compress V d) else d)\<lparr>s_packlen := 0\<rparr>"
  have "stage_same d (snd (ssh_packet_enable_delayed_compress V d))"
    by (cases "ssh_packet_enable_delayed_compress V d") (use enable_delayed_compress_same in auto)
  then have f: "s_p_read f = p" "s_kex f = Some k" using d' by (auto simp: f_def stage_same_def read_side_same_def)
  have kf: "the_kex f = Inr k" using f(2) by (simp add: the_kex_def)
  from e have "ssh_packet_check_rekey V (if ty = SSH2_MSG_NEWKEYS then f\<lparr>s_p_read := p\<lparr>ps_seqnr := 0\<rparr>\<rparr> else f) = Inr t"
    unfolding read_effects_def Let_def f_def [symmetric] using f(1) kf k(3) by (simp split: if_splits)
  from check_rekey_busy [OF _ k(2) this] f(2) have "t = (if ty = SSH2_MSG_NEWKEYS then f\<lparr>s_p_read := p\<lparr>ps_seqnr := 0\<rparr>\<rparr> else f)" by simp
  then show ?thesis using f count_packet_step [OF p] k seq by simp
qed

lemma read_poll2_counts:
  assumes k: "s_kex s = Some k" "\<not> kx_done k" "kx_kex_strict k \<noteq> 0" and r: "ssh_packet_read_poll2 V s = Inr (Some (ty, seq), t)"
  shows "seq = ps_seqnr (s_p_read s) \<and> s_kex t = s_kex s \<and>
    ps_seqnr (s_p_read t) = (if ty = SSH2_MSG_NEWKEYS then 0 else seq + 1)"
proof -
  have "\<not> s_mux s" using r k by (auto simp: ssh_packet_read_poll2_def ssh_packet_read_poll2_mux_def)
  with r obtain a b where a: "read_length V s = Inr (True, a)" and b: "read_body V a = Inr (True, b)"
    and t: "read_finish V b = Inr (Some (ty, seq), t)"
    by (auto simp: ssh_packet_read_poll2_def rbind_eq_Inr split: if_splits)
  have "s_kex b = s_kex s" using read_length_same(1) [OF a] read_body_same(1) [OF b] by (simp add: send_side_same_def)
  with read_finish_counts [OF _ k(2,3) t] k(1) show ?thesis using read_length_p_read [OF a] read_body_p_read [OF b] by simp
qed

text \<open>
  (C4) In a strict exchange, until the first keys are in use, no packet goes unnoticed.  A round of the dispatcher that succeeds has read exactly
  one packet: its sequence number is the next one, the count then goes on by one or starts again after \<^verbatim>\<open>NEWKEYS\<close>, and unless it is
  the wrongly guessed packet that is skipped, it was given to a handler that is not the one for unexpected messages.  So nobody can
  add packets before the keys are in use and be left with a connection.
\<close>

theorem strict_kex_no_extra_packets:
  assumes "s_kex s = Some k" "kx_flags k AND KEX_INITIAL \<noteq> 0" "kx_kex_strict k \<noteq> 0" "\<not> kx_done k"
    and "dispatch_step V methods H s = Inr (Some (ty, skipped), t)"
  shows "\<exists>u. ssh_packet_read_poll2 V s = Inr (Some (ty, ps_seqnr (s_p_read s)), u) \<and>
    ps_seqnr (s_p_read u) = (if ty = SSH2_MSG_NEWKEYS then 0 else ps_seqnr (s_p_read s) + 1) \<and> ty \<noteq> SSH2_MSG_DISCONNECT \<and>
    (skipped \<longrightarrow> s_dispatch_skip_packets u \<noteq> 0) \<and>
    (\<not> skipped \<longrightarrow> s_dispatch u ! unat ty \<notin> {Fn_null, Fn_kex_protocol_error} \<and>
      call_handler V methods H (s_dispatch u ! unat ty) ty (ps_seqnr (s_p_read s)) (u\<lparr>s_keep_alive_timeouts := 0\<rparr>) = Inr t)"
proof -
  obtain packet v where r: "ssh_packet_read_poll_seqnr V s = Inr (packet, v)"
    using assms(5) by (auto simp: dispatch_step_def rbind_eq_Inr)
  obtain seq where p: "ssh_packet_read_poll_seqnr V s = Inr (Some (ty, seq), v)"
    using assms(5) r by (cases packet) (auto simp: dispatch_step_def rbind_eq_Inr split: if_splits)
  note p' = p [unfolded ssh_packet_read_poll_seqnr.simps [of V s]]
  then obtain ty' seq' u where u: "ssh_packet_read_poll2 V s = Inr (Some (ty', seq'), u)"
    by (auto split: sum.splits option.splits)
  note c = read_poll2_counts [OF assms(1,4,3) u]
  have "strict_initial (u\<lparr>s_keep_alive_timeouts := 0\<rparr>)" using c assms(1-3) by (simp add: strict_initial_def)
  with p' u have v: "ty' = ty" "seq' = seq" "v = u\<lparr>s_keep_alive_timeouts := 0\<rparr>" "ty \<noteq> SSH2_MSG_DISCONNECT"
    by (auto simp: Let_def rbind_eq_Inr split: if_splits)
  have "kex_protocol_error V seq v = Inl Pfatal" using v(3) c assms(1-3) by (simp add: kex_protocol_error_def the_kex_def)
  then show ?thesis
    using assms(5) p u v c
    by (cases "s_dispatch u ! unat ty") (auto simp: dispatch_step_def rbind_eq_Inr split: if_splits)
qed

lemma chacha_cipher:
  assumes "c \<in> set ciphers" "ci_name c = ''chacha20-poly1305@openssh.com''"
  shows "ci_flags c AND CFLAG_CHACHAPOLY \<noteq> 0" "cipher_authlen c \<noteq> 0" "ci_key_len c = 64" "cipher_keylen c = 64" "cipher_ivlen c = 0"
  using assms by (auto simp: ciphers_def CFLAG_CHACHAPOLY_def cipher_authlen_def cipher_keylen_def cipher_ivlen_def CFLAG_NONE_def CFLAG_CBC_def)

text \<open>Taking keys for \<^verbatim>\<open>chacha20-poly1305\<close> into use cannot fail.\<close>

lemma set_newkeys_chacha:
  assumes s: "s_kex s = Some k" "get_kex_newkeys m k = Some nk" "\<not> s_after_authentication s" and V: "pv_alloc V"
    and wf: "newkeys_wf P nk" "keys_filled nk" "ci_name (en_cipher (nk_enc nk)) = ''chacha20-poly1305@openssh.com''"
  shows "\<exists>t. ssh_set_newkeys V m s = Inr t"
proof -
  let ?e = "nk_enc nk"
  have c: "en_cipher ?e \<in> set ciphers" and len: "en_key_len ?e = 64" "en_iv_len ?e = 0"
    using wf(1) chacha_cipher [OF _ wf(3)] by (simp_all add: newkeys_wf_def enc_wf_def)
  obtain key iv where key: "en_key ?e = Some key" "en_iv ?e = Some iv" "64 \<le> length key"
    using wf(2) len by (auto simp: keys_filled_def)
  note ch = chacha_cipher [OF c wf(3)]
  have k': "the_kex (reset_counters m s) = Inr k" using s(1) by (cases m) (simp_all add: the_kex_def reset_counters_def)
  obtain cc where cc: "cipher_init (pv_evp V) (pv_alloc V) (en_cipher ?e) (take 64 key) (Some (take 0 iv)) (m = MODE_OUT) = Inr cc"
    using V ch key(3) by (simp add: cipher_init_def Let_def chachapoly_new_def)
  have auth: "s_after_authentication (set_newkeys m x (set_context m cc ((reset_counters m s)\<lparr>s_kex := y\<rparr>))) = False" for x y
    using s(3) by (cases m) (simp_all add: set_newkeys_def set_context_def reset_counters_def)
  show ?thesis
    unfolding ssh_set_newkeys_def Let_def k' rbind_simps s(2) option.case
    using ch(2) key cc len by (simp add: key_bytes_def set_newkeys_compression_def auth)
qed

definition example_kexed :: "kex \<Rightarrow> (unit, unit) ssh" where
  "example_kexed k = example_end\<lparr>s_kex := Some k\<rparr>"

definition example_strict_kex :: kex where
  "example_strict_kex = kex_new\<lparr>kx_flags := KEX_INITIAL, kx_kex_strict := 1\<rparr>"

definition example_strict :: "(unit, unit) ssh" where
  "example_strict = (ssh_alloc_session_state
     \<lparr>cc_plaintext = True, cc_encrypt = False, cc_evp = None, cc_cp_ctx = None, cc_cipher = none_cipher\<rparr>
     \<lparr>cc_plaintext = True, cc_encrypt = True, cc_evp = None, cc_cp_ctx = None, cc_cipher = none_cipher\<rparr>)
     \<lparr>s_kex := Some example_strict_kex, s_input := [0, 0, 0, 12, 10, 30, 0, 0, 0, 0, 0, 0, 0, 0, 0, 0],
      s_dispatch := replicate DISPATCH_MAX (Fn_other 0)\<rparr>"

lemma example_strict_fields:
  "s_newkeys_in example_strict = None" "s_packlen example_strict = 0" "s_packet_discard example_strict = 0" "\<not> s_mux example_strict"
  "s_input example_strict = [0, 0, 0, 12, 10, 30, 0, 0, 0, 0, 0, 0, 0, 0, 0, 0]" "s_kex example_strict = Some example_strict_kex"
  "s_p_read example_strict = \<lparr>ps_seqnr = 0, ps_packets = 0, ps_blocks = 0, ps_bytes = 0\<rparr>" "s_dispatch_skip_packets example_strict = 0"
  "s_p_send example_strict = \<lparr>ps_seqnr = 0, ps_packets = 0, ps_blocks = 0, ps_bytes = 0\<rparr>" "\<not> s_after_authentication example_strict"
  "s_newkeys_out example_strict = None" "s_dispatch example_strict = replicate DISPATCH_MAX (Fn_other 0)"
  "cipher_crypt E (s_receive_context example_strict) q src n 0 0 = Inr (take n src, s_receive_context example_strict)"
  by (simp_all add: example_strict_def ssh_alloc_session_state_def cipher_crypt_def none_cipher_simps)

lemma no_keys: "keys_aadlen None = 0" "keys_block_size None = 8" "keys_authlen None = 0" "keys_maclen None = 0" "active_mac None = None"
    "\<not> keys_compress None"
  by (simp_all add: keys_aadlen_def keys_block_size_def keys_authlen_def keys_maclen_def active_mac_def keys_compress_def)

lemma example_strict_poll:
  "ssh_packet_read_poll2 example_env example_strict = Inr (Some (30, 0), example_strict\<lparr>s_packlen := 0, s_incoming_packet := [], s_input := [],
     s_p_read := \<lparr>ps_seqnr = 1, ps_packets = 1, ps_blocks = 2, ps_bytes = 16\<rparr>\<rparr>)"
proof -
  have peek: "PEEK_U32 [0, 0, 0, 12, 10, 30, 0, 0] = 12" by code_simp
  note f = example_strict_fields no_keys
  have same: "s\<lparr>s_receive_context := s_receive_context s\<rparr> = s" for s :: "('e, 'z) ssh" by simp
  have "\<not> bad_packlen 12" by (simp add: bad_packlen_def packet_consts)
  then have len: "read_length example_env example_strict = Inr (True, example_strict\<lparr>s_packlen := 12, s_incoming_packet := [0, 0, 0, 12, 10, 30, 0, 0],
      s_input := [0, 0, 0, 0, 0, 0, 0, 0]\<rparr>)" (is "_ = Inr (True, ?a)")
    unfolding read_length_def Let_def by (simp add: f peek)
  have body: "read_body example_env ?a = Inr (True, ?a\<lparr>s_incoming_packet := [0, 0, 0, 12, 10, 30, 0, 0, 0, 0, 0, 0, 0, 0, 0, 0], s_input := []\<rparr>)"
    (is "_ = Inr (True, ?b)")
    unfolding read_body_def Let_def
    by (simp add: f read_need_def read_check_etm_def read_decrypt_def read_check_mac_def Let_def buf_append_def buf_put_def SSHBUF_SIZE_MAX_def)
  have fin: "read_finish example_env ?b = Inr (Some (30, 0), example_strict\<lparr>s_packlen := 0, s_incoming_packet := [], s_input := [],
     s_p_read := \<lparr>ps_seqnr = 1, ps_packets = 1, ps_blocks = 2, ps_bytes = 16\<rparr>\<rparr>)"
  proof -
    have cnt: "count_packet (s_kex ?b) (unat (s_packlen ?b + 4)) (keys_block_size (s_newkeys_in ?b)) (s_p_read ?b) =
        Inr \<lparr>ps_seqnr = 1, ps_packets = 1, ps_blocks = 2, ps_bytes = 16\<rparr>"
      by (simp add: count_packet_def f)
    have unpad: "read_unpad example_env (?b\<lparr>s_p_read := p\<rparr>) = Inr (?b\<lparr>s_p_read := p, s_incoming_packet := [30]\<rparr>)" for p
      by (simp add: read_unpad_def)
    have "ssh_packet_check_rekey example_env (example_strict\<lparr>s_input := x, s_p_read := p, s_incoming_packet := y, s_packlen := 0\<rparr>) =
        Inr (example_strict\<lparr>s_input := x, s_p_read := p, s_incoming_packet := y, s_packlen := 0\<rparr>)" if "ps_packets p = 1" for x y p
      using that by (simp add: ssh_packet_check_rekey_def ssh_packet_check_rekey_preauth_def ssh_packet_check_rekey_blocklimit_def
          ssh_packet_need_rekeying_def f packet_consts)
    then have "read_type example_env (example_strict\<lparr>s_packlen := 12, s_input := [], s_p_read := p, s_incoming_packet := [30]\<rparr>) =
        Inr (30, example_strict\<lparr>s_packlen := 0, s_incoming_packet := [], s_input := [], s_p_read := p\<rparr>)" if "ps_packets p = 1" for p
      using that by (simp add: read_type_def sshpkt_get_u8_def sshpkt_read_def read_effects_def packet_consts f)
    then show ?thesis
      unfolding read_finish_def Let_def cnt rbind_simps unpad by (simp add: read_uncompress_def f)
  qed
  show ?thesis using len body fin by (simp add: ssh_packet_read_poll2_def f)
qed

theorem strict_kex_no_extra_packets_witness:
  "\<exists>t u. dispatch_step example_env (\<lambda>_. None) (\<lambda>n ty seq s. Inr s) example_strict = Inr (Some (30, False), t) \<and>
     ssh_packet_read_poll2 example_env example_strict = Inr (Some (30, 0), u) \<and> ps_seqnr (s_p_read u) = 1"
proof -
  have k: "kx_flags example_strict_kex AND KEX_INITIAL \<noteq> 0" "kx_kex_strict example_strict_kex \<noteq> 0" "\<not> kx_done example_strict_kex"
    by (simp_all add: example_strict_kex_def kex_new_def KEX_INITIAL_def)
  have "ssh_packet_read_poll_seqnr example_env example_strict = Inr (Some (30, 0), example_strict\<lparr>s_packlen := 0, s_incoming_packet := [], s_input := [],
     s_p_read := \<lparr>ps_seqnr = 1, ps_packets = 1, ps_blocks = 2, ps_bytes = 16\<rparr>, s_keep_alive_timeouts := 0\<rparr>)"
    using k by (subst ssh_packet_read_poll_seqnr.simps)
      (simp add: example_strict_poll Let_def strict_initial_def example_strict_fields SSH2_MSG_DISCONNECT_def)
  then obtain t where t: "dispatch_step example_env (\<lambda>_. None) (\<lambda>n ty seq s. Inr s) example_strict = Inr (Some (30, False), t)"
    by (simp add: dispatch_step_def example_strict_fields SSH_MSG_NONE_def DISPATCH_MAX_def)
  show ?thesis
    using strict_kex_no_extra_packets [OF example_strict_fields(6) k t] t
    by (auto simp: example_strict_fields SSH2_MSG_NEWKEYS_def)
qed

end
